(* ===== verification/NetPrelude.thy ===== *)
theory NetPrelude
  imports Main "HOL-Library.Word" "HOL-Library.Code_Target_Nat"
begin

text \<open>
  Shared vocabulary of the development: the machine integers of the C++ sources
  (\<open>std::uint8_t\<close> to \<open>std::uint64_t\<close>) as words of the same width, byte buffers as
  lists of bytes, big-endian reads and writes, and the list and word lemmas that the
  component theories share.

  Conventions used throughout:
  \<^item> \<open>std::size_t\<close> values are lengths and indices of objects in memory and are \<open>nat\<close>;
    where the source tests a \<open>size_t\<close> for overflow the test is written out against
    \<open>size_max\<close>.
  \<^item> A pointer/length pair into a buffer is the list of the bytes it denotes; a pointer
    that the source compares with \<open>nullptr\<close> is an \<open>option\<close>.
  \<^item> An error code plus a result record is modelled as that record, with the error as a
    field, exactly as the source returns it.
\<close>

unbundle bit_operations_syntax

section \<open>Types\<close>

type_synonym u8 = "8 word"
type_synonym u16 = "16 word"
type_synonym u32 = "32 word"
type_synonym u64 = "64 word"
type_synonym bytes = "u8 list"

definition size_max :: nat where
  "size_max = 2 ^ 64 - 1"

abbreviation u32_max :: u32 where
  "u32_max \<equiv> 0xFFFFFFFF"

abbreviation u64_max :: u64 where
  "u64_max \<equiv> 0xFFFFFFFFFFFFFFFF"

named_theorems word_nat_simps \<open>facts that move word arithmetic to the naturals\<close>
named_theorems buffer_simps \<open>reads and lengths of byte buffers after writes\<close>

section \<open>Big-endian reads and writes\<close>

text \<open>The idiom \<open>(uint16_t(p[0]) << 8) | p[1]\<close> and its 32-bit version.\<close>

definition be16 :: "u8 \<Rightarrow> u8 \<Rightarrow> u16" where
  "be16 a b = push_bit 8 (ucast a) OR ucast b"

definition be32 :: "u8 \<Rightarrow> u8 \<Rightarrow> u8 \<Rightarrow> u8 \<Rightarrow> u32" where
  "be32 a b c d =
     push_bit 24 (ucast a) OR push_bit 16 (ucast b) OR push_bit 8 (ucast c) OR ucast d"

text \<open>\<open>Read16(data + i)\<close> and \<open>Read32(data + i)\<close> on a buffer.\<close>

definition rd16 :: "bytes \<Rightarrow> nat \<Rightarrow> u16" where
  "rd16 data i = be16 (data ! i) (data ! (i + 1))"

definition rd32 :: "bytes \<Rightarrow> nat \<Rightarrow> u32" where
  "rd32 data i = be32 (data ! i) (data ! (i + 1)) (data ! (i + 2)) (data ! (i + 3))"

text \<open>The bytes that \<open>Write16\<close> and \<open>Write32\<close> store.\<close>

definition be16_bytes :: "u16 \<Rightarrow> bytes" where
  "be16_bytes v = [ucast (drop_bit 8 v), ucast (v AND 0xff)]"

definition be32_bytes :: "u32 \<Rightarrow> bytes" where
  "be32_bytes v =
     [ucast (drop_bit 24 v), ucast (drop_bit 16 v AND 0xff), ucast (drop_bit 8 v AND 0xff),
      ucast (v AND 0xff)]"

text \<open>\<open>Write16(out + k, v)\<close> and \<open>Write32(out + k, v)\<close>, byte by byte.\<close>

definition Write16 :: "nat \<Rightarrow> u16 \<Rightarrow> bytes \<Rightarrow> bytes" where
  "Write16 k value out =
     out[k := ucast (drop_bit 8 value), k + 1 := ucast (value AND 0xff)]"

definition Write32 :: "nat \<Rightarrow> u32 \<Rightarrow> bytes \<Rightarrow> bytes" where
  "Write32 k value out =
     out[k := ucast (drop_bit 24 value), k + 1 := ucast (drop_bit 16 value AND 0xff),
         k + 2 := ucast (drop_bit 8 value AND 0xff), k + 3 := ucast (value AND 0xff)]"

text \<open>
  \<open>memcpy(out + k, src, n)\<close>: overwrite the bytes from index \<open>k\<close> on. Like a list update, it has
  no effect outside of the buffer; the callers' capacity checks exclude that case.
\<close>

definition memcpy_at :: "nat \<Rightarrow> bytes \<Rightarrow> bytes \<Rightarrow> bytes" where
  "memcpy_at k src out = take k out @ take (length out - k) src @ drop (k + length src) out"

definition slice :: "nat \<Rightarrow> nat \<Rightarrow> 'a list \<Rightarrow> 'a list" where
  "slice off len xs = take len (drop off xs)"

section \<open>Words and naturals\<close>

lemma disj_or_add: "(x::'a::len word) AND y = 0 \<Longrightarrow> x OR y = x + y"
  using word_plus_and_or [of x y] by simp

lemma unat_u8_less [word_nat_simps]: "unat (a::u8) < 256"
  using unsigned_less [of a, where 'a = nat] by simp

lemma unat_u16_less [word_nat_simps]: "unat (a::u16) < 65536"
  using unsigned_less [of a, where 'a = nat] by simp

lemma unat_u32_less [word_nat_simps]: "unat (a::u32) < 4294967296"
  using unsigned_less [of a, where 'a = nat] by simp

lemma bit_byte_high: "8 \<le> n \<Longrightarrow> \<not> bit (a::u8) n"
  using bit_imp_le_length [of a n] by auto

lemma byte_mask: "(0xff :: 'a::len word) = mask 8"
  by (simp add: mask_eq_exp_minus_1)

lemma half_mask: "(0xFFFF :: 'a::len word) = mask 16"
  by (simp add: mask_eq_exp_minus_1)

lemma unat_shifted_byte:
  assumes m: "m + 8 \<le> LENGTH('a::len)"
  shows "unat (push_bit m (ucast (a::u8)) :: 'a word) = 2 ^ m * unat a"
proof -
  have a: "unat a < 2 ^ 8" using unat_u8_less [of a] by simp
  have "unat a * 2 ^ m < 2 ^ 8 * 2 ^ m" using a by (intro mult_strict_right_mono) auto
  also have "(2::nat) ^ 8 * 2 ^ m = 2 ^ (m + 8)" by (simp only: power_add [symmetric] add.commute)
  also have "\<dots> \<le> 2 ^ LENGTH('a)" using m by (intro power_increasing) auto
  finally have lt: "unat a * 2 ^ m < 2 ^ LENGTH('a)" .
  have "unat a < 2 ^ LENGTH('a)"
    using a m power_increasing [of 8 "LENGTH('a)" "2::nat"] by linarith
  then have "take_bit LENGTH('a) (unat a) = unat a" by (rule take_bit_nat_eq_self)
  moreover have "take_bit LENGTH('a) (unat a * 2 ^ m) = unat a * 2 ^ m"
    using lt by (rule take_bit_nat_eq_self)
  ultimately show ?thesis
    unfolding unsigned_push_bit_eq unsigned_ucast_eq
    by (simp add: push_bit_eq_mult mult.commute)
qed

lemma unat_be16: "unat (be16 a b) = 256 * unat a + unat b"
proof -
  have dj: "(push_bit 8 (ucast a) :: u16) AND ucast b = 0"
    by (rule bit_word_eqI) (auto simp: bit_simps dest: bit_byte_high)
  have "unat (be16 a b) =
      (unat (push_bit 8 (ucast a) :: u16) + unat (push_bit 0 (ucast b) :: u16)) mod 2^16"
    using dj by (simp add: be16_def disj_or_add unat_word_ariths)
  also have "\<dots> = 256 * unat a + unat b"
    using unat_u8_less [of a] unat_u8_less [of b]
    by (simp add: unat_shifted_byte del: push_bit_0_id)
  finally show ?thesis .
qed

lemma unat_be32:
  "unat (be32 a b c d) = 16777216 * unat a + 65536 * unat b + 256 * unat c + unat d"
proof -
  have 1: "(push_bit 8 (ucast c) :: u32) AND ucast d = 0"
    by (rule bit_word_eqI) (auto simp: bit_simps dest: bit_byte_high)
  have 2: "(push_bit 16 (ucast b) :: u32) AND (push_bit 8 (ucast c) OR ucast d) = 0"
    by (rule bit_word_eqI) (auto simp: bit_simps bit_byte_high)
  have 3: "(push_bit 24 (ucast a) :: u32) AND
      (push_bit 16 (ucast b) OR (push_bit 8 (ucast c) OR ucast d)) = 0"
    by (rule bit_word_eqI) (auto simp: bit_simps bit_byte_high)
  have "be32 a b c d =
      push_bit 24 (ucast a) + (push_bit 16 (ucast b) + (push_bit 8 (ucast c) + push_bit 0 (ucast d)))"
    by (simp only: be32_def push_bit_0_id id_apply) (metis 1 2 3 disj_or_add)
  then show ?thesis
    using unat_u8_less [of a] unat_u8_less [of b] unat_u8_less [of c] unat_u8_less [of d]
    by (simp add: unat_word_ariths unat_shifted_byte del: push_bit_0_id)
qed

lemma be16_split [simp]: "be16 (ucast (drop_bit 8 v)) (ucast (v AND 0xff)) = v"
  unfolding byte_mask by (rule bit_word_eqI) (auto simp: be16_def bit_simps)

lemma be32_split [simp]:
  "be32 (ucast (drop_bit 24 v)) (ucast (drop_bit 16 v AND 0xff))
     (ucast (drop_bit 8 v AND 0xff)) (ucast (v AND 0xff)) = v"
proof (rule bit_word_eqI)
  fix n :: nat
  assume "n < LENGTH(32)"
  then consider "n < 8" | "8 \<le> n" "n < 16" | "16 \<le> n" "n < 24" | "24 \<le> n" "n < 32"
    by fastforce
  then show "bit (be32 (ucast (drop_bit 24 v)) (ucast (drop_bit 16 v AND 0xff))
      (ucast (drop_bit 8 v AND 0xff)) (ucast (v AND 0xff))) n = bit v n"
    unfolding byte_mask by cases (auto simp: be32_def bit_simps)
qed

lemma unat_and_half: "unat ((w::u32) AND 0xFFFF) = unat w mod 65536"
proof -
  have "w AND 0xFFFF = take_bit 16 w"
    unfolding half_mask by (simp add: take_bit_eq_mask)
  then have "unat (w AND 0xFFFF) = take_bit 16 (unat w)"
    by (simp add: unsigned_take_bit_eq)
  then show ?thesis by (simp add: take_bit_eq_mod)
qed

lemma unat_shift_half: "unat (drop_bit 16 (w::u32)) = unat w div 65536"
proof -
  have "unat (drop_bit 16 w) = drop_bit 16 (unat w)"
    by (simp add: unsigned_drop_bit_eq unat_u32_less take_bit_nat_eq_self)
  then show ?thesis by (simp add: drop_bit_eq_div)
qed

section \<open>Buffers\<close>

lemma length_be16_bytes [simp]: "length (be16_bytes v) = 2"
  by (simp add: be16_bytes_def)

lemma length_be32_bytes [simp]: "length (be32_bytes v) = 4"
  by (simp add: be32_bytes_def)

lemma length_memcpy_at [simp]: "length (memcpy_at k src out) = length out"
  by (auto simp: memcpy_at_def)

lemma memcpy_at_eq_Nil [simp]: "memcpy_at k src out = [] \<longleftrightarrow> out = []"
  by (metis length_0_conv length_memcpy_at)

lemma nonempty_if_long:
  "numeral n \<le> length xs \<Longrightarrow> xs \<noteq> []" "numeral n + m \<le> length xs \<Longrightarrow> xs \<noteq> []"
  by auto

lemma nth_memcpy_at [buffer_simps]:
  assumes "k + length src \<le> length out" "i < length out"
  shows "memcpy_at k src out ! i =
    (if i < k then out ! i else if i < k + length src then src ! (i - k) else out ! i)"
  using assms by (auto simp: memcpy_at_def nth_append min_def)

lemma length_slice [simp]: "off + len \<le> length xs \<Longrightarrow> length (slice off len xs) = len"
  by (simp add: slice_def)

lemma slice_memcpy_at_same [buffer_simps]:
  "k + length src \<le> length out \<Longrightarrow> slice k (length src) (memcpy_at k src out) = src"
  by (simp add: slice_def memcpy_at_def)

lemma nth_slice [buffer_simps]:
  "i < n \<Longrightarrow> off + n \<le> length xs \<Longrightarrow> slice off n xs ! i = xs ! (off + i)"
  by (simp add: slice_def)

lemma slice_memcpy_at_inside [buffer_simps]:
  assumes "off \<le> k" "k + length s \<le> off + n" "off + n \<le> length out"
  shows "slice off n (memcpy_at k s out) = memcpy_at (k - off) s (slice off n out)"
proof (rule nth_equalityI)
  fix i assume "i < length (slice off n (memcpy_at k s out))"
  with assms have "i < n" by simp
  with assms show "slice off n (memcpy_at k s out) ! i = memcpy_at (k - off) s (slice off n out) ! i"
    by (auto simp: nth_slice nth_memcpy_at intro: arg_cong [of _ _ "(!) s"])
qed (use assms in simp)

lemma slice_memcpy_at_outside [buffer_simps]:
  assumes "off + n \<le> k \<or> k + length s \<le> off" "k + length s \<le> length out" "off + n \<le> length out"
  shows "slice off n (memcpy_at k s out) = slice off n out"
  by (rule nth_equalityI) (use assms in \<open>auto simp: nth_slice nth_memcpy_at\<close>)

lemma memcpy_at_all [buffer_simps]: "length s = length out \<Longrightarrow> memcpy_at 0 s out = s"
  by (simp add: memcpy_at_def)

lemma list_update_memcpy_at [buffer_simps]: "out[k := v] = memcpy_at k [v] out"
  by (cases "k < length out") (simp_all add: memcpy_at_def upd_conv_take_nth_drop not_less list_update_beyond)

lemma rd16_be16_bytes [simp]: "be16 (be16_bytes v ! 0) (be16_bytes v ! Suc 0) = v"
  by (simp add: be16_bytes_def)

lemma rd32_be32_bytes [simp]:
  "be32 (be32_bytes v ! 0) (be32_bytes v ! Suc 0) (be32_bytes v ! 2) (be32_bytes v ! 3) = v"
  by (simp add: be32_bytes_def)

lemma rd16_memcpy_at_same [buffer_simps]:
  "k + 2 \<le> length out \<Longrightarrow> rd16 (memcpy_at k (be16_bytes v) out) k = v"
  by (simp add: rd16_def nth_memcpy_at)

lemma rd32_memcpy_at_same [buffer_simps]:
  "k + 4 \<le> length out \<Longrightarrow> rd32 (memcpy_at k (be32_bytes v) out) k = v"
  by (simp add: rd32_def nth_memcpy_at)

lemma rd16_memcpy_at_outside [buffer_simps]:
  "i + 2 \<le> k \<or> k + length s \<le> i \<Longrightarrow> k + length s \<le> length out \<Longrightarrow> i + 2 \<le> length out \<Longrightarrow>
     rd16 (memcpy_at k s out) i = rd16 out i"
  by (auto simp: rd16_def nth_memcpy_at)

lemma rd32_memcpy_at_outside [buffer_simps]:
  "i + 4 \<le> k \<or> k + length s \<le> i \<Longrightarrow> k + length s \<le> length out \<Longrightarrow> i + 4 \<le> length out \<Longrightarrow>
     rd32 (memcpy_at k s out) i = rd32 out i"
  by (auto simp: rd32_def nth_memcpy_at)

lemma rd16_slice [buffer_simps]:
  "i + 2 \<le> n \<Longrightarrow> off + n \<le> length xs \<Longrightarrow> rd16 (slice off n xs) i = rd16 xs (off + i)"
  by (simp add: rd16_def nth_slice)

lemma rd32_slice [buffer_simps]:
  "i + 4 \<le> n \<Longrightarrow> off + n \<le> length xs \<Longrightarrow> rd32 (slice off n xs) i = rd32 xs (off + i)"
  by (simp add: rd32_def nth_slice add.assoc)

lemma slice_slice [buffer_simps]:
  "a + b \<le> n \<Longrightarrow> slice a b (slice off n xs) = slice (off + a) b xs"
  by (simp add: slice_def drop_take min_def add.commute)

lemma slice_0 [buffer_simps]: "slice 0 n xs = take n xs"
  by (simp add: slice_def)

lemma drop_memcpy_at_before [buffer_simps]:
  "k + length s \<le> n \<Longrightarrow> n \<le> length out \<Longrightarrow> drop n (memcpy_at k s out) = drop n out"
  by (simp add: memcpy_at_def)

lemma drop_memcpy_at_tail [buffer_simps]:
  "k + length s = length out \<Longrightarrow> drop k (memcpy_at k s out) = s"
  by (simp add: memcpy_at_def)

lemma rd16_take [buffer_simps]: "i + 2 \<le> n \<Longrightarrow> rd16 (take n xs) i = rd16 xs i"
  by (simp add: rd16_def)

lemma rd32_take [buffer_simps]: "i + 4 \<le> n \<Longrightarrow> rd32 (take n xs) i = rd32 xs i"
  by (simp add: rd32_def)

lemma slice_take [buffer_simps]: "off + m \<le> n \<Longrightarrow> slice off m (take n xs) = slice off m xs"
  by (simp add: slice_def take_drop min_def)

lemma Write16_memcpy_at [buffer_simps]:
  "k + 2 \<le> length out \<Longrightarrow> Write16 k v out = memcpy_at k (be16_bytes v) out"
  by (rule nth_equalityI) (auto simp: Write16_def be16_bytes_def nth_memcpy_at nth_list_update nth_Cons')

lemma Write32_memcpy_at [buffer_simps]:
  "k + 4 \<le> length out \<Longrightarrow> Write32 k v out = memcpy_at k (be32_bytes v) out"
  by (rule nth_equalityI) (auto simp: Write32_def be32_bytes_def nth_memcpy_at nth_list_update nth_Cons')

lemma rd16_Write32_zero [buffer_simps]: "be32_bytes 0 = [0, 0, 0, 0]"
  by (simp add: be32_bytes_def)

lemma memcpy_at_Nil [simp]: "memcpy_at k [] out = out"
  by (simp add: memcpy_at_def)

lemma take_memcpy_at_before [buffer_simps]: "n \<le> k \<Longrightarrow> take n (memcpy_at k s out) = take n out"
  by (cases "k \<le> length out") (simp_all add: memcpy_at_def)

lemma memcpy_at_front: "length s \<le> length out \<Longrightarrow> memcpy_at 0 s out = s @ drop (length s) out"
  by (simp add: memcpy_at_def)

lemma rd16_zeros [buffer_simps]:
  "i + 2 \<le> n \<Longrightarrow> n \<le> length out \<Longrightarrow> rd16 (memcpy_at 0 (replicate n 0) out) i = 0"
  by (simp add: rd16_def memcpy_at_front nth_append be16_def)

lemma take_zeros [buffer_simps]:
  "m \<le> n \<Longrightarrow> n \<le> length out \<Longrightarrow> take m (memcpy_at 0 (replicate n x) out) = replicate m x"
  by (simp add: memcpy_at_front)

lemma rd16_take_zeros: "take n out = replicate n 0 \<Longrightarrow> i + 2 \<le> n \<Longrightarrow> n \<le> length out \<Longrightarrow> rd16 out i = 0"
  using rd16_take [of i n out] by (simp add: rd16_def be16_def)

lemma unat_of_nat_u8: "n < 256 \<Longrightarrow> unat (of_nat n :: u8) = n"
  by (simp add: unsigned_of_nat take_bit_nat_eq_self)

lemma unat_of_nat_u16: "n < 65536 \<Longrightarrow> unat (of_nat n :: u16) = n"
  by (simp add: unsigned_of_nat take_bit_nat_eq_self)

end
