(* ===== verification/Checksum.thy ===== *)
theory Checksum
  imports NetPrelude
begin

text \<open>
  The Internet checksum (\<open>src/ip/checksum.cpp\<close>): the three accumulation loops over a
  32-bit accumulator, the carry-folding loop and the IPv4 and IPv6 pseudo-header seeds.
  The reference is \<open>bsum\<close>, the sum of the big-endian 16-bit words of a buffer as an
  unbounded natural number, and \<open>fold16\<close>, its one's-complement fold.

  The 4-byte load followed by \<open>__builtin_bswap32\<close> is a big-endian load on the
  little-endian hosts the sources target.
\<close>

section \<open>The code\<close>

text \<open>First loop: four bytes per step, as long as four are left.\<close>

fun csum_quads :: "u32 \<Rightarrow> bytes \<Rightarrow> u32 \<times> bytes" where
  "csum_quads acc (a # b # c # d # rest) =
     (let be = be32 a b c d in csum_quads (acc + ((be AND 0xFFFF) + drop_bit 16 be)) rest)"
| "csum_quads acc rest = (acc, rest)"

text \<open>Second loop: the remaining byte pairs.\<close>

fun csum_pairs :: "u32 \<Rightarrow> bytes \<Rightarrow> u32 \<times> bytes" where
  "csum_pairs acc (a # b # rest) = csum_pairs (acc + ucast (be16 a b)) rest"
| "csum_pairs acc rest = (acc, rest)"

text \<open>A trailing odd byte is the high byte of a last word.\<close>

fun csum_tail :: "u32 \<Rightarrow> bytes \<Rightarrow> u32" where
  "csum_tail acc [] = acc"
| "csum_tail acc (a # _) = acc + ucast (push_bit 8 (ucast a) :: u16)"

definition csum_acc :: "u32 \<Rightarrow> bytes \<Rightarrow> u32" where
  "csum_acc seed data =
     (let (acc, rest) = csum_quads seed data; (acc, rest) = csum_pairs acc rest
      in csum_tail acc rest)"

text \<open>The folding loop \<open>while ((acc >> 16) != 0)\<close>.\<close>

lemma fold_step_less:
  assumes "drop_bit 16 (acc::u32) \<noteq> 0"
  shows "unat ((acc AND 0xFFFF) + drop_bit 16 acc) < unat acc"
proof -
  have "unat (drop_bit 16 acc) \<noteq> 0" using assms by (simp add: unsigned_eq_0_iff)
  then have "0 < unat acc div 65536" by (simp add: unat_shift_half)
  moreover have "unat acc mod 65536 + unat acc div 65536 < 2 ^ 32"
    using unat_u32_less [of acc] by simp
  moreover have "unat acc mod 65536 + unat acc div 65536 < unat acc"
    using calculation(1) div_mult_mod_eq [of "unat acc" 65536] by linarith
  ultimately show ?thesis
    by (simp add: unat_word_ariths unat_and_half unat_shift_half)
qed

function csum_fold :: "u32 \<Rightarrow> u32" where
  "csum_fold acc =
     (if drop_bit 16 acc \<noteq> 0 then csum_fold ((acc AND 0xFFFF) + drop_bit 16 acc) else acc)"
  by pat_completeness auto
termination
  by (relation "measure unat") (use fold_step_less in auto)

declare csum_fold.simps [simp del]

definition InternetChecksum :: "bytes \<Rightarrow> u32 \<Rightarrow> u16" where
  "InternetChecksum data seed = ucast (NOT (csum_fold (csum_acc seed data)) AND 0xFFFF)"

definition Ipv4PseudoHeaderSeed :: "bytes \<Rightarrow> bytes \<Rightarrow> u8 \<Rightarrow> u16 \<Rightarrow> u32" where
  "Ipv4PseudoHeaderSeed src_ip dst_ip protocol transport_len =
     0 + ucast (rd16 src_ip 0) + ucast (rd16 src_ip 2)
       + ucast (rd16 dst_ip 0) + ucast (rd16 dst_ip 2)
       + ucast protocol + ucast transport_len"

text \<open>The loop \<open>for (i = 0; i < 16; i += 2)\<close> over an IPv6 address.\<close>

fun addr_words :: "u32 \<Rightarrow> bytes \<Rightarrow> u32" where
  "addr_words seed (a # b # rest) = addr_words (seed + ucast (be16 a b)) rest"
| "addr_words seed _ = seed"

definition Ipv6PseudoHeaderSeed :: "bytes \<Rightarrow> bytes \<Rightarrow> u8 \<Rightarrow> u32 \<Rightarrow> u32" where
  "Ipv6PseudoHeaderSeed src_ip dst_ip protocol upper_len =
     addr_words (addr_words 0 src_ip) dst_ip
       + ucast (ucast (drop_bit 16 upper_len AND 0xFFFF) :: u16)
       + ucast (ucast (upper_len AND 0xFFFF) :: u16)
       + ucast protocol"

section \<open>The reference\<close>

fun bsum :: "bytes \<Rightarrow> nat" where
  "bsum (a # b # rest) = 256 * unat a + unat b + bsum rest"
| "bsum [a] = 256 * unat a"
| "bsum [] = 0"

definition fold16 :: "nat \<Rightarrow> nat" where
  "fold16 n = (if n = 0 then 0 else (n - 1) mod 65535 + 1)"

section \<open>Accumulation\<close>

lemma unat_ucast_u16_u32 [simp]: "unat (ucast (w::u16) :: u32) = unat w"
  by (simp add: unsigned_ucast_eq take_bit_nat_eq_self unat_u16_less [THEN less_trans])

lemma unat_ucast_u8_u32 [simp]: "unat (ucast (w::u8) :: u32) = unat w"
  by (simp add: unsigned_ucast_eq take_bit_nat_eq_self unat_u8_less [THEN less_trans])

lemma csum_quads_sum:
  "csum_quads acc data = (acc', rest) \<Longrightarrow>
     (unat acc' + bsum rest) mod 2 ^ 32 = (unat acc + bsum data) mod 2 ^ 32"
proof (induction acc data arbitrary: acc' rest rule: csum_quads.induct)
  case (1 acc a b c d rs)
  let ?be = "be32 a b c d"
  have eq: "unat ?be = (256 * unat c + unat d) + (256 * unat a + unat b) * 65536"
    by (simp add: unat_be32)
  have small: "256 * unat c + unat d < 65536"
    using unat_u8_less [of c] unat_u8_less [of d] by linarith
  have hi: "unat ?be div 65536 = 256 * unat a + unat b"
    unfolding eq by (subst div_mult_self1) (use small in simp_all)
  have lo: "unat ?be mod 65536 = 256 * unat c + unat d"
    unfolding eq by (subst mod_mult_self1) (use small in simp)
  have "(unat acc' + bsum rest) mod 2 ^ 32 =
      (unat (acc + ((?be AND 0xFFFF) + drop_bit 16 ?be)) + bsum rs) mod 2 ^ 32"
    by (rule "1.IH" [OF refl]) (use "1.prems" in \<open>simp add: Let_def\<close>)
  also have "\<dots> = (unat acc + (unat ?be mod 65536 + unat ?be div 65536) + bsum rs) mod 2 ^ 32"
    by (simp add: unat_word_ariths unat_and_half unat_shift_half mod_simps)
  finally show ?case by (simp add: hi lo algebra_simps)
qed auto

lemma csum_pairs_sum:
  "csum_pairs acc data = (acc', rest) \<Longrightarrow>
     (unat acc' + bsum rest) mod 2 ^ 32 = (unat acc + bsum data) mod 2 ^ 32 \<and> length rest < 2"
proof (induction acc data arbitrary: acc' rest rule: csum_pairs.induct)
  case (1 acc a b rs)
  have "(unat acc' + bsum rest) mod 2 ^ 32 =
      (unat (acc + ucast (be16 a b)) + bsum rs) mod 2 ^ 32 \<and> length rest < 2"
    by (rule "1.IH") (use "1.prems" in simp)
  moreover have "unat (acc + ucast (be16 a b)) = (unat acc + unat (be16 a b)) mod 2 ^ 32"
    by (simp add: unat_word_ariths)
  ultimately show ?case
    by (simp only: mod_add_left_eq unat_be16 bsum.simps add.assoc)
qed auto

lemma csum_tail_sum:
  assumes "length rest < 2"
  shows "unat (csum_tail acc rest) = (unat acc + bsum rest) mod 2 ^ 32"
proof (cases rest)
  case (Cons a as)
  moreover have "unat (push_bit 8 (ucast a) :: u16) = 256 * unat a"
    using unat_shifted_byte [of 8 a, where 'a = 16] by simp
  ultimately show ?thesis using assms by (simp add: unat_word_ariths)
qed (use unat_u32_less [of acc] in simp)

text \<open>The 32-bit accumulator is the reference sum modulo \<open>2 ^ 32\<close>.\<close>

lemma unat_csum_acc: "unat (csum_acc seed data) = (unat seed + bsum data) mod 2 ^ 32"
proof -
  obtain a1 r1 where 1: "csum_quads seed data = (a1, r1)" by fastforce
  obtain a2 r2 where 2: "csum_pairs a1 r1 = (a2, r2)" by fastforce
  show ?thesis
    using csum_quads_sum [OF 1] csum_pairs_sum [OF 2] csum_tail_sum [of r2 a2]
    by (simp add: csum_acc_def 1 2)
qed

section \<open>Folding\<close>

lemma fold16_split:
  assumes "65536 \<le> n"
  shows "fold16 (n mod 65536 + n div 65536) = fold16 n"
proof -
  let ?m = "n mod 65536 + n div 65536"
  have n: "n = ?m + 65535 * (n div 65536)" using div_mult_mod_eq [of n 65536] by linarith
  have pos: "0 < ?m" using assms by (simp add: div_greater_zero_iff)
  have "n - 1 = (?m - 1) + 65535 * (n div 65536)" using n pos by linarith
  then have "(n - 1) mod 65535 = (?m - 1) mod 65535" by (metis mod_mult_self2)
  then show ?thesis using pos assms by (simp add: fold16_def)
qed

lemma fold16_small: "n < 65536 \<Longrightarrow> fold16 n = n"
  by (auto simp: fold16_def)

lemma fold16_le: "fold16 n \<le> 65535"
  unfolding fold16_def using mod_less_divisor [of 65535 "n - 1"] by (simp only: split: if_splits) linarith

lemma unat_csum_fold: "unat (csum_fold acc) = fold16 (unat acc)"
proof (induction acc rule: csum_fold.induct)
  case (1 acc)
  show ?case
  proof (cases "drop_bit 16 acc = 0")
    case True
    then have "unat acc div 65536 = 0" by (metis unat_shift_half unsigned_eq_0_iff)
    then show ?thesis
      using True by (simp add: csum_fold.simps [of acc] fold16_small div_eq_0_iff)
  next
    case False
    let ?acc = "(acc AND 0xFFFF) + drop_bit 16 acc"
    have "unat acc div 65536 \<noteq> 0" using False by (metis unat_shift_half unsigned_eq_0_iff)
    then have big: "65536 \<le> unat acc" by (simp add: div_eq_0_iff)
    have "unat ?acc = unat acc mod 65536 + unat acc div 65536"
      using unat_u32_less [of acc]
      by (simp add: unat_word_ariths unat_and_half unat_shift_half)
    then show ?thesis
      using False "1.IH" fold16_split [OF big] by (simp add: csum_fold.simps [of acc])
  qed
qed

lemma not_half_compl:
  assumes "unat (acc::u32) \<le> 65535"
  shows "(ucast (NOT acc AND 0xFFFF) :: u16) = 0xFFFF - ucast acc"
proof -
  have "(ucast (NOT acc AND 0xFFFF) :: u16) = NOT (ucast acc)"
    unfolding half_mask by (rule bit_word_eqI) (auto simp: bit_simps)
  also have "\<dots> = 0xFFFF - ucast acc"
    by (simp add: not_eq_complement)
  finally show ?thesis .
qed

lemma unat_InternetChecksum_mod:
  "unat (InternetChecksum data seed) = 65535 - fold16 ((unat seed + bsum data) mod 2 ^ 32)"
proof -
  let ?acc = "csum_fold (csum_acc seed data)"
  have acc: "unat ?acc = fold16 ((unat seed + bsum data) mod 2 ^ 32)"
    by (simp add: unat_csum_fold unat_csum_acc)
  have le: "unat ?acc \<le> 65535" unfolding acc by (rule fold16_le)
  have cast: "unat (ucast ?acc :: u16) = unat ?acc"
    using le by (simp add: unsigned_ucast_eq take_bit_nat_eq_self)
  have ffff: "unat (0xFFFF :: u16) = 65535" by simp
  have "ucast ?acc \<le> (0xFFFF :: u16)"
    unfolding word_le_nat_alt cast ffff by (rule le)
  then show ?thesis
    unfolding InternetChecksum_def not_half_compl [OF le]
    by (simp add: unat_sub cast acc)
qed

section \<open>The sum of a buffer\<close>

lemma bsum_append: "even (length xs) \<Longrightarrow> bsum (xs @ ys) = bsum xs + bsum ys"
  by (induction xs rule: bsum.induct) auto

lemma bsum_bound: "bsum data \<le> 65535 * ((length data + 1) div 2)"
proof (induction data rule: bsum.induct)
  case (1 a b rest)
  have "256 * unat a + unat b \<le> 65535"
    using unat_u8_less [of a] unat_u8_less [of b] by linarith
  with "1.IH" show ?case by simp
next
  case (2 a)
  show ?case using unat_u8_less [of a] by simp
qed simp

lemma bsum_bound_mono: "length data \<le> n \<Longrightarrow> bsum data \<le> 65535 * ((n + 1) div 2)"
  using bsum_bound [of data] by (meson add_mono_thms_linordered_semiring(3) div_le_mono le_trans mult_le_mono2)

lemma small_fits: "length data \<le> 200 \<Longrightarrow> unat (0::u32) + bsum data + 65535 < 2 ^ 32"
  using bsum_bound_mono [of data 200] by simp

lemma bsum_be16_bytes: "bsum (be16_bytes v) = unat v"
  using unat_be16 [of "ucast (drop_bit 8 v)" "ucast (v AND 0xff)"]
  by (simp add: be16_bytes_def)

lemma bsum_be32_bytes:
  "bsum (be32_bytes v) = unat v div 65536 + unat v mod 65536"
proof -
  define a b c d where abcd: "a = (ucast (drop_bit 24 v) :: u8)"
    "b = (ucast (drop_bit 16 v AND 0xff) :: u8)" "c = (ucast (drop_bit 8 v AND 0xff) :: u8)"
    "d = (ucast (v AND 0xff) :: u8)"
  have eq: "unat v = (256 * unat c + unat d) + (256 * unat a + unat b) * 65536"
    using unat_be32 [of a b c d] by (simp add: abcd)
  have small: "256 * unat c + unat d < 65536"
    using unat_u8_less [of c] unat_u8_less [of d] by linarith
  have "unat v div 65536 = 256 * unat a + unat b"
    unfolding eq by (subst div_mult_self1) (use small in simp_all)
  moreover have "unat v mod 65536 = 256 * unat c + unat d"
    unfolding eq by (subst mod_mult_self1) (use small in simp)
  ultimately show ?thesis by (simp add: be32_bytes_def abcd)
qed

lemma bsum_memcpy16:
  assumes "even k" "k + 2 \<le> length data"
  shows "bsum (memcpy_at k (be16_bytes c) data) + unat (rd16 data k) = bsum data + unat c"
proof -
  have split: "data = take k data @ [data ! k, data ! (k + 1)] @ drop (k + 2) data"
    using assms(2) by (simp add: Cons_nth_drop_Suc id_take_nth_drop [symmetric]
        flip: drop_drop)
  have ev: "even (length (take k data))" using assms by simp
  have "bsum data = bsum (take k data) + (256 * unat (data ! k) + unat (data ! (k + 1)))
      + bsum (drop (k + 2) data)"
    by (subst split) (simp add: bsum_append [OF ev])
  moreover have "bsum (memcpy_at k (be16_bytes c) data)
      = bsum (take k data) + unat c + bsum (drop (k + 2) data)"
    using ev assms(2) by (simp add: memcpy_at_def bsum_append bsum_be16_bytes)
  ultimately show ?thesis by (simp add: rd16_def unat_be16)
qed

section \<open>Correctness of the checksum\<close>

lemma unat_InternetChecksum:
  assumes "unat seed + bsum data < 2 ^ 32"
  shows "unat (InternetChecksum data seed) = 65535 - fold16 (unat seed + bsum data)"
  using assms by (simp add: unat_InternetChecksum_mod)

lemma fold16_eq_max_iff: "fold16 n = 65535 \<longleftrightarrow> 0 < n \<and> 65535 dvd n"
proof (cases "n = 0")
  case False
  then obtain m where n: "n = Suc m" by (cases n) auto
  have "fold16 n = 65535 \<longleftrightarrow> m mod 65535 = 65534" by (simp add: fold16_def n)
  also have "\<dots> \<longleftrightarrow> Suc m mod 65535 = 0" by (simp add: mod_Suc)
  finally show ?thesis by (simp add: n dvd_eq_mod_eq_0)
qed (simp add: fold16_def)

text \<open>A buffer verifies when its sum, with the seed, is a positive multiple of 65535.\<close>

lemma InternetChecksum_zero_iff:
  assumes "unat seed + bsum data < 2 ^ 32"
  shows "InternetChecksum data seed = 0 \<longleftrightarrow>
    0 < unat seed + bsum data \<and> 65535 dvd unat seed + bsum data"
proof -
  have "InternetChecksum data seed = 0 \<longleftrightarrow> unat (InternetChecksum data seed) = 0"
    by (simp add: unat_0_iff)
  also have "\<dots> \<longleftrightarrow> fold16 (unat seed + bsum data) = 65535"
    using unat_InternetChecksum [OF assms] fold16_le [of "unat seed + bsum data"] by simp
  finally show ?thesis by (simp add: fold16_eq_max_iff)
qed

lemma fold16_complement:
  "0 < n + (65535 - fold16 n) \<and> 65535 dvd n + (65535 - fold16 n)"
proof (cases "n = 0")
  case False
  then obtain m where n: "n = Suc m" by (cases n) auto
  have lt: "m mod 65535 < 65535" by simp
  have "n + (65535 - fold16 n) = m - m mod 65535 + 65535"
    unfolding n fold16_def using lt by (simp add: Suc_diff_le)
  moreover have "65535 dvd m - m mod 65535" by (rule dvd_minus_mod)
  moreover have "m mod 65535 \<le> m" by simp
  ultimately show ?thesis by (metis add_gr_0 dvd_add dvd_refl zero_less_numeral)
qed (simp add: fold16_def)

lemma checksum_insert:
  assumes "even k" and "k + 2 \<le> length data" and "rd16 data k = 0"
    and "unat seed + bsum data + 65535 < 2 ^ 32"
  shows "InternetChecksum (memcpy_at k (be16_bytes (InternetChecksum data seed)) data) seed = 0"
proof -
  let ?c = "InternetChecksum data seed"
  let ?n = "unat seed + bsum data"
  have c: "unat ?c = 65535 - fold16 ?n"
    by (rule unat_InternetChecksum) (use assms(4) in simp)
  have "bsum (memcpy_at k (be16_bytes ?c) data) = bsum data + unat ?c"
    using bsum_memcpy16 [OF assms(1,2), of ?c] assms(3) by simp
  then have sum: "unat seed + bsum (memcpy_at k (be16_bytes ?c) data) = ?n + (65535 - fold16 ?n)"
    by (simp add: c)
  show ?thesis
    by (subst InternetChecksum_zero_iff)
      (use assms(4) fold16_complement [of ?n] in \<open>simp_all add: sum\<close>)
qed

subsection \<open>The contract of a packet builder\<close>

text \<open>
  What the packet builders need of a checksum: a law for a field inside a buffer. The client
  lemma moves it to a window \<open>[off, off + n)\<close> of a larger output buffer, which is how the
  builders call it (\<open>InternetChecksum(icmp, icmp_length, seed)\<close> with \<open>icmp = output + 20\<close>).
\<close>

locale field_checksum =
  fixes csum :: "bytes \<Rightarrow> u32 \<Rightarrow> u16"
    and fits :: "bytes \<Rightarrow> u32 \<Rightarrow> bool"
  assumes insert_verifies:
    "even k \<Longrightarrow> k + 2 \<le> length data \<Longrightarrow> rd16 data k = 0 \<Longrightarrow> fits data seed \<Longrightarrow>
       csum (memcpy_at k (be16_bytes (csum data seed)) data) seed = 0"
begin

lemma window_verifies:
  assumes "even k" "k + 2 \<le> n" "off + n \<le> length out" "rd16 (slice off n out) k = 0"
    "fits (slice off n out) seed"
  shows "csum (slice off n (memcpy_at (off + k) (be16_bytes (csum (slice off n out) seed)) out)) seed = 0"
proof -
  let ?w = "slice off n out"
  have "slice off n (memcpy_at (off + k) s out) = memcpy_at k s ?w" if "length s = 2" for s
    using assms(2,3) that by (simp add: slice_memcpy_at_inside)
  moreover have "csum (memcpy_at k (be16_bytes (csum ?w seed)) ?w) seed = 0"
    using assms by (intro insert_verifies) simp_all
  ultimately show ?thesis by simp
qed

end

interpretation inet: field_checksum InternetChecksum
  "\<lambda>data seed. unat seed + bsum data + 65535 < 2 ^ 32"
  by unfold_locales (rule checksum_insert)

text \<open>
  C8: a checksum that \<open>InternetChecksum\<close> computes over a buffer whose checksum field is zero,
  written into that field (16-bit aligned), makes the buffer verify: recomputing the
  checksum over the result gives 0. This is what \<open>BuildTcpControlPacket\<close> and the ICMP
  builders rely on; the bound excludes overflow of the 32-bit accumulator.
\<close>

theorem checksum_insert_verifies:
  assumes "even k" and "k + 2 \<le> length data" and "rd16 data k = 0"
    and "unat seed + bsum data + 65535 < 2 ^ 32"
  shows "InternetChecksum (memcpy_at k (be16_bytes (InternetChecksum data seed)) data) seed = 0"
  using assms by (rule checksum_insert)

theorem checksum_insert_verifies_witness:
  "InternetChecksum (memcpy_at 2 (be16_bytes (InternetChecksum [8, 0, 0, 0, 0x12] 7)) [8, 0, 0, 0, 0x12]) 7 = 0"
  by (rule checksum_insert_verifies) (simp_all add: rd16_def be16_def)

text \<open>
  C23: changing one 16-bit aligned word of a buffer that verifies is detected, unless the
  change replaces \<open>0x0000\<close> by \<open>0xFFFF\<close> or back (the two zeros of one's-complement
  arithmetic).
\<close>

theorem checksum_detects_word_change:
  assumes "even k" and "k + 2 \<le> length data" and "InternetChecksum data seed = 0"
    and "w \<noteq> rd16 data k" and "\<not> ({w, rd16 data k} = {0, 0xFFFF})"
    and "unat seed + bsum data + 65535 < 2 ^ 32"
  shows "InternetChecksum (memcpy_at k (be16_bytes w) data) seed \<noteq> 0"
proof
  let ?new = "memcpy_at k (be16_bytes w) data"
  let ?v = "rd16 data k"
  have sum: "bsum ?new + unat ?v = bsum data + unat w" by (rule bsum_memcpy16 [OF assms(1,2)])
  assume "InternetChecksum ?new seed = 0"
  then have new: "65535 dvd unat seed + bsum ?new"
    using assms(6) sum unat_u16_less [of w] by (subst (asm) InternetChecksum_zero_iff) auto
  have old: "65535 dvd unat seed + bsum data"
    using assms(3,6) by (subst (asm) InternetChecksum_zero_iff) auto
  have "int 65535 dvd int (unat seed + bsum data) - int (unat seed + bsum ?new)"
    using new old by (intro dvd_diff) (simp_all only: int_dvd_int_iff)
  also have "int (unat seed + bsum data) - int (unat seed + bsum ?new) = int (unat ?v) - int (unat w)"
    using sum by linarith
  finally obtain q where q: "int (unat ?v) - int (unat w) = 65535 * q" by (auto elim: dvdE)
  have b: "unat ?v < 65536" "unat w < 65536" by (rule unat_u16_less)+
  have ne: "unat w \<noteq> unat ?v" using assms(4) by (metis unsigned_word_eqI)
  have "q = 1 \<or> q = -1" using q b ne by linarith
  then have "unat ?v = 65535 \<and> unat w = 0 \<or> unat ?v = 0 \<and> unat w = 65535"
    using q b by linarith
  then have "?v = 0xFFFF \<and> w = 0 \<or> ?v = 0 \<and> w = 0xFFFF"
    by (auto simp: unat_0_iff intro!: unsigned_word_eqI [where 'a = nat])
  then show False using assms(5) by auto
qed

theorem checksum_detects_word_change_witness:
  "InternetChecksum (memcpy_at 2 (be16_bytes 0x1234) [0xFF, 0xFE, 0, 1]) 0 \<noteq> 0"
  by (rule checksum_detects_word_change)
    (simp_all add: rd16_def be16_def InternetChecksum_def csum_acc_def be32_def csum_fold.simps doubleton_eq_iff)

section \<open>Pseudo-headers\<close>

text \<open>The pseudo-headers of RFC 793 and RFC 8200 as bytes.\<close>

definition pseudo4 :: "bytes \<Rightarrow> bytes \<Rightarrow> u8 \<Rightarrow> u16 \<Rightarrow> bytes" where
  "pseudo4 src dst protocol len = src @ dst @ [0, protocol] @ be16_bytes len"

definition pseudo6 :: "bytes \<Rightarrow> bytes \<Rightarrow> u8 \<Rightarrow> u32 \<Rightarrow> bytes" where
  "pseudo6 src dst protocol len = src @ dst @ be32_bytes len @ [0, 0, 0, protocol]"

lemma InternetChecksum_cong:
  assumes "unat seed + bsum data = unat seed' + bsum data'"
  shows "InternetChecksum data seed = InternetChecksum data' seed'"
  by (rule unsigned_word_eqI [where 'a = nat]) (simp add: unat_InternetChecksum_mod assms)

lemma length4_cases: "length xs = 4 \<Longrightarrow> \<exists>a b c d. xs = [a, b, c, d]"
  by (auto simp: numeral_eq_Suc length_Suc_conv)

lemma unat_Ipv4PseudoHeaderSeed:
  assumes "length src = 4" "length dst = 4"
  shows "unat (Ipv4PseudoHeaderSeed src dst protocol len) = bsum (pseudo4 src dst protocol len)"
proof -
  obtain a b c d where s: "src = [a, b, c, d]" using length4_cases [OF assms(1)] by auto
  obtain e f g h where d: "dst = [e, f, g, h]" using length4_cases [OF assms(2)] by auto
  have b: "unat (be16 a b) < 65536" "unat (be16 c d) < 65536" "unat (be16 e f) < 65536"
    "unat (be16 g h) < 65536" "unat len < 65536" "unat protocol < 256"
    by (rule unat_u16_less unat_u8_less)+
  have "unat (Ipv4PseudoHeaderSeed src dst protocol len) =
      unat (be16 a b) + unat (be16 c d) + unat (be16 e f) + unat (be16 g h) + unat protocol + unat len"
    using b by (simp add: Ipv4PseudoHeaderSeed_def s d rd16_def unat_word_ariths)
  also have "\<dots> = bsum (pseudo4 src dst protocol len)"
    by (simp add: pseudo4_def s d unat_be16 bsum_be16_bytes)
  finally show ?thesis .
qed

lemma unat_addr_words:
  "even (length a) \<Longrightarrow> unat seed + bsum a < 2 ^ 32 \<Longrightarrow>
     unat (addr_words seed a) = unat seed + bsum a"
proof (induction seed a rule: addr_words.induct)
  case (1 seed a b rest)
  have "unat (seed + ucast (be16 a b)) = unat seed + (256 * unat a + unat b)"
    using "1.prems" by (simp add: unat_word_ariths unat_be16)
  then show ?case using "1.IH" "1.prems" by simp
qed auto

lemma unat_half_ucast: "unat (ucast ((w::u32) AND 0xFFFF) :: u16) = unat w mod 65536"
proof -
  have "unat (w AND 0xFFFF) < 65536" unfolding unat_and_half by simp
  then show ?thesis
    by (simp add: unsigned_ucast_eq take_bit_nat_eq_self unat_and_half)
qed

lemma unat_Ipv6PseudoHeaderSeed:
  assumes "length src = 16" "length dst = 16"
  shows "unat (Ipv6PseudoHeaderSeed src dst protocol len) = bsum (pseudo6 src dst protocol len)"
proof -
  have s: "bsum src \<le> 65535 * 8" using bsum_bound [of src] assms by simp
  have d: "bsum dst \<le> 65535 * 8" using bsum_bound [of dst] assms by simp
  have w1: "unat (addr_words 0 src) = bsum src"
    using unat_addr_words [of src 0] assms s by simp
  have w2: "unat (addr_words (addr_words 0 src) dst) = bsum src + bsum dst"
    using unat_addr_words [of dst "addr_words 0 src"] assms s d w1 by simp
  have b: "unat len div 65536 < 65536" "unat len mod 65536 < 65536" "unat protocol < 256"
    using unat_u32_less [of len] unat_u8_less [of protocol] by simp_all
  have "unat (Ipv6PseudoHeaderSeed src dst protocol len) =
      bsum src + bsum dst + unat len div 65536 + unat len mod 65536 + unat protocol"
    using s d b by (simp add: Ipv6PseudoHeaderSeed_def unat_word_ariths w2 unat_half_ucast unat_shift_half)
  also have "\<dots> = bsum (pseudo6 src dst protocol len)"
    using assms by (simp add: pseudo6_def bsum_append bsum_be32_bytes)
  finally show ?thesis .
qed

text \<open>
  C24: seeding the checksum with the IPv4 or IPv6 pseudo-header seed computes the checksum of
  the pseudo-header bytes followed by the segment.
\<close>

theorem pseudo_header_seed_equiv:
  assumes "length src4 = 4" and "length dst4 = 4" and "length src6 = 16" and "length dst6 = 16"
  shows "InternetChecksum seg (Ipv4PseudoHeaderSeed src4 dst4 protocol len4) =
      InternetChecksum (pseudo4 src4 dst4 protocol len4 @ seg) 0 \<and>
    InternetChecksum seg (Ipv6PseudoHeaderSeed src6 dst6 protocol len6) =
      InternetChecksum (pseudo6 src6 dst6 protocol len6 @ seg) 0"
proof -
  have "even (length (pseudo4 src4 dst4 protocol len4))"
    and "even (length (pseudo6 src6 dst6 protocol len6))"
    using assms by (simp_all add: pseudo4_def pseudo6_def)
  then show ?thesis
    using assms
    by (auto intro!: InternetChecksum_cong
        simp: unat_Ipv4PseudoHeaderSeed unat_Ipv6PseudoHeaderSeed bsum_append)
qed

theorem pseudo_header_seed_equiv_witness:
  "InternetChecksum [1, 2, 3] (Ipv4PseudoHeaderSeed [10, 0, 0, 1] [10, 0, 0, 2] 6 3) =
      InternetChecksum (pseudo4 [10, 0, 0, 1] [10, 0, 0, 2] 6 3 @ [1, 2, 3]) 0 \<and>
   InternetChecksum [1, 2, 3] (Ipv6PseudoHeaderSeed (replicate 16 1) (replicate 16 2) 6 3) =
      InternetChecksum (pseudo6 (replicate 16 1) (replicate 16 2) 6 3 @ [1, 2, 3]) 0"
  using pseudo_header_seed_equiv [of "[10, 0, 0, 1]" "[10, 0, 0, 2]" "replicate 16 1" "replicate 16 2"
      "[1, 2, 3]" 6 3 3]
  by simp

end
