(* ===== verification/Ipv4.thy ===== *)
theory Ipv4
  imports Checksum
begin

text \<open>
  The IPv4 header parser (\<open>src/ip/ipv4.h\<close>, \<open>src/ip/ipv4.cpp\<close>). \<open>ParseIpv4\<close> fills the
  header step by step and returns early with the fields read so far, as the source does.
\<close>

section \<open>Header and result\<close>

record Ipv4Header =
  ip4_version :: u8
  ip4_ihl :: u8
  ip4_dscp :: u8
  ip4_ecn :: u8
  ip4_total_length :: u16
  ip4_identification :: u16
  ip4_flags :: u8
  ip4_fragment_offset :: u16
  ip4_ttl :: u8
  ip4_protocol :: u8
  ip4_header_checksum :: u16
  ip4_src_ip :: bytes
  ip4_dst_ip :: bytes
  ip4_header_length :: nat
  ip4_payload_offset :: nat
  ip4_payload_length :: nat

datatype Ipv4ParseError =
    Ipv4_None
  | Ipv4_TooShort
  | Ipv4_BadVersion
  | Ipv4_BadIhl
  | Ipv4_TruncatedHeader
  | Ipv4_TruncatedTotal
  | Ipv4_BadFragmentOffset

record Ipv4ParseResult =
  ip4_error :: Ipv4ParseError
  ip4_header :: Ipv4Header
  ip4_checksum_ok :: bool
  ip4_payload :: "bytes option"

definition Ipv4Header_init :: Ipv4Header where
  "Ipv4Header_init =
     \<lparr>ip4_version = 0, ip4_ihl = 0, ip4_dscp = 0, ip4_ecn = 0, ip4_total_length = 0,
      ip4_identification = 0, ip4_flags = 0, ip4_fragment_offset = 0, ip4_ttl = 0,
      ip4_protocol = 0, ip4_header_checksum = 0, ip4_src_ip = replicate 4 0,
      ip4_dst_ip = replicate 4 0, ip4_header_length = 0, ip4_payload_offset = 0,
      ip4_payload_length = 0\<rparr>"

definition Ipv4ParseResult_init :: Ipv4ParseResult where
  "Ipv4ParseResult_init =
     \<lparr>ip4_error = Ipv4_None, ip4_header = Ipv4Header_init, ip4_checksum_ok = False,
      ip4_payload = None\<rparr>"

section \<open>The parser\<close>

definition ParseIpv4 :: "bytes \<Rightarrow> Ipv4ParseResult" where
  "ParseIpv4 data =
     (let len = length data; result = Ipv4ParseResult_init in
      if len < 20 then result\<lparr>ip4_error := Ipv4_TooShort\<rparr>
      else
        let version_ihl = data ! 0;
            h = (ip4_header result)\<lparr>ip4_version := drop_bit 4 version_ihl,
                                    ip4_ihl := version_ihl AND 0x0F\<rparr>;
            result = result\<lparr>ip4_header := h\<rparr> in
        if ip4_version h \<noteq> 4 then result\<lparr>ip4_error := Ipv4_BadVersion\<rparr>
        else if ip4_ihl h < 5 then result\<lparr>ip4_error := Ipv4_BadIhl\<rparr>
        else
          let header_len = unat (ip4_ihl h) * 4;
              dscp_ecn = data ! 1;
              flags_frag = rd16 data 6;
              h = h\<lparr>ip4_header_length := header_len,
                    ip4_dscp := drop_bit 2 dscp_ecn,
                    ip4_ecn := dscp_ecn AND 0x03,
                    ip4_total_length := rd16 data 2,
                    ip4_identification := rd16 data 4,
                    ip4_flags := ucast (drop_bit 13 flags_frag AND 0x07),
                    ip4_fragment_offset := flags_frag AND 0x1FFF,
                    ip4_ttl := data ! 8,
                    ip4_protocol := data ! 9,
                    ip4_header_checksum := rd16 data 10,
                    ip4_src_ip := slice 12 4 data,
                    ip4_dst_ip := slice 16 4 data\<rparr>;
              result = result\<lparr>ip4_header := h\<rparr> in
          if len < header_len then result\<lparr>ip4_error := Ipv4_TruncatedHeader\<rparr>
          else if unat (ip4_total_length h) < header_len
            then result\<lparr>ip4_error := Ipv4_TruncatedTotal\<rparr>
          else if len < unat (ip4_total_length h)
            then result\<lparr>ip4_error := Ipv4_TruncatedTotal\<rparr>
          else
            let payload_length = unat (ip4_total_length h) - header_len in
            result\<lparr>ip4_header := h\<lparr>ip4_payload_offset := header_len,
                                    ip4_payload_length := payload_length\<rparr>,
                   ip4_payload := Some (slice header_len payload_length data),
                   ip4_checksum_ok := (InternetChecksum (take header_len data) 0 = 0)\<rparr>)"

section \<open>What the parser accepts\<close>

text \<open>The packets the parser takes, on the raw bytes.\<close>

definition ipv4_wellformed :: "bytes \<Rightarrow> bool" where
  "ipv4_wellformed data \<longleftrightarrow>
     20 \<le> length data \<and> drop_bit 4 (data ! 0) = 4 \<and> 5 \<le> data ! 0 AND 0x0F \<and>
     unat (data ! 0 AND 0x0F) * 4 \<le> unat (rd16 data 2) \<and> unat (rd16 data 2) \<le> length data"

lemma ParseIpv4_error_iff: "ip4_error (ParseIpv4 data) = Ipv4_None \<longleftrightarrow> ipv4_wellformed data"
  by (auto simp: ParseIpv4_def Let_def ipv4_wellformed_def Ipv4ParseResult_init_def not_less)

lemma ihl_bounds:
  assumes "5 \<le> w AND (0x0F::u8)"
  shows "5 \<le> unat (w AND 0x0F)" "unat (w AND 0x0F) \<le> 15"
proof -
  show "5 \<le> unat (w AND 0x0F)" using assms by (simp add: word_le_nat_alt)
  have "w AND 0x0F \<le> 0x0F" by (rule word_and_le1)
  then show "unat (w AND 0x0F) \<le> 15" by (simp add: word_le_nat_alt)
qed

lemma ParseIpv4_wellformed:
  assumes "ipv4_wellformed data"
  defines "h \<equiv> ip4_header (ParseIpv4 data)"
  shows "ip4_version h = 4" "ip4_header_length h = unat (data ! 0 AND 0x0F) * 4"
    "ip4_total_length h = rd16 data 2" "ip4_payload_offset h = ip4_header_length h"
    "ip4_payload_length h = unat (rd16 data 2) - ip4_header_length h"
    "ip4_protocol h = data ! 9" "ip4_src_ip h = slice 12 4 data" "ip4_dst_ip h = slice 16 4 data"
    "ip4_flags h = ucast (drop_bit 13 (rd16 data 6) AND 0x07)"
    "ip4_fragment_offset h = rd16 data 6 AND 0x1FFF"
    "ip4_ecn h = data ! 1 AND 0x03"
    "ip4_identification h = rd16 data 4"
    "ip4_payload (ParseIpv4 data) =
       Some (slice (ip4_header_length h) (ip4_payload_length h) data)"
    "ip4_checksum_ok (ParseIpv4 data) =
       (InternetChecksum (take (unat (data ! 0 AND 0x0F) * 4) data) 0 = 0)"
    "ip4_ttl h = data ! 8"
  using assms(1)
  by (auto simp: h_def ParseIpv4_def Let_def ipv4_wellformed_def not_less
      Ipv4ParseResult_init_def Ipv4Header_init_def)

text \<open>
  C25: \<open>ParseIpv4\<close> is memory-safe and complete: it succeeds on exactly the packets whose fixed
  fields are consistent with the buffer, and then the header is 20 to 60 bytes long and
  header and payload together are the first \<open>total_length\<close> bytes of the buffer.
\<close>

theorem parse_ipv4_sound_complete:
  "(ip4_error (ParseIpv4 data) = Ipv4_None \<longleftrightarrow> ipv4_wellformed data) \<and>
   (ip4_error (ParseIpv4 data) = Ipv4_None \<longrightarrow>
      (let h = ip4_header (ParseIpv4 data) in
       20 \<le> ip4_header_length h \<and> ip4_header_length h \<le> 60 \<and>
       ip4_payload_offset h + ip4_payload_length h = unat (ip4_total_length h) \<and>
       unat (ip4_total_length h) \<le> length data \<and>
       (\<exists>p. ip4_payload (ParseIpv4 data) = Some p \<and> length p = ip4_payload_length h \<and>
            take (ip4_header_length h) data @ p = take (unat (ip4_total_length h)) data)))"
proof -
  have "let h = ip4_header (ParseIpv4 data) in
       20 \<le> ip4_header_length h \<and> ip4_header_length h \<le> 60 \<and>
       ip4_payload_offset h + ip4_payload_length h = unat (ip4_total_length h) \<and>
       unat (ip4_total_length h) \<le> length data \<and>
       (\<exists>p. ip4_payload (ParseIpv4 data) = Some p \<and> length p = ip4_payload_length h \<and>
            take (ip4_header_length h) data @ p = take (unat (ip4_total_length h)) data)"
    if w: "ipv4_wellformed data"
  proof -
    have ihl: "5 \<le> unat (data ! 0 AND 0x0F)" "unat (data ! 0 AND 0x0F) \<le> 15"
      using w ihl_bounds [of "data ! 0"] by (auto simp: ipv4_wellformed_def)
    have len: "unat (data ! 0 AND 0x0F) * 4 \<le> unat (rd16 data 2)" "unat (rd16 data 2) \<le> length data"
      using w by (auto simp: ipv4_wellformed_def)
    have app: "take n xs @ slice n (m - n) xs = take m xs" if "n \<le> m" for n m and xs :: bytes
      using that by (simp add: slice_def flip: take_add)
    show ?thesis
      using ihl len by (simp add: ParseIpv4_wellformed [OF w] Let_def app)
  qed
  then show ?thesis by (simp add: ParseIpv4_error_iff)
qed

theorem parse_ipv4_sound_complete_witness:
  "ip4_error (ParseIpv4 ([0x45, 0, 0, 21, 0, 0, 0, 0, 64, 6, 0, 0, 10, 0, 0, 1, 10, 0, 0, 2] @ [7, 9])) = Ipv4_None \<and>
   ip4_payload_length (ip4_header (ParseIpv4 ([0x45, 0, 0, 21, 0, 0, 0, 0, 64, 6, 0, 0, 10, 0, 0, 1, 10, 0, 0, 2] @ [7, 9]))) = 1"
  using parse_ipv4_sound_complete
      [of "[0x45, 0, 0, 21, 0, 0, 0, 0, 64, 6, 0, 0, 10, 0, 0, 1, 10, 0, 0, 2] @ [7, 9]"]
  by (simp add: ipv4_wellformed_def rd16_def be16_def ParseIpv4_def Let_def Ipv4ParseResult_init_def)

end
