(* ===== verification/Checked.thy ===== *)
theory Checked
  imports NetPrelude
begin

text \<open>
  Overflow-checked arithmetic and the bounds-checked read cursor of \<open>src/ip/checked.h\<close>.
  A \<open>bool\<close> result with an output parameter becomes an \<open>option\<close>: \<open>None\<close> is
  \<open>false\<close>, and then neither the output nor the cursor changes.
\<close>

section \<open>Checked arithmetic\<close>

text \<open>The templates at an unsigned type of any width: \<open>- 1\<close> is \<open>numeric_limits<T>::max()\<close>.\<close>

definition CheckedMul :: "'a::len word \<Rightarrow> 'a word \<Rightarrow> 'a word option" where
  "CheckedMul a b =
     (if a = 0 \<or> b = 0 then Some 0
      else if b > (- 1) div a then None
      else Some (a * b))"

definition CheckedAdd :: "'a::len word \<Rightarrow> 'a word \<Rightarrow> 'a word option" where
  "CheckedAdd a b = (if b > (- 1) - a then None else Some (a + b))"

text \<open>The instances at \<open>std::size_t\<close>, whose values are naturals in the model.\<close>

definition CheckedMul_size :: "nat \<Rightarrow> nat \<Rightarrow> nat option" where
  "CheckedMul_size a b =
     (if a = 0 \<or> b = 0 then Some 0
      else if b > size_max div a then None
      else Some (a * b))"

definition CheckedAdd_size :: "nat \<Rightarrow> nat \<Rightarrow> nat option" where
  "CheckedAdd_size a b = (if b > size_max - a then None else Some (a + b))"

section \<open>ReadCursor\<close>

record cursor =
  cur_data :: bytes
  cur_pos :: nat

definition ReadCursor :: "bytes \<Rightarrow> cursor" where
  "ReadCursor data = \<lparr>cur_data = data, cur_pos = 0\<rparr>"

abbreviation cur_size :: "cursor \<Rightarrow> nat" where
  "cur_size c \<equiv> length (cur_data c)"

definition Remaining :: "cursor \<Rightarrow> nat" where
  "Remaining c = cur_size c - cur_pos c"

definition Skip :: "nat \<Rightarrow> cursor \<Rightarrow> cursor option" where
  "Skip n c =
     (if n > cur_size c - cur_pos c then None else Some (c\<lparr>cur_pos := cur_pos c + n\<rparr>))"

definition ReadU8 :: "cursor \<Rightarrow> (u8 \<times> cursor) option" where
  "ReadU8 c =
     (if 1 > cur_size c - cur_pos c then None
      else Some (cur_data c ! cur_pos c, c\<lparr>cur_pos := cur_pos c + 1\<rparr>))"

definition ReadU16 :: "cursor \<Rightarrow> (u16 \<times> cursor) option" where
  "ReadU16 c =
     (if 2 > cur_size c - cur_pos c then None
      else Some (push_bit 8 (ucast (cur_data c ! cur_pos c)) OR ucast (cur_data c ! (cur_pos c + 1)),
                 c\<lparr>cur_pos := cur_pos c + 2\<rparr>))"

definition ReadU32 :: "cursor \<Rightarrow> (u32 \<times> cursor) option" where
  "ReadU32 c =
     (if 4 > cur_size c - cur_pos c then None
      else Some (push_bit 16 (push_bit 8 (ucast (cur_data c ! cur_pos c)))
                   OR push_bit 16 (ucast (cur_data c ! (cur_pos c + 1)))
                   OR push_bit 8 (ucast (cur_data c ! (cur_pos c + 2)))
                   OR ucast (cur_data c ! (cur_pos c + 3)),
                 c\<lparr>cur_pos := cur_pos c + 4\<rparr>))"

text \<open>The copy loop \<open>for (i = 0; i < n; ++i) out[i] = data_[pos_ + i]\<close>.\<close>

definition ReadBytes :: "nat \<Rightarrow> cursor \<Rightarrow> (bytes \<times> cursor) option" where
  "ReadBytes n c =
     (if n > cur_size c - cur_pos c then None
      else Some (map (\<lambda>i. cur_data c ! (cur_pos c + i)) [0..<n], c\<lparr>cur_pos := cur_pos c + n\<rparr>))"

text \<open>\<open>Peek\<close>: the bytes from the current position on, or \<open>nullptr\<close> at the end.\<close>

definition Peek :: "cursor \<Rightarrow> bytes option" where
  "Peek c = (if cur_pos c \<ge> cur_size c then None else Some (drop (cur_pos c) (cur_data c)))"

definition Cursor_Reset :: "nat \<Rightarrow> cursor \<Rightarrow> cursor option" where
  "Cursor_Reset pos c = (if pos > cur_size c then None else Some (c\<lparr>cur_pos := pos\<rparr>))"

section \<open>Checked arithmetic never wraps\<close>

lemma nat_le_iff_less_exp: "n \<le> 2 ^ k - 1 \<longleftrightarrow> n < (2::nat) ^ k"
  using zero_less_power [of "2::nat" k] by linarith

lemma CheckedAdd_iff:
  "CheckedAdd a b = (if unat a + unat b < 2 ^ LENGTH('a) then Some (a + b) else None)"
  for a b :: "'a::len word"
proof -
  have "unat (- 1 - a) = 2 ^ LENGTH('a) - 1 - unat a"
    by (simp add: unat_sub unsigned_minus_1_eq_mask mask_eq_exp_minus_1)
  moreover have "unat a \<le> 2 ^ LENGTH('a) - 1"
    using unsigned_less [of a, where 'a = nat] by (simp only: nat_le_iff_less_exp)
  ultimately have "(b > - 1 - a) = (\<not> unat a + unat b < 2 ^ LENGTH('a))"
    unfolding word_less_nat_alt using zero_less_power [of "2::nat" "LENGTH('a)"] by linarith
  then show ?thesis by (simp add: CheckedAdd_def)
qed

lemma CheckedMul_iff:
  "CheckedMul a b = (if unat a * unat b < 2 ^ LENGTH('a) then Some (a * b) else None)"
  for a b :: "'a::len word"
proof (cases "a = 0 \<or> b = 0")
  case False
  then have a: "0 < unat a" by (simp add: unat_gt_0)
  have "unat (- 1 div a) = (2 ^ LENGTH('a) - 1) div unat a"
    by (simp add: unat_div_distrib unsigned_minus_1_eq_mask mask_eq_exp_minus_1)
  then have "(b > - 1 div a) = (\<not> unat b \<le> (2 ^ LENGTH('a) - 1) div unat a)"
    by (simp add: word_less_nat_alt not_le)
  also have "\<dots> = (\<not> unat b * unat a \<le> 2 ^ LENGTH('a) - 1)"
    using a by (simp add: less_eq_div_iff_mult_less_eq)
  also have "\<dots> = (\<not> unat a * unat b < 2 ^ LENGTH('a))"
    by (simp only: nat_le_iff_less_exp mult.commute)
  finally show ?thesis using False by (simp add: CheckedMul_def)
qed (auto simp: CheckedMul_def)

lemma CheckedAdd_size_iff:
  "a \<le> size_max \<Longrightarrow> CheckedAdd_size a b = (if a + b \<le> size_max then Some (a + b) else None)"
  by (auto simp: CheckedAdd_size_def)

lemma CheckedMul_size_iff:
  "CheckedMul_size a b = (if a * b \<le> size_max then Some (a * b) else None)"
proof (cases "a = 0 \<or> b = 0")
  case False
  then have "b \<le> size_max div a \<longleftrightarrow> b * a \<le> size_max"
    by (intro less_eq_div_iff_mult_less_eq) simp
  then show ?thesis using False by (auto simp: CheckedMul_size_def mult.commute)
qed (auto simp: CheckedMul_size_def)

section \<open>The cursor\<close>

definition cursor_ok :: "cursor \<Rightarrow> bool" where
  "cursor_ok c \<longleftrightarrow> cur_pos c \<le> cur_size c"

lemma ReadU32_be32:
  "ReadU32 c = (if Remaining c < 4 then None
     else Some (rd32 (cur_data c) (cur_pos c), c\<lparr>cur_pos := cur_pos c + 4\<rparr>))"
proof -
  have "push_bit 16 (push_bit 8 (ucast (a::u8))) = (push_bit 24 (ucast a) :: u32)" for a
    by (simp only: push_bit_push_bit) simp
  then show ?thesis by (simp add: ReadU32_def Remaining_def rd32_def be32_def)
qed

lemma ReadU16_be16:
  "ReadU16 c = (if Remaining c < 2 then None
     else Some (rd16 (cur_data c) (cur_pos c), c\<lparr>cur_pos := cur_pos c + 2\<rparr>))"
  by (simp add: ReadU16_def Remaining_def rd16_def be16_def)

lemma map_nth_slice:
  "k + n \<le> length xs \<Longrightarrow> map (\<lambda>i. xs ! (k + i)) [0..<n] = slice k n xs"
  by (rule nth_equalityI) (simp_all add: slice_def)

lemma ReadBytes_slice:
  "cursor_ok c \<Longrightarrow> ReadBytes n c = (if Remaining c < n then None
     else Some (slice (cur_pos c) n (cur_data c), c\<lparr>cur_pos := cur_pos c + n\<rparr>))"
  by (auto simp: ReadBytes_def Remaining_def cursor_ok_def map_nth_slice)

lemmas cursor_reads = ReadU8_def ReadU16_be16 ReadU32_be32 ReadBytes_slice Skip_def

end
