(* ===== verification/ExtHeaders.thy ===== *)
theory ExtHeaders
  imports Checked
begin

text \<open>
  TLV options and routing headers of IPv6 extension headers
  (\<open>src/ip/extension_headers.h\<close>, \<open>src/ip/extension_headers.cpp\<close>). An output array with a
  count is the list of the entries that the count covers.
\<close>

section \<open>Data\<close>

abbreviation (input) Opt_Pad1 :: u8 where "Opt_Pad1 \<equiv> 0"
abbreviation (input) Opt_JumboPayload :: u8 where "Opt_JumboPayload \<equiv> 0xC2"

record Ipv6Option =
  opt_type :: u8
  opt_length :: u8
  opt_data :: "bytes option"

record Ipv6RoutingHeader =
  rh_routing_type :: u8
  rh_segments_left :: u8
  rh_type_specific_data :: "bytes option"
  rh_type_specific_length :: nat

definition kIpv6MaxOptions :: nat where
  "kIpv6MaxOptions = 64"

section \<open>Operations\<close>

text \<open>
  The body of the option loop; \<open>None\<close> is \<open>return false\<close>. The recorded data is the
  \<open>opt_len\<close> bytes that \<open>Peek\<close> points to.
\<close>

definition parse_option :: "cursor \<Rightarrow> (Ipv6Option \<times> cursor) option" where
  "parse_option cur =
     (case ReadU8 cur of
        None \<Rightarrow> None
      | Some (type, cur) \<Rightarrow>
          if type = Opt_Pad1 then Some (\<lparr>opt_type = Opt_Pad1, opt_length = 0, opt_data = None\<rparr>, cur)
          else
            (case ReadU8 cur of
               None \<Rightarrow> None
             | Some (opt_len, cur) \<Rightarrow>
                 (case Skip (unat opt_len) cur of
                    None \<Rightarrow> None
                  | Some cur' \<Rightarrow>
                      Some (\<lparr>opt_type = type, opt_length = opt_len,
                             opt_data = map_option (take (unat opt_len)) (Peek cur)\<rparr>, cur'))))"

lemma parse_option_advances:
  "parse_option cur = Some (out, cur') \<Longrightarrow>
     Remaining cur' < Remaining cur \<and> cur_data cur' = cur_data cur \<and> cur_pos cur < cur_pos cur' \<and>
     cur_pos cur' \<le> cur_size cur"
  by (auto simp: parse_option_def ReadU8_def Skip_def Remaining_def
      split: option.splits if_splits prod.splits)

function parse_options_loop :: "cursor \<Rightarrow> Ipv6Option list \<Rightarrow> Ipv6Option list option" where
  "parse_options_loop cur out =
     (if Remaining cur > 0 then
        if length out \<ge> kIpv6MaxOptions then None
        else (case parse_option cur of
                None \<Rightarrow> None
              | Some (opt, cur') \<Rightarrow> parse_options_loop cur' (out @ [opt]))
      else Some out)"
  by pat_completeness auto
termination
  by (relation "measure (\<lambda>(cur, out). Remaining cur)") (auto dest: parse_option_advances)

declare parse_options_loop.simps [simp del]

definition ParseIpv6Options :: "bytes \<Rightarrow> Ipv6Option list option" where
  "ParseIpv6Options data = parse_options_loop (ReadCursor data) []"

definition ParseIpv6RoutingHeader :: "bytes \<Rightarrow> Ipv6RoutingHeader" where
  "ParseIpv6RoutingHeader data =
     (let rh = \<lparr>rh_routing_type = 0, rh_segments_left = 0, rh_type_specific_data = None,
                rh_type_specific_length = 0\<rparr> in
      if length data < 2 then rh
      else
        (case ReadU8 (ReadCursor data) of
           None \<Rightarrow> rh
         | Some (routing_type, cur) \<Rightarrow>
             (case ReadU8 cur of
                None \<Rightarrow> rh
              | Some (segments_left, cur) \<Rightarrow>
                  rh\<lparr>rh_routing_type := routing_type, rh_segments_left := segments_left,
                     rh_type_specific_data := Peek cur,
                     rh_type_specific_length := Remaining cur\<rparr>)))"

section \<open>Encoding of options\<close>

text \<open>The wire form of an option, the reference for the parser.\<close>

definition encode_option :: "Ipv6Option \<Rightarrow> bytes" where
  "encode_option opt =
     (if opt_type opt = Opt_Pad1 then [Opt_Pad1]
      else opt_type opt # opt_length opt # (case opt_data opt of None \<Rightarrow> [] | Some d \<Rightarrow> d))"

definition option_ok :: "Ipv6Option \<Rightarrow> bool" where
  "option_ok opt \<longleftrightarrow>
     (if opt_type opt = Opt_Pad1 then opt_length opt = 0 \<and> opt_data opt = None
      else length (case opt_data opt of None \<Rightarrow> [] | Some d \<Rightarrow> d) = unat (opt_length opt))"

lemma slice_take_drop: "drop (n + m) xs = drop m (drop n xs)"
  by (simp add: add.commute)

lemma parse_option_encode:
  assumes "parse_option cur = Some (opt, cur')"
  shows "option_ok opt \<and> drop (cur_pos cur) (cur_data cur) =
    encode_option opt @ drop (cur_pos cur') (cur_data cur')"
proof (cases "cur_data cur ! cur_pos cur = Opt_Pad1")
  case True
  with assms Cons_nth_drop_Suc [of "cur_pos cur" "cur_data cur"] show ?thesis
    by (auto simp: parse_option_def ReadU8_def option_ok_def encode_option_def split: if_splits)
next
  case False
  let ?d = "cur_data cur" and ?p = "cur_pos cur"
  let ?l = "unat (?d ! (?p + 1))"
  from assms False have len: "?p + 2 + ?l \<le> length ?d"
    and cur': "cur' = cur\<lparr>cur_pos := ?p + 2 + ?l\<rparr>"
    and opt: "opt = \<lparr>opt_type = ?d ! ?p, opt_length = ?d ! (?p + 1),
      opt_data = (if ?p + 2 \<ge> length ?d then None else Some (take ?l (drop (?p + 2) ?d)))\<rparr>"
    by (auto simp: parse_option_def ReadU8_def Skip_def Peek_def numeral_2_eq_2
        split: if_splits option.splits)
  have d: "drop ?p ?d = ?d ! ?p # ?d ! (?p + 1) # drop (?p + 2) ?d"
    using len by (simp add: Cons_nth_drop_Suc)
  have "drop (?p + 2) ?d = take ?l (drop (?p + 2) ?d) @ drop (?p + 2 + ?l) ?d"
    by (simp only: slice_take_drop append_take_drop_id)
  then show ?thesis
    using False len d by (auto simp: opt cur' option_ok_def encode_option_def)
qed

lemma parse_options_loop_encode:
  assumes "parse_options_loop cur out = Some opts" "cursor_ok cur" "\<forall>opt\<in>set out. option_ok opt"
    "length out \<le> kIpv6MaxOptions"
  shows "\<exists>rest. opts = out @ rest \<and> drop (cur_pos cur) (cur_data cur) = concat (map encode_option rest) \<and>
     (\<forall>opt\<in>set opts. option_ok opt) \<and> length opts \<le> kIpv6MaxOptions"
  using assms
proof (induction cur out rule: parse_options_loop.induct)
  case (1 cur out)
  show ?case
  proof (cases "Remaining cur > 0")
    case False
    with 1 show ?thesis
      by (intro exI [of _ "[]"]) (simp_all add: parse_options_loop.simps [of cur] Remaining_def)
  next
    case True
    with 1(2) obtain opt cur' where p: "parse_option cur = Some (opt, cur')"
      and lim: "\<not> length out \<ge> kIpv6MaxOptions"
      and loop: "parse_options_loop cur' (out @ [opt]) = Some opts"
      by (auto simp: parse_options_loop.simps [of cur] split: if_splits option.splits)
    from parse_option_encode [OF p] parse_option_advances [OF p]
    have enc: "option_ok opt" "cursor_ok cur'" "drop (cur_pos cur) (cur_data cur) =
      encode_option opt @ drop (cur_pos cur') (cur_data cur')"
      by (auto simp: cursor_ok_def)
    from 1(1) [OF True lim p refl] loop enc lim 1(4) obtain rest where
      "opts = (out @ [opt]) @ rest" "drop (cur_pos cur') (cur_data cur') = concat (map encode_option rest)"
      "\<forall>opt\<in>set opts. option_ok opt" "length opts \<le> kIpv6MaxOptions"
      by auto
    with enc show ?thesis by (intro exI [of _ "opt # rest"]) auto
  qed
qed

lemma ParseIpv6Options_encode:
  assumes "ParseIpv6Options data = Some opts"
  shows "data = concat (map encode_option opts) \<and> (\<forall>opt\<in>set opts. option_ok opt) \<and> length opts \<le> kIpv6MaxOptions"
  using parse_options_loop_encode [of "ReadCursor data" "[]" opts] assms
  by (auto simp: ParseIpv6Options_def ReadCursor_def cursor_ok_def)

text \<open>Conversely every sequence of at most 64 encoded options is accepted.\<close>

lemma parse_option_complete:
  assumes "drop (cur_pos cur) (cur_data cur) = encode_option opt @ rest" "option_ok opt"
  shows "\<exists>opt' cur'. parse_option cur = Some (opt', cur') \<and> drop (cur_pos cur') (cur_data cur') = rest"
proof -
  let ?d = "cur_data cur" and ?p = "cur_pos cur"
  obtain t tl where enc: "encode_option opt = t # tl"
    by (cases "encode_option opt") (auto simp: encode_option_def split: if_splits)
  have p: "?p < length ?d" using assms(1) enc by (cases "?p < length ?d") auto
  have hd: "?d ! ?p = t" "drop (Suc ?p) ?d = tl @ rest"
    using Cons_nth_drop_Suc [OF p] assms(1) enc by auto
  show ?thesis
  proof (cases "t = Opt_Pad1")
    case True
    with hd p enc assms(2) show ?thesis
      by (auto simp: parse_option_def ReadU8_def encode_option_def option_ok_def split: if_splits)
  next
    case False
    with enc assms(2) obtain l d where tl: "tl = l # d" "length d = unat l"
      by (auto simp: encode_option_def option_ok_def split: if_splits)
    have p2: "Suc ?p < length ?d" using hd(2) tl by (cases "Suc ?p < length ?d") auto
    have hd2: "?d ! Suc ?p = l" "drop (Suc (Suc ?p)) ?d = d @ rest"
      using Cons_nth_drop_Suc [OF p2] hd(2) tl by auto
    have "drop (Suc (Suc ?p) + length d) ?d = rest" "length (drop (Suc (Suc ?p)) ?d) \<ge> length d"
      by (simp_all only: slice_take_drop hd2) simp_all
    with hd hd2 p p2 False tl(2) show ?thesis
      by (auto simp: parse_option_def ReadU8_def Skip_def)
  qed
qed

lemma parse_options_loop_complete:
  "drop (cur_pos cur) (cur_data cur) = concat (map encode_option opts) \<Longrightarrow>
     \<forall>opt\<in>set opts. option_ok opt \<Longrightarrow> length out + length opts \<le> kIpv6MaxOptions \<Longrightarrow>
     parse_options_loop cur out \<noteq> None"
proof (induction opts arbitrary: cur out)
  case Nil
  then show ?case by (simp add: parse_options_loop.simps [of cur] Remaining_def)
next
  case (Cons opt opts)
  then obtain opt' cur' where p: "parse_option cur = Some (opt', cur')"
    and rest: "drop (cur_pos cur') (cur_data cur') = concat (map encode_option opts)"
    using parse_option_complete [of cur opt "concat (map encode_option opts)"] by auto
  have "Remaining cur > 0" using parse_option_advances [OF p] by simp
  with p Cons.prems Cons.IH [OF rest, of "out @ [opt']"] show ?case
    by (simp add: parse_options_loop.simps [of cur])
qed

text \<open>
  C26: \<open>ParseIpv6Options\<close> accepts exactly the bodies that are a concatenation of at most 64
  well-formed TLV options (a Pad1 byte, or a type, a length byte and that many bytes), and the
  options that it returns are such a decomposition of the whole body: no byte is skipped.\<close>

theorem ipv6_options_grammar:
  "(ParseIpv6Options data \<noteq> None) =
     (\<exists>opts. data = concat (map encode_option opts) \<and> list_all option_ok opts \<and>
             length opts \<le> kIpv6MaxOptions) \<and>
   (case ParseIpv6Options data of None \<Rightarrow> True
    | Some opts \<Rightarrow> data = concat (map encode_option opts) \<and> list_all option_ok opts)"
  using ParseIpv6Options_encode [of data] parse_options_loop_complete [of "ReadCursor data" _ "[]"]
  by (fastforce simp: list_all_iff ParseIpv6Options_def ReadCursor_def split: option.splits)

end
