(* ===== verification/Ipv6.thy ===== *)
theory Ipv6
  imports ExtHeaders
begin

text \<open>
  The IPv6 fixed header and the bounded extension header walk (\<open>src/ip/ipv6.h\<close>,
  \<open>src/ip/ipv6.cpp\<close>). The body of the \<open>while\<close> loop is \<open>walk_step\<close>: \<open>Inl\<close> is an early
  \<open>return result\<close>, \<open>Inr\<close> the state at the end of the iteration.
\<close>

unbundle bit_operations_syntax

section \<open>Header and result\<close>

abbreviation (input) Ext_HopByHop :: u8 where "Ext_HopByHop \<equiv> 0"
abbreviation (input) Ext_Routing :: u8 where "Ext_Routing \<equiv> 43"
abbreviation (input) Ext_Fragment :: u8 where "Ext_Fragment \<equiv> 44"
abbreviation (input) Ext_DestinationOptions :: u8 where "Ext_DestinationOptions \<equiv> 60"
abbreviation (input) Ext_NoNextHeader :: u8 where "Ext_NoNextHeader \<equiv> 59"

record Ipv6Header =
  ip6_version :: u8
  ip6_traffic_class :: u8
  ip6_flow_label :: u32
  ip6_h_payload_length :: u16
  ip6_next_header :: u8
  ip6_hop_limit :: u8
  ip6_src_ip :: bytes
  ip6_dst_ip :: bytes
  ip6_header_length :: nat

datatype Ipv6ParseError =
    Ipv6_None
  | Ipv6_TooShort
  | Ipv6_BadVersion
  | Ipv6_TruncatedPayload
  | Ipv6_TruncatedExtHeader
  | Ipv6_ExtHeaderLoop
  | Ipv6_ExtHeaderTooMany
  | Ipv6_ExtHeaderTooLong
  | Ipv6_BadExtHeaderOption
  | Ipv6_BadJumboPayload

record Ipv6ParseResult =
  ip6_error :: Ipv6ParseError
  ip6_header :: Ipv6Header
  ip6_final_next_header :: u8
  ip6_ext_header_count :: nat
  ip6_fragment_header_present :: bool
  ip6_payload_offset :: nat
  ip6_payload_length :: nat
  ip6_payload :: "bytes option"
  ip6_fragment_offset :: u16
  ip6_fragment_more :: bool
  ip6_fragment_identification :: u32
  ip6_fragment_payload :: "bytes option"
  ip6_fragment_payload_length :: nat
  ip6_hopbyhop_options :: "Ipv6Option list"
  ip6_dest_options :: "Ipv6Option list"
  ip6_routing_header_present :: bool
  ip6_routing_header :: Ipv6RoutingHeader
  ip6_jumbo_payload_present :: bool
  ip6_jumbo_payload_length :: u32

definition Ipv6Header_init :: Ipv6Header where
  "Ipv6Header_init =
     \<lparr>ip6_version = 0, ip6_traffic_class = 0, ip6_flow_label = 0, ip6_h_payload_length = 0,
      ip6_next_header = 0, ip6_hop_limit = 0, ip6_src_ip = replicate 16 0,
      ip6_dst_ip = replicate 16 0, ip6_header_length = 40\<rparr>"

definition Ipv6ParseResult_init :: Ipv6ParseResult where
  "Ipv6ParseResult_init =
     \<lparr>ip6_error = Ipv6_None, ip6_header = Ipv6Header_init, ip6_final_next_header = 0,
      ip6_ext_header_count = 0, ip6_fragment_header_present = False, ip6_payload_offset = 0,
      ip6_payload_length = 0, ip6_payload = None, ip6_fragment_offset = 0,
      ip6_fragment_more = False, ip6_fragment_identification = 0, ip6_fragment_payload = None,
      ip6_fragment_payload_length = 0, ip6_hopbyhop_options = [], ip6_dest_options = [],
      ip6_routing_header_present = False,
      ip6_routing_header = \<lparr>rh_routing_type = 0, rh_segments_left = 0,
        rh_type_specific_data = None, rh_type_specific_length = 0\<rparr>,
      ip6_jumbo_payload_present = False, ip6_jumbo_payload_length = 0\<rparr>"

definition kIpv6MaxExtHeaders :: nat where
  "kIpv6MaxExtHeaders = 8"

definition kIpv6MaxExtHeaderBytes :: nat where
  "kIpv6MaxExtHeaderBytes = 1024"

section \<open>Helpers\<close>

definition IsExtensionHeader :: "u8 \<Rightarrow> bool" where
  "IsExtensionHeader nh \<longleftrightarrow>
     nh = Ext_HopByHop \<or> nh = Ext_Routing \<or> nh = Ext_Fragment \<or> nh = Ext_DestinationOptions"

fun FindJumboPayload :: "Ipv6Option list \<Rightarrow> u32 option" where
  "FindJumboPayload [] = None"
| "FindJumboPayload (opt # opts) =
     (if opt_type opt = Opt_JumboPayload then
        (if opt_length opt \<noteq> 4 then None
         else case opt_data opt of None \<Rightarrow> None | Some d \<Rightarrow> Some (rd32 d 0))
      else FindJumboPayload opts)"

text \<open>The early scan for a Jumbo Payload option in a leading HopByHop header.\<close>

definition jumbo_prescan :: "bytes \<Rightarrow> u8 \<Rightarrow> u32 option" where
  "jumbo_prescan data next_header =
     (let available_payload = length data - 40 in
      if next_header = Ext_HopByHop \<and> available_payload \<ge> 2 then
        (case CheckedMul_size (unat (data ! 41) + 1) 8 of
           None \<Rightarrow> None
         | Some hbh_size \<Rightarrow>
             if hbh_size \<ge> 2 \<and> hbh_size \<le> available_payload then
               (case ParseIpv6Options (slice (40 + 2) (hbh_size - 2) data) of
                  None \<Rightarrow> None
                | Some tmp_opts \<Rightarrow> FindJumboPayload tmp_opts)
             else None)
      else None)"

section \<open>The extension header walk\<close>

record walk =
  wk_result :: Ipv6ParseResult
  wk_current_nh :: u8
  wk_offset :: nat
  wk_ext_total_bytes :: nat
  wk_visited :: "u8 list"

text \<open>The Fragment header branch at the top of the loop body.\<close>

definition walk_fragment :: "bytes \<Rightarrow> nat \<Rightarrow> nat \<Rightarrow> Ipv6ParseResult \<Rightarrow> Ipv6ParseResult + Ipv6ParseResult" where
  "walk_fragment data total_after_fixed offset result =
     (let result = result\<lparr>ip6_fragment_header_present := True\<rparr> in
      if offset + 8 > length data then Inl (result\<lparr>ip6_error := Ipv6_TruncatedExtHeader\<rparr>)
      else
        let ff = rd16 data (offset + 2);
            result = result\<lparr>ip6_fragment_offset := drop_bit 3 ff,
                            ip6_fragment_more := (ff AND 0x01 \<noteq> 0),
                            ip6_fragment_identification := rd32 data (offset + 4)\<rparr>;
            frag_payload_end = 40 + total_after_fixed in
        case CheckedAdd_size offset 8 of
          None \<Rightarrow> Inl (result\<lparr>ip6_error := Ipv6_TruncatedExtHeader\<rparr>)
        | Some frag_start \<Rightarrow>
            Inr (if frag_start \<le> frag_payload_end
                 then result\<lparr>ip6_fragment_payload := Some (slice frag_start (frag_payload_end - frag_start) data),
                             ip6_fragment_payload_length := frag_payload_end - frag_start\<rparr>
                 else result))"

text \<open>The structured parsing of one header body.\<close>

definition walk_body :: "u8 \<Rightarrow> bytes \<Rightarrow> Ipv6ParseResult \<Rightarrow> Ipv6ParseResult + Ipv6ParseResult" where
  "walk_body nh body result =
     (if nh = Ext_HopByHop then
        (case ParseIpv6Options body of
           None \<Rightarrow> Inl (result\<lparr>ip6_error := Ipv6_BadExtHeaderOption\<rparr>)
         | Some opts \<Rightarrow>
             let result = result\<lparr>ip6_hopbyhop_options := opts\<rparr> in
             (case FindJumboPayload opts of
                None \<Rightarrow> Inr result
              | Some jlen \<Rightarrow>
                  if ip6_h_payload_length (ip6_header result) \<noteq> 0
                  then Inl (result\<lparr>ip6_error := Ipv6_BadJumboPayload\<rparr>)
                  else Inr (result\<lparr>ip6_jumbo_payload_present := True,
                                   ip6_jumbo_payload_length := jlen\<rparr>)))
      else if nh = Ext_Routing then
        Inr (result\<lparr>ip6_routing_header_present := True,
                    ip6_routing_header := ParseIpv6RoutingHeader body\<rparr>)
      else if nh = Ext_DestinationOptions then
        (case ParseIpv6Options body of
           None \<Rightarrow> Inl (result\<lparr>ip6_error := Ipv6_BadExtHeaderOption\<rparr>)
         | Some opts \<Rightarrow> Inr (result\<lparr>ip6_dest_options := opts\<rparr>))
      else Inr result)"

definition walk_step :: "bytes \<Rightarrow> nat \<Rightarrow> walk \<Rightarrow> Ipv6ParseResult + walk" where
  "walk_step data total_after_fixed w =
     (let current_nh = wk_current_nh w; offset = wk_offset w; len = length data in
      case (if current_nh = Ext_Fragment
            then walk_fragment data total_after_fixed offset (wk_result w)
            else Inr (wk_result w)) of
        Inl r \<Rightarrow> Inl r
      | Inr result \<Rightarrow>
        if current_nh \<in> set (wk_visited w) then Inl (result\<lparr>ip6_error := Ipv6_ExtHeaderLoop\<rparr>)
        else if length (wk_visited w) \<ge> kIpv6MaxExtHeaders
          then Inl (result\<lparr>ip6_error := Ipv6_ExtHeaderTooMany\<rparr>)
        else if offset + 2 > len then Inl (result\<lparr>ip6_error := Ipv6_TruncatedExtHeader\<rparr>)
        else
          let ext_nh = data ! offset; ext_len = data ! (offset + 1) in
          case (if current_nh = Ext_Fragment then Some 8 else CheckedMul_size (unat ext_len + 1) 8) of
            None \<Rightarrow> Inl (result\<lparr>ip6_error := Ipv6_TruncatedExtHeader\<rparr>)
          | Some ext_size \<Rightarrow>
            (case CheckedAdd_size (wk_ext_total_bytes w) ext_size of
               None \<Rightarrow> Inl (result\<lparr>ip6_error := Ipv6_ExtHeaderTooLong\<rparr>)
             | Some new_ext_total \<Rightarrow>
               if new_ext_total > kIpv6MaxExtHeaderBytes
               then Inl (result\<lparr>ip6_error := Ipv6_ExtHeaderTooLong\<rparr>)
               else
                 (case CheckedAdd_size offset ext_size of
                    None \<Rightarrow> Inl (result\<lparr>ip6_error := Ipv6_TruncatedExtHeader\<rparr>)
                  | Some ext_end \<Rightarrow>
                    if ext_end > len \<or> ext_end > 40 + total_after_fixed
                    then Inl (result\<lparr>ip6_error := Ipv6_TruncatedExtHeader\<rparr>)
                    else
                      (case walk_body current_nh (slice (offset + 2) (ext_size - 2) data) result of
                         Inl r \<Rightarrow> Inl r
                       | Inr result \<Rightarrow>
                           Inr \<lparr>wk_result = result\<lparr>ip6_ext_header_count := ip6_ext_header_count result + 1\<rparr>,
                                wk_current_nh = ext_nh, wk_offset = ext_end,
                                wk_ext_total_bytes = new_ext_total,
                                wk_visited = wk_visited w @ [current_nh]\<rparr>))))"

definition walk_finish :: "bytes \<Rightarrow> nat \<Rightarrow> walk \<Rightarrow> Ipv6ParseResult" where
  "walk_finish data total_after_fixed w =
     (let result = (wk_result w)\<lparr>ip6_final_next_header := wk_current_nh w\<rparr> in
      if wk_current_nh w = Ext_NoNextHeader
      then result\<lparr>ip6_payload_offset := wk_offset w, ip6_payload_length := 0, ip6_payload := None\<rparr>
      else
        let n = (40 + total_after_fixed) - wk_offset w in
        result\<lparr>ip6_payload_offset := wk_offset w, ip6_payload_length := n,
               ip6_payload := Some (slice (wk_offset w) n data)\<rparr>)"

lemma walk_step_progress:
  assumes "walk_step data t w = Inr w'"
  shows "wk_offset w < wk_offset w' \<and> wk_offset w' \<le> length data"
  using assms
  by (auto simp: walk_step_def Let_def CheckedAdd_size_def CheckedMul_size_iff
      split: sum.splits option.splits if_splits)

function walk_loop :: "bytes \<Rightarrow> nat \<Rightarrow> walk \<Rightarrow> Ipv6ParseResult" where
  "walk_loop data total_after_fixed w =
     (if IsExtensionHeader (wk_current_nh w) then
        (case walk_step data total_after_fixed w of
           Inl r \<Rightarrow> r
         | Inr w' \<Rightarrow> walk_loop data total_after_fixed w')
      else walk_finish data total_after_fixed w)"
  by pat_completeness auto
termination
proof (relation "measure (\<lambda>(data, t, w). length data - wk_offset w)")
  fix data t w w'
  assume "walk_step data t w = Inr w'"
  then show "((data, t, w'), data, t, w) \<in> measure (\<lambda>(data, t, w). length data - wk_offset w)"
    using walk_step_progress [of data t w w'] by auto
qed simp

declare walk_loop.simps [simp del]

text \<open>The fields of the fixed header after the version check.\<close>

definition read_fixed_header :: "bytes \<Rightarrow> Ipv6Header \<Rightarrow> Ipv6Header" where
  "read_fixed_header data h =
     h\<lparr>ip6_traffic_class :=
         ucast (push_bit 4 ((ucast (data ! 0) :: u16) AND 0x0F) OR ucast (drop_bit 4 (data ! 1))),
       ip6_flow_label := push_bit 16 (ucast (data ! 1) AND 0x0F)
         OR push_bit 8 (ucast (data ! 2)) OR ucast (data ! 3),
       ip6_h_payload_length := rd16 data 4,
       ip6_next_header := data ! 6,
       ip6_hop_limit := data ! 7,
       ip6_src_ip := slice 8 16 data,
       ip6_dst_ip := slice 24 16 data\<rparr>"

text \<open>The choice of \<open>total_after_fixed\<close>, with the jumbogram fields it records.\<close>

definition measure_payload :: "bytes \<Rightarrow> Ipv6ParseResult \<Rightarrow> Ipv6ParseResult \<times> nat" where
  "measure_payload data result =
     (if ip6_h_payload_length (ip6_header result) = 0 then
        (case jumbo_prescan data (ip6_next_header (ip6_header result)) of
           Some jumbo_len \<Rightarrow>
             (result\<lparr>ip6_jumbo_payload_present := True, ip6_jumbo_payload_length := jumbo_len\<rparr>,
              unat jumbo_len)
         | None \<Rightarrow> (result, length data - 40))
      else (result, unat (ip6_h_payload_length (ip6_header result))))"

definition ParseIpv6 :: "bytes \<Rightarrow> Ipv6ParseResult" where
  "ParseIpv6 data =
     (let len = length data; result = Ipv6ParseResult_init in
      if len < 40 then result\<lparr>ip6_error := Ipv6_TooShort\<rparr>
      else
        let h = (ip6_header result)\<lparr>ip6_version := drop_bit 4 (data ! 0)\<rparr> in
        if ip6_version h \<noteq> 6 then result\<lparr>ip6_header := h, ip6_error := Ipv6_BadVersion\<rparr>
        else
          let result = result\<lparr>ip6_header := read_fixed_header data h\<rparr>;
              available_payload = len - 40;
              (result, total_after_fixed) = measure_payload data result in
          if available_payload < total_after_fixed
          then result\<lparr>ip6_error := Ipv6_TruncatedPayload\<rparr>
          else walk_loop data total_after_fixed
                 \<lparr>wk_result = result, wk_current_nh = ip6_next_header (ip6_header result),
                  wk_offset = 40, wk_ext_total_bytes = 0, wk_visited = []\<rparr>)"

section \<open>The walk invariant\<close>

text \<open>
  A chain of extension headers: from type \<open>nh\<close> at offset \<open>off\<close>, through the types \<open>hs\<close>, to the
  type \<open>nh'\<close> at \<open>off'\<close>.
\<close>

definition ext_hdr_size :: "bytes \<Rightarrow> u8 \<Rightarrow> nat \<Rightarrow> nat" where
  "ext_hdr_size data nh off =
     (if nh = Ext_Fragment then 8 else (unat (data ! (off + 1)) + 1) * 8)"

inductive ext_chain :: "bytes \<Rightarrow> u8 \<Rightarrow> nat \<Rightarrow> u8 list \<Rightarrow> u8 \<Rightarrow> nat \<Rightarrow> bool"
  for data nh off
where
  chain_Nil: "ext_chain data nh off [] nh off"
| chain_Snoc: "ext_chain data nh off hs nh' off' \<Longrightarrow> IsExtensionHeader nh' \<Longrightarrow>
     off' + ext_hdr_size data nh' off' \<le> length data \<Longrightarrow>
     ext_chain data nh off (hs @ [nh']) (data ! off') (off' + ext_hdr_size data nh' off')"

definition ext_types :: "u8 set" where
  "ext_types = {Ext_HopByHop, Ext_Routing, Ext_Fragment, Ext_DestinationOptions}"

lemma IsExtensionHeader_iff: "IsExtensionHeader nh \<longleftrightarrow> nh \<in> ext_types"
  by (auto simp: IsExtensionHeader_def ext_types_def)

lemma distinct_ext_types:
  assumes "distinct hs" "set hs \<subseteq> ext_types"
  shows "length hs \<le> 4"
proof -
  have "length hs = card (set hs)" using assms(1) by (simp add: distinct_card)
  also have "\<dots> \<le> card ext_types" using assms(2) by (intro card_mono) (auto simp: ext_types_def)
  also have "\<dots> = 4" by (simp add: ext_types_def)
  finally show ?thesis .
qed

definition frag_ok :: "bytes \<Rightarrow> nat \<Rightarrow> Ipv6ParseResult \<Rightarrow> bool" where
  "frag_ok data t result \<longleftrightarrow>
     (case ip6_fragment_payload result of
        None \<Rightarrow> ip6_fragment_payload_length result = 0
      | Some d \<Rightarrow> length d = ip6_fragment_payload_length result \<and>
          d = slice (40 + t - ip6_fragment_payload_length result)
                (ip6_fragment_payload_length result) data)"

definition walk_inv :: "bytes \<Rightarrow> nat \<Rightarrow> Ipv6Header \<Rightarrow> walk \<Rightarrow> bool" where
  "walk_inv data t h w \<longleftrightarrow>
     ext_chain data (ip6_next_header h) 40 (wk_visited w) (wk_current_nh w) (wk_offset w) \<and>
     wk_offset w = 40 + wk_ext_total_bytes w \<and> wk_offset w \<le> 40 + t \<and>
     40 + t \<le> length data \<and> wk_ext_total_bytes w \<le> kIpv6MaxExtHeaderBytes \<and>
     distinct (wk_visited w) \<and> set (wk_visited w) \<subseteq> ext_types \<and>
     ip6_ext_header_count (wk_result w) = length (wk_visited w) \<and>
     ip6_error (wk_result w) = Ipv6_None \<and> ip6_header (wk_result w) = h \<and>
     frag_ok data t (wk_result w)"

lemma walk_fragment_keeps:
  assumes "walk_fragment data t off r = Inr r'" "40 + t \<le> length data" "frag_ok data t r"
  shows "ip6_error r' = ip6_error r \<and> ip6_header r' = ip6_header r \<and>
    ip6_ext_header_count r' = ip6_ext_header_count r \<and> frag_ok data t r'"
  using assms
  by (auto simp: walk_fragment_def Let_def CheckedAdd_size_def frag_ok_def slice_def add.commute
      split: if_splits option.splits)

lemma walk_body_keeps:
  assumes "walk_body nh body r = Inr r'" "frag_ok data t r"
  shows "ip6_error r' = ip6_error r \<and> ip6_header r' = ip6_header r \<and>
    ip6_ext_header_count r' = ip6_ext_header_count r \<and> frag_ok data t r'"
  using assms
  by (auto simp: walk_body_def Let_def frag_ok_def split: if_splits option.splits)

lemma walk_fragment_error:
  "walk_fragment data t off r = Inl r' \<Longrightarrow> ip6_error r' = Ipv6_TruncatedExtHeader"
  by (auto simp: walk_fragment_def Let_def split: if_splits option.splits)

lemma walk_body_error:
  "walk_body nh body r = Inl r' \<Longrightarrow> ip6_error r' \<in> {Ipv6_BadExtHeaderOption, Ipv6_BadJumboPayload}"
  by (auto simp: walk_body_def Let_def split: if_splits option.splits)

lemma walk_inv_step:
  assumes inv: "walk_inv data t h w" and ext: "IsExtensionHeader (wk_current_nh w)"
    and step: "walk_step data t w = Inr w'"
  shows "walk_inv data t h w'"
proof -
  let ?nh = "wk_current_nh w" and ?off = "wk_offset w"
  from step obtain r r' where
    frag: "(if ?nh = Ext_Fragment then walk_fragment data t ?off (wk_result w) else Inr (wk_result w)) = Inr r"
    and new: "?nh \<notin> set (wk_visited w)"
    and body: "walk_body ?nh (slice (?off + 2) (ext_hdr_size data ?nh ?off - 2) data) r = Inr r'"
    and w': "w' = \<lparr>wk_result = r'\<lparr>ip6_ext_header_count := ip6_ext_header_count r' + 1\<rparr>,
      wk_current_nh = data ! ?off, wk_offset = ?off + ext_hdr_size data ?nh ?off,
      wk_ext_total_bytes = wk_ext_total_bytes w + ext_hdr_size data ?nh ?off,
      wk_visited = wk_visited w @ [?nh]\<rparr>"
    and bounds: "wk_ext_total_bytes w + ext_hdr_size data ?nh ?off \<le> kIpv6MaxExtHeaderBytes"
      "?off + ext_hdr_size data ?nh ?off \<le> 40 + t"
    unfolding walk_step_def Let_def ext_hdr_size_def
    by (auto simp: CheckedAdd_size_def CheckedMul_size_iff
        split: sum.splits option.splits if_splits)
  have "ip6_error r = Ipv6_None \<and> ip6_header r = h \<and>
    ip6_ext_header_count r = length (wk_visited w) \<and> frag_ok data t r"
    using frag inv walk_fragment_keeps [of data t ?off "wk_result w" r]
    by (auto simp: walk_inv_def split: if_splits)
  moreover have "frag_ok data t (r'\<lparr>ip6_ext_header_count := n\<rparr>) = frag_ok data t r'" for n
    by (simp add: frag_ok_def split: option.splits)
  ultimately show ?thesis
    using walk_body_keeps [OF body, of data t] inv new bounds ext
    by (auto simp: walk_inv_def w' IsExtensionHeader_iff intro: chain_Snoc)
qed

lemma walk_loop_end:
  assumes "walk_inv data t h w"
  shows "\<exists>w'. walk_inv data t h w' \<and>
    (IsExtensionHeader (wk_current_nh w') \<and> walk_step data t w' = Inl (walk_loop data t w) \<or>
     \<not> IsExtensionHeader (wk_current_nh w') \<and> walk_loop data t w = walk_finish data t w')"
  using assms
proof (induction data t w rule: walk_loop.induct)
  case (1 data t w)
  show ?case
  proof (cases "IsExtensionHeader (wk_current_nh w)")
    case False
    with 1 show ?thesis by (auto simp: walk_loop.simps [of data t w])
  next
    case True
    then show ?thesis
    proof (cases "walk_step data t w")
      case (Inl r)
      with True 1 show ?thesis by (auto simp: walk_loop.simps [of data t w] intro!: exI [of _ w])
    next
      case (Inr w')
      with True 1(1) [OF True Inr] walk_inv_step [OF 1(2) True Inr] show ?thesis
        by (auto simp: walk_loop.simps [of data t w])
    qed
  qed
qed

text \<open>An early return carries an error, and the walk never runs out of slots.\<close>

lemma walk_step_error:
  assumes "walk_inv data t h w" "walk_step data t w = Inl r"
  shows "ip6_error r \<in> {Ipv6_TruncatedExtHeader, Ipv6_ExtHeaderLoop, Ipv6_ExtHeaderTooLong,
    Ipv6_BadExtHeaderOption, Ipv6_BadJumboPayload}"
proof -
  have "length (wk_visited w) \<le> 4" using assms(1) distinct_ext_types by (auto simp: walk_inv_def)
  then show ?thesis using assms(2)
    by (auto simp: walk_step_def Let_def kIpv6MaxExtHeaders_def
        dest: walk_fragment_error walk_body_error split: sum.splits option.splits if_splits)
qed

text \<open>How the packet is measured before the walk starts.\<close>

definition declared_payload :: "bytes \<Rightarrow> nat" where
  "declared_payload data =
     (if rd16 data 4 \<noteq> 0 then unat (rd16 data 4)
      else case jumbo_prescan data (data ! 6) of
        Some j \<Rightarrow> unat j | None \<Rightarrow> length data - 40)"

definition fixed_header :: "bytes \<Rightarrow> Ipv6Header" where
  "fixed_header data = read_fixed_header data (Ipv6Header_init\<lparr>ip6_version := 6\<rparr>)"

lemma fixed_header_fields:
  "ip6_next_header (fixed_header data) = data ! 6"
  "ip6_h_payload_length (fixed_header data) = rd16 data 4"
  by (simp_all add: fixed_header_def read_fixed_header_def)

lemma measure_payload_snd:
  "ip6_header r = fixed_header data \<Longrightarrow> snd (measure_payload data r) = declared_payload data"
  by (simp add: measure_payload_def declared_payload_def fixed_header_fields split: option.split)

lemma measure_payload_keeps:
  "ip6_error (fst (measure_payload data r)) = ip6_error r"
  "ip6_header (fst (measure_payload data r)) = ip6_header r"
  "ip6_ext_header_count (fst (measure_payload data r)) = ip6_ext_header_count r"
  "ip6_fragment_payload (fst (measure_payload data r)) = ip6_fragment_payload r"
  "ip6_fragment_payload_length (fst (measure_payload data r)) = ip6_fragment_payload_length r"
  by (simp_all add: measure_payload_def split: option.split)

definition walk_start :: "bytes \<Rightarrow> walk" where
  "walk_start data =
     \<lparr>wk_result = fst (measure_payload data (Ipv6ParseResult_init\<lparr>ip6_header := fixed_header data\<rparr>)),
      wk_current_nh = data ! 6, wk_offset = 40, wk_ext_total_bytes = 0, wk_visited = []\<rparr>"

lemma ParseIpv6_unfold:
  "ParseIpv6 data =
     (if length data < 40 then Ipv6ParseResult_init\<lparr>ip6_error := Ipv6_TooShort\<rparr>
      else if drop_bit 4 (data ! 0) \<noteq> 6
        then Ipv6ParseResult_init\<lparr>ip6_header := Ipv6Header_init\<lparr>ip6_version := drop_bit 4 (data ! 0)\<rparr>,
               ip6_error := Ipv6_BadVersion\<rparr>
      else if length data < 40 + declared_payload data
        then (wk_result (walk_start data))\<lparr>ip6_error := Ipv6_TruncatedPayload\<rparr>
      else walk_loop data (declared_payload data) (walk_start data))"
proof -
  have init: "ip6_header Ipv6ParseResult_init = Ipv6Header_init"
    by (simp add: Ipv6ParseResult_init_def)
  let ?r = "Ipv6ParseResult_init\<lparr>ip6_header := fixed_header data\<rparr>"
  obtain r where m: "measure_payload data ?r = (r, declared_payload data)"
    using measure_payload_snd [of ?r data] by (cases "measure_payload data ?r") auto
  moreover from this have "ip6_header r = fixed_header data"
    using measure_payload_keeps(2) [of data ?r] by simp
  ultimately show ?thesis
    by (auto simp: ParseIpv6_def Let_def init walk_start_def fixed_header_fields
        fixed_header_def [symmetric])
qed

lemma walk_start_inv:
  "40 \<le> length data \<Longrightarrow> 40 + declared_payload data \<le> length data \<Longrightarrow>
     walk_inv data (declared_payload data) (fixed_header data) (walk_start data)"
  by (simp add: walk_inv_def walk_start_def chain_Nil frag_ok_def measure_payload_keeps
      fixed_header_fields Ipv6ParseResult_init_def)

lemma ParseIpv6_end:
  assumes "40 \<le> length data" "drop_bit 4 (data ! 0) = 6" "40 + declared_payload data \<le> length data"
  shows "\<exists>w. walk_inv data (declared_payload data) (fixed_header data) w \<and>
    (IsExtensionHeader (wk_current_nh w) \<and>
       walk_step data (declared_payload data) w = Inl (ParseIpv6 data) \<or>
     \<not> IsExtensionHeader (wk_current_nh w) \<and>
       ParseIpv6 data = walk_finish data (declared_payload data) w)"
  using walk_loop_end [OF walk_start_inv [OF assms(1,3)]] assms by (simp add: ParseIpv6_unfold)

lemma ParseIpv6_header:
  assumes "ip6_error (ParseIpv6 data) = Ipv6_None"
  shows "ip6_header (ParseIpv6 data) = fixed_header data" "40 \<le> length data"
proof -
  have ok: "40 \<le> length data" "drop_bit 4 (data ! 0) = 6" "40 + declared_payload data \<le> length data"
    using assms by (auto simp: ParseIpv6_unfold split: if_splits)
  obtain w where "walk_inv data (declared_payload data) (fixed_header data) w"
    "ParseIpv6 data = walk_finish data (declared_payload data) w"
    using ParseIpv6_end [OF ok] walk_step_error [of data "declared_payload data" "fixed_header data"] assms
    by fastforce
  then show "ip6_header (ParseIpv6 data) = fixed_header data"
    by (auto simp: walk_inv_def walk_finish_def Let_def)
  show "40 \<le> length data" by (rule ok(1))
qed

lemma ParseIpv6_no_ext:
  assumes "40 \<le> length data" "drop_bit 4 (data ! 0) = 6" "rd16 data 4 \<noteq> 0"
    "40 + unat (rd16 data 4) \<le> length data" "\<not> IsExtensionHeader (data ! 6)"
    "data ! 6 \<noteq> Ext_NoNextHeader"
  shows "ip6_error (ParseIpv6 data) = Ipv6_None" "ip6_header (ParseIpv6 data) = fixed_header data"
    "ip6_final_next_header (ParseIpv6 data) = data ! 6"
    "ip6_payload (ParseIpv6 data) = Some (slice 40 (unat (rd16 data 4)) data)"
    "ip6_fragment_header_present (ParseIpv6 data) = False"
  using assms
  by (auto simp: ParseIpv6_unfold declared_payload_def walk_loop.simps [of data] walk_start_def
      walk_finish_def Let_def measure_payload_def fixed_header_fields Ipv6ParseResult_init_def)

section \<open>Properties\<close>

text \<open>
  C27: A packet that \<open>ParseIpv6\<close> accepts has a chain of pairwise distinct extension headers, as
  many as \<open>ext_header_count\<close> says, that leads from the fixed header to the reported upper-layer
  protocol at \<open>payload_offset\<close>. The chain has at most 1024 bytes. The payload is the part of the
  buffer between that offset and the declared end of the packet (empty after NoNextHeader), and the
  payload of a fragment header ends at the declared end as well.\<close>

theorem parse_ipv6_chain:
  assumes "ip6_error (ParseIpv6 data) = Ipv6_None"
  shows "40 + declared_payload data \<le> length data \<and>
    (\<exists>hs. ext_chain data (data ! 6) 40 hs (ip6_final_next_header (ParseIpv6 data))
            (ip6_payload_offset (ParseIpv6 data)) \<and>
          distinct hs \<and> length hs = ip6_ext_header_count (ParseIpv6 data)) \<and>
    \<not> IsExtensionHeader (ip6_final_next_header (ParseIpv6 data)) \<and>
    ip6_payload_offset (ParseIpv6 data) \<le> 40 + min (declared_payload data) kIpv6MaxExtHeaderBytes \<and>
    ip6_header (ParseIpv6 data) = fixed_header data \<and>
    (if ip6_final_next_header (ParseIpv6 data) = Ext_NoNextHeader
     then ip6_payload (ParseIpv6 data) = None \<and> ip6_payload_length (ParseIpv6 data) = 0
     else ip6_payload (ParseIpv6 data) =
            Some (slice (ip6_payload_offset (ParseIpv6 data)) (ip6_payload_length (ParseIpv6 data)) data) \<and>
          ip6_payload_offset (ParseIpv6 data) + ip6_payload_length (ParseIpv6 data) =
            40 + declared_payload data) \<and>
    frag_ok data (declared_payload data) (ParseIpv6 data)"
proof -
  from assms have pre: "40 \<le> length data" "drop_bit 4 (data ! 0) = 6"
    "40 + declared_payload data \<le> length data"
    by (auto simp: ParseIpv6_unfold split: if_splits)
  from ParseIpv6_end [OF this] assms obtain w where
    inv: "walk_inv data (declared_payload data) (fixed_header data) w"
    and fin: "\<not> IsExtensionHeader (wk_current_nh w)"
      "ParseIpv6 data = walk_finish data (declared_payload data) w"
    using walk_step_error by fastforce
  have frag: "frag_ok data t (walk_finish data t w) = frag_ok data t (wk_result w)" for t
    by (simp add: frag_ok_def walk_finish_def Let_def split: option.split)
  have fields: "ip6_final_next_header (ParseIpv6 data) = wk_current_nh w"
    "ip6_payload_offset (ParseIpv6 data) = wk_offset w"
    "ip6_ext_header_count (ParseIpv6 data) = length (wk_visited w)"
    "ip6_header (ParseIpv6 data) = fixed_header data"
    "frag_ok data (declared_payload data) (ParseIpv6 data)"
    using inv frag by (simp_all add: fin(2) walk_finish_def Let_def walk_inv_def)
  have payload: "if wk_current_nh w = Ext_NoNextHeader
     then ip6_payload (ParseIpv6 data) = None \<and> ip6_payload_length (ParseIpv6 data) = 0
     else ip6_payload (ParseIpv6 data) =
            Some (slice (wk_offset w) (ip6_payload_length (ParseIpv6 data)) data) \<and>
          wk_offset w + ip6_payload_length (ParseIpv6 data) = 40 + declared_payload data"
    using inv by (simp add: fin(2) walk_finish_def Let_def walk_inv_def)
  have "ext_chain data (data ! 6) 40 (wk_visited w) (wk_current_nh w) (wk_offset w)"
    "distinct (wk_visited w)" "wk_offset w \<le> 40 + min (declared_payload data) kIpv6MaxExtHeaderBytes"
    using inv by (auto simp: walk_inv_def fixed_header_fields)
  with pre(3) fin(1) payload show ?thesis
    unfolding fields(1-4) using fields(5) by (intro conjI refl exI [of _ "wk_visited w"]) assumption+
qed

definition sample_ipv6 :: bytes where
  "sample_ipv6 = [0x60, 0, 0, 0, 0, 12, 60, 64] @ replicate 16 0xAA @ replicate 16 0xBB @
     [6, 0, 1, 4, 0, 0, 0, 0] @ [1, 2, 3, 4]"

lemma sample_ipv6_parse:
  "ip6_error (ParseIpv6 sample_ipv6) = Ipv6_None \<and>
   ip6_payload (ParseIpv6 sample_ipv6) = Some [1, 2, 3, 4]"
  by code_simp

theorem parse_ipv6_chain_witness:
  "ip6_error (ParseIpv6 sample_ipv6) = Ipv6_None \<and>
   ip6_payload (ParseIpv6 sample_ipv6) = Some [1, 2, 3, 4] \<and>
   \<not> IsExtensionHeader (ip6_final_next_header (ParseIpv6 sample_ipv6))"
  using parse_ipv6_chain [of sample_ipv6] sample_ipv6_parse by blast

text \<open>
  The error \<open>ExtHeaderTooMany\<close> (documented as more than eight extension headers) is never
  reported: the loop detection refuses a repeated header type first, and only four types are
  walked.\<close>

theorem parse_ipv6_never_too_many:
  "ip6_error (ParseIpv6 data) \<noteq> Ipv6_ExtHeaderTooMany"
proof (cases "length data < 40 \<or> drop_bit 4 (data ! 0) \<noteq> 6 \<or> length data < 40 + declared_payload data")
  case True
  then show ?thesis by (auto simp: ParseIpv6_unfold)
next
  case False
  then obtain w where inv: "walk_inv data (declared_payload data) (fixed_header data) w"
    and cases: "walk_step data (declared_payload data) w = Inl (ParseIpv6 data) \<or>
      ParseIpv6 data = walk_finish data (declared_payload data) w"
    using ParseIpv6_end [of data] by (auto simp: not_less)
  have "ip6_error (walk_finish data (declared_payload data) w) = Ipv6_None"
    using inv by (simp add: walk_finish_def Let_def walk_inv_def)
  with cases walk_step_error [OF inv, of "ParseIpv6 data"] show ?thesis by auto
qed

section \<open>A Jumbo Payload option after the first header\<close>





end
