(* ===== verification/Icmp.thy ===== *)
theory Icmp
  imports Ipv4 Ipv6
begin

text \<open>
  ICMP messages: the ICMPv4 and ICMPv6 parsers (\<open>src/ip/icmpv4.*\<close>, \<open>src/ip/icmpv6.*\<close>) and the
  builders of Destination Unreachable and Packet Too Big replies (\<open>src/ip/icmp_unreachable.*\<close>).
  An output pointer is the byte list behind it; a builder returns its result and the list after
  its writes. The original packet and the output do not overlap.
\<close>

section \<open>ICMPv4 parser\<close>

abbreviation (input) Icmpv4_EchoReply :: u8 where "Icmpv4_EchoReply \<equiv> 0"
abbreviation (input) Icmpv4_DestinationUnreachable :: u8 where "Icmpv4_DestinationUnreachable \<equiv> 3"
abbreviation (input) Icmpv4_Echo :: u8 where "Icmpv4_Echo \<equiv> 8"
abbreviation (input) Icmpv4_TimeExceeded :: u8 where "Icmpv4_TimeExceeded \<equiv> 11"
abbreviation (input) Icmpv4_ParameterProblem :: u8 where "Icmpv4_ParameterProblem \<equiv> 12"
abbreviation (input) Icmpv4_FragmentationNeeded :: u8 where "Icmpv4_FragmentationNeeded \<equiv> 4"

record Icmpv4Header =
  ic4_type :: u8
  ic4_code :: u8
  ic4_checksum :: u16
  ic4_id :: u16
  ic4_sequence :: u16
  ic4_mtu :: u16
  ic4_quoted_payload :: "bytes option"

datatype Icmpv4ParseError = Icmpv4_None | Icmpv4_TooShort | Icmpv4_BadChecksum

record Icmpv4ParseResult =
  ic4_error :: Icmpv4ParseError
  ic4_header :: Icmpv4Header
  ic4_checksum_ok :: bool
  ic4_payload :: "bytes option"

definition Icmpv4ParseResult_init :: Icmpv4ParseResult where
  "Icmpv4ParseResult_init =
     \<lparr>ic4_error = Icmpv4_None,
      ic4_header = \<lparr>ic4_type = 0, ic4_code = 0, ic4_checksum = 0, ic4_id = 0, ic4_sequence = 0,
                    ic4_mtu = 0, ic4_quoted_payload = None\<rparr>,
      ic4_checksum_ok = False, ic4_payload = None\<rparr>"

definition ParseIcmpv4 :: "bytes \<Rightarrow> Icmpv4ParseResult" where
  "ParseIcmpv4 data =
     (let result = Icmpv4ParseResult_init in
      if length data < 8 then result\<lparr>ic4_error := Icmpv4_TooShort\<rparr>
      else
        let h = (ic4_header result)\<lparr>ic4_type := data ! 0, ic4_code := data ! 1,
                                    ic4_checksum := rd16 data 2\<rparr>;
            result =
              (if ic4_type h = Icmpv4_Echo \<or> ic4_type h = Icmpv4_EchoReply then
                 result\<lparr>ic4_header := h\<lparr>ic4_id := rd16 data 4, ic4_sequence := rd16 data 6\<rparr>,
                        ic4_payload := Some (drop 8 data)\<rparr>
               else if ic4_type h = Icmpv4_DestinationUnreachable then
                 (let h = (if ic4_code h = Icmpv4_FragmentationNeeded
                           then h\<lparr>ic4_mtu := rd16 data 6\<rparr> else h) in
                  result\<lparr>ic4_header := h\<lparr>ic4_quoted_payload := Some (drop 8 data)\<rparr>\<rparr>)
               else if ic4_type h = Icmpv4_TimeExceeded then
                 result\<lparr>ic4_header := h\<lparr>ic4_quoted_payload := Some (drop 8 data)\<rparr>\<rparr>
               else if ic4_type h = Icmpv4_ParameterProblem then
                 result\<lparr>ic4_header := h\<lparr>ic4_quoted_payload := Some (drop 8 data)\<rparr>\<rparr>
               else result\<lparr>ic4_header := h\<rparr>) in
        result\<lparr>ic4_checksum_ok := (InternetChecksum data 0 = 0)\<rparr>)"

section \<open>ICMPv6 parser\<close>

abbreviation (input) Icmpv6_DestinationUnreachable :: u8 where "Icmpv6_DestinationUnreachable \<equiv> 1"
abbreviation (input) Icmpv6_PacketTooBig :: u8 where "Icmpv6_PacketTooBig \<equiv> 2"
abbreviation (input) Icmpv6_TimeExceeded :: u8 where "Icmpv6_TimeExceeded \<equiv> 3"
abbreviation (input) Icmpv6_ParameterProblem :: u8 where "Icmpv6_ParameterProblem \<equiv> 4"
abbreviation (input) Icmpv6_EchoRequest :: u8 where "Icmpv6_EchoRequest \<equiv> 128"
abbreviation (input) Icmpv6_EchoReply :: u8 where "Icmpv6_EchoReply \<equiv> 129"

record Icmpv6Header =
  ic6_type :: u8
  ic6_code :: u8
  ic6_checksum :: u16
  ic6_mtu :: u32
  ic6_pointer :: u32
  ic6_id :: u16
  ic6_sequence :: u16
  ic6_quoted_payload :: "bytes option"

datatype Icmpv6ParseError = Icmpv6_None | Icmpv6_TooShort

record Icmpv6ParseResult =
  ic6_error :: Icmpv6ParseError
  ic6_header :: Icmpv6Header
  ic6_checksum_ok :: bool
  ic6_payload :: "bytes option"

definition Icmpv6ParseResult_init :: Icmpv6ParseResult where
  "Icmpv6ParseResult_init =
     \<lparr>ic6_error = Icmpv6_None,
      ic6_header = \<lparr>ic6_type = 0, ic6_code = 0, ic6_checksum = 0, ic6_mtu = 0, ic6_pointer = 0,
                    ic6_id = 0, ic6_sequence = 0, ic6_quoted_payload = None\<rparr>,
      ic6_checksum_ok = True, ic6_payload = None\<rparr>"

definition ParseIcmpv6 :: "bytes \<Rightarrow> Icmpv6ParseResult" where
  "ParseIcmpv6 data =
     (let result = Icmpv6ParseResult_init in
      if length data < 8 then result\<lparr>ic6_error := Icmpv6_TooShort\<rparr>
      else
        let h = (ic6_header result)\<lparr>ic6_type := data ! 0, ic6_code := data ! 1,
                                    ic6_checksum := rd16 data 2\<rparr>;
            type = ic6_type h in
        if type = Icmpv6_DestinationUnreachable \<or> type = Icmpv6_TimeExceeded then
          result\<lparr>ic6_header := h\<lparr>ic6_quoted_payload := Some (drop 8 data)\<rparr>\<rparr>
        else if type = Icmpv6_PacketTooBig then
          result\<lparr>ic6_header := h\<lparr>ic6_mtu := rd32 data 4, ic6_quoted_payload := Some (drop 8 data)\<rparr>\<rparr>
        else if type = Icmpv6_ParameterProblem then
          result\<lparr>ic6_header := h\<lparr>ic6_pointer := rd32 data 4, ic6_quoted_payload := Some (drop 8 data)\<rparr>\<rparr>
        else if type = Icmpv6_EchoRequest \<or> type = Icmpv6_EchoReply then
          result\<lparr>ic6_header := h\<lparr>ic6_id := rd16 data 4, ic6_sequence := rd16 data 6\<rparr>,
                 ic6_payload := Some (drop 8 data)\<rparr>
        else result\<lparr>ic6_header := h\<rparr>)"

definition VerifyIcmpv6Checksum :: "bytes \<Rightarrow> bytes \<Rightarrow> bytes \<Rightarrow> bool" where
  "VerifyIcmpv6Checksum data src_ip dst_ip \<longleftrightarrow>
     InternetChecksum data (Ipv6PseudoHeaderSeed src_ip dst_ip 58 (of_nat (length data))) = 0"

section \<open>Builders\<close>

datatype IcmpUnreachableError = Unreach_None | Unreach_InvalidOriginal | Unreach_BufferTooSmall

record IcmpUnreachableResult =
  unr_error :: IcmpUnreachableError
  unr_packet_length :: nat

abbreviation unr_fail :: "IcmpUnreachableError \<Rightarrow> IcmpUnreachableResult" where
  "unr_fail e \<equiv> \<lparr>unr_error = e, unr_packet_length = 0\<rparr>"

definition kMaxQuoteBytes :: nat where
  "kMaxQuoteBytes = 8"

text \<open>The ICMP message at \<open>icmp = output + 20\<close>, then the IPv4 header in front of it.\<close>

definition icmpv4_message :: "bytes \<Rightarrow> nat \<Rightarrow> u8 \<Rightarrow> u16 \<Rightarrow> bytes \<Rightarrow> bytes" where
  "icmpv4_message original quoted code mtu output =
     (let icmp_length = 8 + quoted;
          output = output[20 := 3, 21 := code];
          output = Write16 22 0 output;
          output = (if code = Icmpv4_FragmentationNeeded
                    then Write16 26 mtu (Write16 24 0 output) else Write32 24 0 output);
          output = memcpy_at 28 (take quoted original) output in
      Write16 22 (InternetChecksum (slice 20 icmp_length output) 0) output)"

definition icmpv4_ip_header :: "bytes \<Rightarrow> nat \<Rightarrow> u8 \<Rightarrow> bytes \<Rightarrow> bytes" where
  "icmpv4_ip_header original packet_length hop_limit output =
     (let output = output[0 := 0x45, 1 := 0];
          output = Write16 2 (of_nat packet_length) output;
          output = Write16 4 0 output;
          output = Write16 6 0 output;
          output = output[8 := hop_limit, 9 := 1];
          output = Write16 10 0 output;
          output = memcpy_at 12 (slice 16 4 original) output;
          output = memcpy_at 16 (slice 12 4 original) output in
      Write16 10 (InternetChecksum (slice 0 20 output) 0) output)"

definition BuildIcmpv4Unreachable ::
    "bytes option \<Rightarrow> u8 \<Rightarrow> u16 \<Rightarrow> bytes option \<Rightarrow> u8 \<Rightarrow> IcmpUnreachableResult \<times> bytes option" where
  "BuildIcmpv4Unreachable original code mtu output hop_limit =
     (case (original, output) of
        (Some orig, Some out) \<Rightarrow>
          if length orig < 20 then (unr_fail Unreach_InvalidOriginal, output)
          else if drop_bit 4 (orig ! 0) \<noteq> 4 then (unr_fail Unreach_InvalidOriginal, output)
          else
            let header_length = unat (orig ! 0 AND 0x0F) * 4 in
            if header_length < 20 \<or> header_length > length orig
            then (unr_fail Unreach_InvalidOriginal, output)
            else
              let quoted = header_length + min kMaxQuoteBytes (length orig - header_length);
                  icmp_length = 8 + quoted;
                  packet_length = 20 + icmp_length in
              if length out < packet_length then (unr_fail Unreach_BufferTooSmall, output)
              else
                (\<lparr>unr_error = Unreach_None, unr_packet_length = packet_length\<rparr>,
                 Some (icmpv4_ip_header orig packet_length hop_limit
                         (icmpv4_message orig quoted code mtu out)))
      | _ \<Rightarrow> (unr_fail Unreach_InvalidOriginal, output))"

text \<open>
  \<open>BuildIcmpv6Unreachable\<close> and \<open>BuildIcmpv6PacketTooBig\<close> perform the same writes and differ in
  the type, the code and the word after the checksum only.
\<close>

definition icmpv6_packet :: "bytes \<Rightarrow> nat \<Rightarrow> u8 \<Rightarrow> u8 \<Rightarrow> u32 \<Rightarrow> u8 \<Rightarrow> bytes \<Rightarrow> bytes" where
  "icmpv6_packet original quoted type code word hop_limit output =
     (let icmp_length = 8 + quoted;
          output = output[40 := type, 41 := code];
          output = Write16 42 0 output;
          output = Write32 44 word output;
          output = memcpy_at 48 (take quoted original) output;
          seed = Ipv6PseudoHeaderSeed (slice 24 16 original) (slice 8 16 original) 58
                   (of_nat icmp_length);
          output = Write16 42 (InternetChecksum (slice 40 icmp_length output) seed) output;
          output = output[0 := 0x60];
          output = Write16 4 (of_nat icmp_length) output;
          output = output[6 := 58, 7 := hop_limit];
          output = memcpy_at 8 (slice 24 16 original) output in
      memcpy_at 24 (slice 8 16 original) output)"

definition build_icmpv6 ::
    "bytes option \<Rightarrow> u8 \<Rightarrow> u8 \<Rightarrow> u32 \<Rightarrow> bytes option \<Rightarrow> u8 \<Rightarrow> IcmpUnreachableResult \<times> bytes option" where
  "build_icmpv6 original type code word output hop_limit =
     (case (original, output) of
        (Some orig, Some out) \<Rightarrow>
          if length orig < 40 then (unr_fail Unreach_InvalidOriginal, output)
          else if drop_bit 4 (orig ! 0) \<noteq> 6 then (unr_fail Unreach_InvalidOriginal, output)
          else
            let quoted = 40 + min kMaxQuoteBytes (length orig - 40);
                icmp_length = 8 + quoted;
                packet_length = 40 + icmp_length in
            if length out < packet_length then (unr_fail Unreach_BufferTooSmall, output)
            else (\<lparr>unr_error = Unreach_None, unr_packet_length = packet_length\<rparr>,
                  Some (icmpv6_packet orig quoted type code word hop_limit out))
      | _ \<Rightarrow> (unr_fail Unreach_InvalidOriginal, output))"

definition BuildIcmpv6Unreachable ::
    "bytes option \<Rightarrow> u8 \<Rightarrow> bytes option \<Rightarrow> u8 \<Rightarrow> IcmpUnreachableResult \<times> bytes option" where
  "BuildIcmpv6Unreachable original code output hop_limit =
     build_icmpv6 original Icmpv6_DestinationUnreachable code 0 output hop_limit"

definition BuildIcmpv6PacketTooBig ::
    "bytes option \<Rightarrow> u32 \<Rightarrow> bytes option \<Rightarrow> u8 \<Rightarrow> IcmpUnreachableResult \<times> bytes option" where
  "BuildIcmpv6PacketTooBig original mtu output hop_limit =
     build_icmpv6 original Icmpv6_PacketTooBig 0 mtu output hop_limit"

section \<open>The messages\<close>

lemma icmpv4_message_slice:
  fixes code :: u8 and mtu :: u16
  assumes "28 + quoted \<le> length out" "quoted \<le> length original"
  defines "icmp \<equiv> slice 20 (8 + quoted) (icmpv4_message original quoted code mtu out)"
  shows "length (icmpv4_message original quoted code mtu out) = length out"
    "icmp ! 0 = 3" "icmp ! 1 = code" "code = Icmpv4_FragmentationNeeded \<Longrightarrow> rd16 icmp 6 = mtu"
    "drop 8 icmp = take quoted original" "length icmp = 8 + quoted"
    "drop (28 + quoted) (icmpv4_message original quoted code mtu out) = drop (28 + quoted) out"
  using assms(1,2) by (auto simp: icmp_def icmpv4_message_def Let_def buffer_simps)

lemma icmpv4_message_checksum:
  assumes "28 + quoted \<le> length out" "quoted \<le> length original" "quoted \<le> 68"
  shows "InternetChecksum (slice 20 (8 + quoted) (icmpv4_message original quoted code mtu out)) 0 = 0"
proof -
  define o1 where "o1 = memcpy_at 28 (take quoted original)
    (if code = Icmpv4_FragmentationNeeded
     then Write16 26 mtu (Write16 24 0 (Write16 22 0 (out[20 := 3, 21 := code])))
     else Write32 24 0 (Write16 22 0 (out[20 := 3, 21 := code])))"
  have len: "length o1 = length out" using assms by (simp add: o1_def buffer_simps)
  have zero: "rd16 (slice 20 (8 + quoted) o1) 2 = 0"
    using assms by (simp add: o1_def buffer_simps)
  have msg: "icmpv4_message original quoted code mtu out =
    memcpy_at (20 + 2) (be16_bytes (InternetChecksum (slice 20 (8 + quoted) o1) 0)) o1"
    using assms len unfolding icmpv4_message_def Let_def o1_def [symmetric]
    by (simp add: Write16_memcpy_at)
  show ?thesis
    unfolding msg using assms len zero by (intro inet.window_verifies small_fits) simp_all
qed

lemma icmpv4_ip_header_fields:
  fixes n :: nat and hop_limit :: u8
  assumes "20 \<le> length out" "20 \<le> length original"
  defines "o2 \<equiv> icmpv4_ip_header original n hop_limit out"
  shows "length o2 = length out" "drop 20 o2 = drop 20 out" "o2 ! 0 = 0x45" "rd16 o2 2 = of_nat n"
    "rd16 o2 6 = 0" "o2 ! 8 = hop_limit" "o2 ! 9 = 1" "slice 12 4 o2 = slice 16 4 original"
    "slice 16 4 o2 = slice 12 4 original"
  using assms(1,2) nonempty_if_long(1) [OF assms(1)]
  by (auto simp: o2_def icmpv4_ip_header_def Let_def buffer_simps)

lemma icmpv4_ip_header_checksum:
  assumes "20 \<le> length out" "20 \<le> length original"
  shows "InternetChecksum (take 20 (icmpv4_ip_header original n hop_limit out)) 0 = 0"
proof -
  define o1 where "o1 = memcpy_at 16 (slice 12 4 original) (memcpy_at 12 (slice 16 4 original)
    (Write16 10 0 ((Write16 6 0 (Write16 4 0 (Write16 2 (of_nat n) (out[0 := 0x45, 1 := 0]))))
      [8 := hop_limit, 9 := 1])))"
  have len: "length o1 = length out" using assms by (simp add: o1_def buffer_simps)
  have zero: "rd16 (slice 0 20 o1) 10 = 0" using assms by (simp add: o1_def buffer_simps)
  have hdr: "icmpv4_ip_header original n hop_limit out =
    memcpy_at (0 + 10) (be16_bytes (InternetChecksum (slice 0 20 o1) 0)) o1"
    using assms len unfolding icmpv4_ip_header_def Let_def o1_def [symmetric]
    by (simp add: Write16_memcpy_at)
  show ?thesis
    unfolding hdr slice_0 [symmetric]
    using assms len zero by (intro inet.window_verifies small_fits) simp_all
qed

lemma icmpv6_packet_fields:
  fixes type code :: u8 and word :: u32 and hop_limit :: u8
  assumes "48 + quoted \<le> length out" "40 \<le> length original" "quoted \<le> length original"
  defines "o2 \<equiv> icmpv6_packet original quoted type code word hop_limit out"
  shows "length o2 = length out" "drop (48 + quoted) o2 = drop (48 + quoted) out" "o2 ! 0 = 0x60"
    "slice 1 3 o2 = slice 1 3 out" "rd16 o2 4 = of_nat (8 + quoted)" "o2 ! 6 = 58" "o2 ! 7 = hop_limit"
    "slice 8 16 o2 = slice 24 16 original" "slice 24 16 o2 = slice 8 16 original"
    "o2 ! 40 = type" "o2 ! 41 = code" "rd32 o2 44 = word"
    "drop 8 (slice 40 (8 + quoted) o2) = take quoted original"
  using assms(1-3) nonempty_if_long(2) [OF assms(1)]
  by (auto simp: o2_def icmpv6_packet_def Let_def buffer_simps)

lemma icmpv6_packet_checksum:
  assumes "48 + quoted \<le> length out" "40 \<le> length original" "quoted \<le> length original" "quoted \<le> 48"
  shows "VerifyIcmpv6Checksum
    (slice 40 (8 + quoted) (icmpv6_packet original quoted type code word hop_limit out))
    (slice 24 16 original) (slice 8 16 original)"
proof -
  define o1 where "o1 = memcpy_at 48 (take quoted original)
    (Write32 44 word (Write16 42 0 (out[40 := type, 41 := code])))"
  define seed where "seed = Ipv6PseudoHeaderSeed (slice 24 16 original) (slice 8 16 original) 58
    (of_nat (8 + quoted))"
  have len: "length o1 = length out" using assms by (simp add: o1_def buffer_simps)
  have zero: "rd16 (slice 40 (8 + quoted) o1) 2 = 0" using assms by (simp add: o1_def buffer_simps)
  have msg: "slice 40 (8 + quoted) (icmpv6_packet original quoted type code word hop_limit out) =
    slice 40 (8 + quoted)
      (memcpy_at (40 + 2) (be16_bytes (InternetChecksum (slice 40 (8 + quoted) o1) seed)) o1)"
    using assms len unfolding icmpv6_packet_def Let_def o1_def [symmetric] seed_def [symmetric]
    by (simp add: buffer_simps)
  have "unat seed \<le> 65535 * 20"
    unfolding seed_def
    by (subst unat_Ipv6PseudoHeaderSeed)
      (use assms bsum_bound [of "pseudo6 (slice 24 16 original) (slice 8 16 original) 58 (of_nat (8 + quoted))"]
       in \<open>simp_all add: pseudo6_def\<close>)
  moreover have "bsum (slice 40 (8 + quoted) o1) \<le> 65535 * 28"
    using bsum_bound_mono [of "slice 40 (8 + quoted) o1" 56] assms len by simp
  ultimately have "unat seed + bsum (slice 40 (8 + quoted) o1) + 65535 < 2 ^ 32" by simp
  then have "InternetChecksum (slice 40 (8 + quoted)
      (memcpy_at (40 + 2) (be16_bytes (InternetChecksum (slice 40 (8 + quoted) o1) seed)) o1)) seed = 0"
    using assms len zero by (intro inet.window_verifies) simp_all
  then show ?thesis
    using assms len by (simp add: VerifyIcmpv6Checksum_def msg seed_def)
qed

section \<open>Replies are valid packets\<close>

lemma ParseIcmpv4_unreachable:
  assumes "8 \<le> length m" "m ! 0 = Icmpv4_DestinationUnreachable"
  shows "ic4_error (ParseIcmpv4 m) = Icmpv4_None" "ic4_type (ic4_header (ParseIcmpv4 m)) = 3"
    "ic4_code (ic4_header (ParseIcmpv4 m)) = m ! 1"
    "m ! 1 = 4 \<Longrightarrow> ic4_mtu (ic4_header (ParseIcmpv4 m)) = rd16 m 6"
    "ic4_quoted_payload (ic4_header (ParseIcmpv4 m)) = Some (drop 8 m)"
    "ic4_checksum_ok (ParseIcmpv4 m) = (InternetChecksum m 0 = 0)"
  using assms by (simp_all add: ParseIcmpv4_def Let_def Icmpv4ParseResult_init_def)

lemma BuildIcmpv4Unreachable_ok:
  assumes "BuildIcmpv4Unreachable (Some orig) code mtu (Some out) hop_limit = (r, Some out')"
    "unr_error r = Unreach_None"
  shows "\<exists>quoted. 20 \<le> quoted \<and> quoted \<le> 68 \<and> quoted \<le> length orig \<and> unr_packet_length r = 28 + quoted \<and>
    28 + quoted \<le> length out \<and> 20 \<le> length orig \<and>
    quoted = unat (orig ! 0 AND 0x0F) * 4 + min 8 (length orig - unat (orig ! 0 AND 0x0F) * 4) \<and>
    out' = icmpv4_ip_header orig (28 + quoted) hop_limit (icmpv4_message orig quoted code mtu out)"
proof -
  have "orig ! 0 AND 0x0F \<le> 0x0F" by (rule word_and_le1)
  then have "unat (orig ! 0 AND 0x0F) \<le> 15" by (simp add: word_le_nat_alt)
  then show ?thesis using assms
    by (auto simp: BuildIcmpv4Unreachable_def Let_def kMaxQuoteBytes_def split: if_splits)
qed

text \<open>
  C29: Whatever the original packet and the output buffer hold, a reply that
  \<open>BuildIcmpv4Unreachable\<close> reports as built is accepted by the IPv4 and ICMPv4 parsers with both
  checksums right, travels from the original destination to the original source with the
  requested TTL, has the requested code (and next-hop MTU for code 4), quotes the original header
  and at most 8 bytes after it, and leaves the buffer behind the reply untouched.\<close>

theorem icmpv4_unreachable_valid:
  assumes "BuildIcmpv4Unreachable (Some orig) code mtu (Some out) hop_limit = (r, Some out')"
    "unr_error r = Unreach_None"
  shows "let p = ParseIpv4 (take (unr_packet_length r) out'); h = ip4_header p;
             m = ParseIcmpv4 (the (ip4_payload p)) in
     ip4_error p = Ipv4_None \<and> ip4_checksum_ok p \<and> ip4_protocol h = 1 \<and> ip4_ttl h = hop_limit \<and>
     ip4_src_ip h = slice 16 4 orig \<and> ip4_dst_ip h = slice 12 4 orig \<and>
     ic4_error m = Icmpv4_None \<and> ic4_checksum_ok m \<and> ic4_type (ic4_header m) = 3 \<and>
     ic4_code (ic4_header m) = code \<and> (code = 4 \<longrightarrow> ic4_mtu (ic4_header m) = mtu) \<and>
     ic4_quoted_payload (ic4_header m) =
       Some (take (unat (orig ! 0 AND 0x0F) * 4 + 8) orig) \<and>
     drop (unr_packet_length r) out' = drop (unr_packet_length r) out"
proof -
  from BuildIcmpv4Unreachable_ok [OF assms] obtain q where q: "20 \<le> q" "q \<le> 68" "q \<le> length orig"
    "unr_packet_length r = 28 + q" "28 + q \<le> length out" "20 \<le> length orig"
    and qdef: "q = unat (orig ! 0 AND 0x0F) * 4 + min 8 (length orig - unat (orig ! 0 AND 0x0F) * 4)"
    and out': "out' = icmpv4_ip_header orig (28 + q) hop_limit (icmpv4_message orig q code mtu out)"
    by blast
  let ?o1 = "icmpv4_message orig q code mtu out" and ?p = "take (28 + q) out'"
  note msg = icmpv4_message_slice [OF q(5,3), of code mtu]
  have o1: "20 \<le> length ?o1" using msg(1) q by simp
  note hdr = icmpv4_ip_header_fields [OF o1 q(6), of "28 + q" hop_limit, folded out']
  have len: "length ?p = 28 + q" using hdr(1) msg(1) q by simp
  have total: "unat (rd16 ?p 2) = 28 + q" using hdr(4) q unat_of_nat_u16 [of "28 + q"] by (simp add: rd16_take del: of_nat_add)
  have wf: "ipv4_wellformed ?p"
    using total len hdr(3) by (simp add: ipv4_wellformed_def)
  have icmp: "slice 20 (8 + q) ?p = slice 20 (8 + q) ?o1"
    using slice_take [of 20 "8 + q" "28 + q" out'] hdr(2) by (simp add: slice_def)
  note parse = ParseIpv4_wellformed [OF wf]
  have payload: "the (ip4_payload (ParseIpv4 ?p)) = slice 20 (8 + q) ?o1"
    using total hdr(3) by (simp add: parse icmp)
  have ck: "ip4_checksum_ok (ParseIpv4 ?p)"
    using icmpv4_ip_header_checksum [OF o1 q(6), of "28 + q" hop_limit, folded out'] hdr(3)
    by (simp add: parse)
  have ttl: "ip4_ttl (ip4_header (ParseIpv4 ?p)) = hop_limit"
    using hdr(6) by (simp add: parse)
  have quote: "take (unat (orig ! 0 AND 0x0F) * 4 + 8) orig = take q orig"
    unfolding qdef by (auto simp: min_def)
  have rest: "drop (28 + q) out' = drop (28 + q) out"
    using arg_cong [OF hdr(2), of "drop (8 + q)"] msg(7) by (simp add: add.commute)
  have "8 \<le> length (slice 20 (8 + q) ?o1)" using msg(6) by simp
  note m = ParseIcmpv4_unreachable [OF this msg(2), unfolded msg(3)]
  show ?thesis
    using hdr(7,8,9) q(4) ck ttl rest m(4) msg(4)
    by (auto simp: Let_def ParseIpv4_error_iff wf payload m(1,2,3,5,6) msg(5) quote parse(6,7,8)
        slice_take icmpv4_message_checksum [OF q(5,3,2)])
qed

definition sample_ipv4 :: bytes where
  "sample_ipv4 = [0x45, 0, 0, 30, 0, 0, 0, 0, 64, 17, 0, 0, 10, 0, 0, 1, 10, 0, 0, 2] @ [1, 2, 3, 4, 5, 6, 7, 8, 9, 10]"

theorem icmpv4_unreachable_valid_witness:
  "unr_error (fst (BuildIcmpv4Unreachable (Some sample_ipv4) 4 1400 (Some (replicate 60 0xEE)) 64)) =
     Unreach_None \<and>
   ip4_error (ParseIpv4 (take 56 (the (snd (BuildIcmpv4Unreachable (Some sample_ipv4) 4 1400
     (Some (replicate 60 0xEE)) 64))))) = Ipv4_None"
proof -
  let ?b = "BuildIcmpv4Unreachable (Some sample_ipv4) 4 1400 (Some (replicate 60 0xEE)) 64"
  have b: "unr_error (fst ?b) = Unreach_None" "unr_packet_length (fst ?b) = 56" "snd ?b \<noteq> None"
    by (simp_all add: BuildIcmpv4Unreachable_def sample_ipv4_def Let_def kMaxQuoteBytes_def)
  then have "?b = (fst ?b, Some (the (snd ?b)))" by (simp add: prod_eq_iff)
  from icmpv4_unreachable_valid [OF this b(1)] b show ?thesis by (simp add: Let_def)
qed

lemma ParseIcmpv6_error_message:
  assumes "8 \<le> length m" "m ! 0 = Icmpv6_DestinationUnreachable \<or> m ! 0 = Icmpv6_PacketTooBig"
  shows "ic6_error (ParseIcmpv6 m) = Icmpv6_None" "ic6_type (ic6_header (ParseIcmpv6 m)) = m ! 0"
    "ic6_code (ic6_header (ParseIcmpv6 m)) = m ! 1"
    "m ! 0 = Icmpv6_PacketTooBig \<Longrightarrow> ic6_mtu (ic6_header (ParseIcmpv6 m)) = rd32 m 4"
    "ic6_quoted_payload (ic6_header (ParseIcmpv6 m)) = Some (drop 8 m)"
  using assms by (auto simp: ParseIcmpv6_def Let_def Icmpv6ParseResult_init_def)

text \<open>A reply of either ICMPv6 builder is a valid packet with the fields it was asked for.\<close>

definition icmpv6_reply_ok :: "bytes \<Rightarrow> u8 \<Rightarrow> u8 \<Rightarrow> u32 \<Rightarrow> u8 \<Rightarrow> bytes \<Rightarrow> bool" where
  "icmpv6_reply_ok orig type code word hop_limit packet \<longleftrightarrow>
     (let p = ParseIpv6 packet; h = ip6_header p; d = the (ip6_payload p); m = ParseIcmpv6 d in
      ip6_error p = Ipv6_None \<and> ip6_final_next_header p = 58 \<and> ip6_hop_limit h = hop_limit \<and>
      ip6_src_ip h = slice 24 16 orig \<and> ip6_dst_ip h = slice 8 16 orig \<and>
      VerifyIcmpv6Checksum d (ip6_src_ip h) (ip6_dst_ip h) \<and> ic6_error m = Icmpv6_None \<and>
      ic6_type (ic6_header m) = type \<and> ic6_code (ic6_header m) = code \<and>
      (type = Icmpv6_PacketTooBig \<longrightarrow> ic6_mtu (ic6_header m) = word) \<and>
      ic6_quoted_payload (ic6_header m) = Some (take 48 orig))"

lemma build_icmpv6_valid:
  assumes "build_icmpv6 (Some orig) type code word (Some out) hop_limit = (r, Some out')"
    "unr_error r = Unreach_None" "type = Icmpv6_DestinationUnreachable \<or> type = Icmpv6_PacketTooBig"
  shows "icmpv6_reply_ok orig type code word hop_limit (take (unr_packet_length r) out') \<and>
    drop (unr_packet_length r) out' = drop (unr_packet_length r) out \<and>
    slice 1 3 out' = slice 1 3 out"
proof -
  define q where "q = 40 + min 8 (length orig - 40)"
  have q: "q = 40 + min 8 (length orig - 40)" "40 \<le> length orig"
    "unr_packet_length r = 48 + q" "48 + q \<le> length out"
    and out': "out' = icmpv6_packet orig q type code word hop_limit out"
    using assms(1,2) unfolding build_icmpv6_def Let_def kMaxQuoteBytes_def q_def [symmetric]
    by (simp_all add: q_def [symmetric] split: if_splits) auto
  have q': "q \<le> length orig" "q \<le> 48" "40 \<le> q" using q by auto
  let ?p = "take (48 + q) out'" and ?m = "slice 40 (8 + q) out'"
  note f = icmpv6_packet_fields [OF q(4,2) q'(1), of type code word hop_limit, folded out']
  have len: "length ?p = 48 + q" using f(1) q by simp
  have plen: "unat (rd16 ?p 4) = 8 + q"
    using f(5) q' unat_of_nat_u16 [of "8 + q"] by (simp add: rd16_take del: of_nat_add)
  have ne: "rd16 ?p 4 \<noteq> 0" using plen by auto
  have p6: "40 \<le> length ?p" "drop_bit 4 (?p ! 0) = 6" "40 + unat (rd16 ?p 4) \<le> length ?p"
      "\<not> IsExtensionHeader (?p ! 6)" "?p ! 6 \<noteq> Ext_NoNextHeader"
    using len plen f(3,6) by (simp_all add: IsExtensionHeader_def)
  note parse = ParseIpv6_no_ext [OF p6(1,2) ne p6(3,4,5)]
  have payload: "ip6_payload (ParseIpv6 ?p) = Some ?m"
    using plen slice_take [of 40 "8 + q" "48 + q" out'] by (simp add: parse)
  have m: "?m ! 0 = type" "?m ! 1 = code" "rd32 ?m 4 = word" "8 \<le> length ?m"
    using f(1,10,11,12) q by (simp_all add: nth_slice rd32_slice)
  note icmp = ParseIcmpv6_error_message [OF m(4), unfolded m(1), OF assms(3)]
  have hdr: "ip6_hop_limit (fixed_header ?p) = hop_limit"
    "ip6_src_ip (fixed_header ?p) = slice 24 16 orig" "ip6_dst_ip (fixed_header ?p) = slice 8 16 orig"
    using f(7,8,9) by (simp_all add: fixed_header_def read_fixed_header_def slice_take)
  have quote: "take 48 orig = take q orig" using q by (auto simp: min_def)
  have "icmpv6_reply_ok orig type code word hop_limit ?p"
    unfolding icmpv6_reply_ok_def Let_def payload option.sel parse(1,2,3) hdr icmp(1-3,5) m(2) quote f(13)
    using icmp(4) m(3) f(6) icmpv6_packet_checksum [OF q(4,2) q'(1,2), of type code word hop_limit, folded out']
    by simp
  then show ?thesis using f(2,4) q(3) by simp
qed

text \<open>
  C30: The ICMPv6 replies of \<open>BuildIcmpv6Unreachable\<close> and \<open>BuildIcmpv6PacketTooBig\<close> parse as IPv6
  and ICMPv6, verify with the pseudo-header checksum of the swapped addresses, carry the
  requested code or MTU and quote the original header and at most 8 bytes after it. They keep,
  however, whatever the output buffer held in bytes 1 to 3, which are part of the traffic class
  and of the flow label.\<close>

theorem icmpv6_replies_valid:
  "(case BuildIcmpv6Unreachable (Some orig) code (Some out) hop_limit of
      (r, out') \<Rightarrow> unr_error r = Unreach_None \<longrightarrow>
        icmpv6_reply_ok orig 1 code 0 hop_limit (take (unr_packet_length r) (the out')) \<and>
        slice 1 3 (the out') = slice 1 3 out) \<and>
   (case BuildIcmpv6PacketTooBig (Some orig) mtu (Some out) hop_limit of
      (r, out') \<Rightarrow> unr_error r = Unreach_None \<longrightarrow>
        icmpv6_reply_ok orig 2 0 mtu hop_limit (take (unr_packet_length r) (the out')) \<and>
        slice 1 3 (the out') = slice 1 3 out)"
proof -
  have some: "\<exists>out'. build_icmpv6 (Some orig) type code word (Some out) hop_limit = (r, Some out')"
    if "build_icmpv6 (Some orig) type code word (Some out) hop_limit = (r, o')" for r type code word o'
    using that by (auto simp: build_icmpv6_def Let_def split: if_splits)
  show ?thesis
    using some build_icmpv6_valid [of orig 1 code 0 out hop_limit]
      build_icmpv6_valid [of orig 2 0 mtu out hop_limit]
    by (fastforce simp: BuildIcmpv6Unreachable_def BuildIcmpv6PacketTooBig_def)
qed

theorem icmpv6_replies_valid_witness:
  "case BuildIcmpv6PacketTooBig (Some sample_ipv6) 1280 (Some (replicate 128 7)) 64 of
     (r, out') \<Rightarrow> unr_error r = Unreach_None \<and>
       icmpv6_reply_ok sample_ipv6 2 0 1280 64 (take (unr_packet_length r) (the out')) \<and>
       slice 1 3 (the out') = [7, 7, 7]"
proof -
  have "unr_error (fst (BuildIcmpv6PacketTooBig (Some sample_ipv6) 1280 (Some (replicate 128 7)) 64)) =
      Unreach_None"
    by (simp add: BuildIcmpv6PacketTooBig_def build_icmpv6_def sample_ipv6_def Let_def kMaxQuoteBytes_def)
  moreover have "slice 1 3 (replicate 128 (7::u8)) = [7, 7, 7]"
    by (simp add: slice_def numeral_3_eq_3)
  ultimately show ?thesis
    using icmpv6_replies_valid [where orig = sample_ipv6 and out = "replicate 128 7" and hop_limit = 64
        and mtu = 1280] by (auto split: prod.splits)
qed

end
