(* ===== verification/Machine.thy ===== *)
theory Machine
  imports NetPrelude
begin

text \<open>
  Two interfaces that several components share. A \<open>machine\<close> is a component driven by a sequence
  of operations that all keep an invariant; what holds of one operation then holds of every
  history. The second part has the lemmas about vectors of entries with a key, searched linearly,
  that the bounded caches and tables use.
\<close>

section \<open>Histories of operations\<close>

definition run :: "('op \<Rightarrow> 's \<Rightarrow> 's) \<Rightarrow> 'op list \<Rightarrow> 's \<Rightarrow> 's" where
  "run step ops s = fold step ops s"

lemma run_simps [simp]:
  "run step [] s = s" "run step (op # ops) s = run step ops (step op s)"
  "run step (ops @ [op]) s = step op (run step ops s)"
  by (simp_all add: run_def)

locale guarded_machine =
  fixes step :: "'op \<Rightarrow> 's \<Rightarrow> 's"
    and good :: "'op \<Rightarrow> bool"
    and inv :: "'s \<Rightarrow> bool"
  assumes good_step_inv: "good op \<Longrightarrow> inv s \<Longrightarrow> inv (step op s)"
begin

lemma good_run_inv: "list_all good ops \<Longrightarrow> inv s \<Longrightarrow> inv (run step ops s)"
  by (induction ops arbitrary: s) (simp_all add: good_step_inv)

end

locale machine =
  fixes step :: "'op \<Rightarrow> 's \<Rightarrow> 's"
    and inv :: "'s \<Rightarrow> bool"
  assumes step_inv: "inv s \<Longrightarrow> inv (step op s)"

sublocale machine \<subseteq> guarded_machine step "\<lambda>_. True" inv
  by unfold_locales (rule step_inv)

context machine
begin

lemma run_inv: "inv s \<Longrightarrow> inv (run step ops s)"
  by (rule good_run_inv) (simp_all add: list_all_iff)

end

text \<open>The same for a step relation: an invariant of every step holds in every reachable state.\<close>

locale reachable =
  fixes step :: "'s \<Rightarrow> 's \<Rightarrow> bool"
    and inv :: "'s \<Rightarrow> bool"
  assumes step_keeps: "step s s' \<Longrightarrow> inv s \<Longrightarrow> inv s'"
begin

lemma reaches_inv: "step\<^sup>*\<^sup>* s s' \<Longrightarrow> inv s \<Longrightarrow> inv s'"
  by (induction rule: rtranclp_induct) (auto intro: step_keeps)

end

text \<open>
  A machine with observable outputs related to an abstract machine by a simulation: the outputs of
  a whole history agree.
\<close>

locale simulation = machine step inv
  for step :: "'op \<Rightarrow> 's \<Rightarrow> 's" and inv +
  fixes astep :: "'op \<Rightarrow> 'a \<Rightarrow> 'a"
    and abs :: "'s \<Rightarrow> 'a"
  assumes step_abs: "inv s \<Longrightarrow> abs (step op s) = astep op (abs s)"
begin

lemma run_abs: "inv s \<Longrightarrow> abs (run step ops s) = run astep ops (abs s)"
  by (induction ops arbitrary: s) (simp_all add: step_abs step_inv)

end

section \<open>Entries with a key\<close>

text \<open>\<open>v.erase(v.begin() + i)\<close> and the index of the first entry that satisfies a test.\<close>

definition erase_at :: "nat \<Rightarrow> 'e list \<Rightarrow> 'e list" where
  "erase_at i xs = take i xs @ drop (Suc i) xs"

definition find_index :: "('e \<Rightarrow> bool) \<Rightarrow> 'e list \<Rightarrow> nat option" where
  "find_index test xs = find (\<lambda>i. test (xs ! i)) [0..<length xs]"

lemma find_index_Some:
  "find_index test xs = Some i \<longleftrightarrow> i < length xs \<and> test (xs ! i) \<and> (\<forall>j<i. \<not> test (xs ! j))"
  by (auto simp: find_index_def find_Some_iff)

lemma find_index_None: "find_index test xs = None \<longleftrightarrow> (\<forall>x\<in>set xs. \<not> test x)"
  by (fastforce simp: find_index_def find_None_iff in_set_conv_nth)

lemma length_erase_at: "i < length xs \<Longrightarrow> length (erase_at i xs) = length xs - 1"
  by (simp add: erase_at_def)

lemma set_erase_at: "set (erase_at i xs) \<subseteq> set xs"
  using set_take_subset [of i xs] set_drop_subset [of "Suc i" xs] by (auto simp: erase_at_def)

lemma distinct_erase_at:
  assumes "distinct (map key xs)"
  shows "distinct (map key (erase_at i xs))"
proof (cases "i < length xs")
  case True
  have "distinct (map key (take i xs @ xs ! i # drop (Suc i) xs))"
    using assms by (simp only: id_take_nth_drop [OF True, symmetric])
  then show ?thesis by (auto simp: erase_at_def)
qed (use assms in \<open>simp add: erase_at_def\<close>)

lemma map_erase_at: "map f (erase_at i xs) = erase_at i (map f xs)"
  by (simp add: erase_at_def take_map drop_map)

lemma distinct_map_key_unique:
  "distinct (map key xs) \<Longrightarrow> x \<in> set xs \<Longrightarrow> y \<in> set xs \<Longrightarrow> key x = key y \<Longrightarrow> x = y"
  by (auto simp: distinct_map inj_on_def)

lemma find_key_distinct:
  "distinct (map key xs) \<Longrightarrow> x \<in> set xs \<Longrightarrow> find (\<lambda>e. key e = key x) xs = Some x"
  by (induction xs) (auto simp: image_iff)

lemma find_map_upd_same:
  "distinct (map key xs) \<Longrightarrow> i < length xs \<Longrightarrow> key y = key (xs ! i) \<Longrightarrow>
     find (\<lambda>e. key e = key y) (xs[i := y]) = Some y"
proof (induction xs arbitrary: i)
  case (Cons x xs)
  then show ?case by (cases i) auto
qed simp

lemma map_key_upd: "i < length xs \<Longrightarrow> key y = key (xs ! i) \<Longrightarrow> map key (xs[i := y]) = map key xs"
  by (simp add: map_update list_update_same_conv)

lemma find_map_upd_other:
  "key y \<noteq> k \<Longrightarrow> key y = key (xs ! i) \<Longrightarrow>
     find (\<lambda>e. key e = k) (xs[i := y]) = find (\<lambda>e. key e = k) xs"
proof (induction xs arbitrary: i)
  case (Cons x xs)
  then show ?case by (cases i) auto
qed simp

lemma find_append: "find P (xs @ ys) = (case find P xs of None \<Rightarrow> find P ys | Some x \<Rightarrow> Some x)"
  by (induction xs) auto

lemma find_filter_other: "(\<And>x. P x \<Longrightarrow> Q x) \<Longrightarrow> find P (filter Q xs) = find P xs"
  by (induction xs) auto

lemma erase_at_simps:
  "erase_at i [] = []" "erase_at 0 (x # xs) = xs" "erase_at (Suc i) (x # xs) = x # erase_at i xs"
  by (simp_all add: erase_at_def)

lemma find_erase_at:
  "distinct (map key xs) \<Longrightarrow> i < length xs \<Longrightarrow>
     find (\<lambda>e. key e = k) (erase_at i xs) =
       (if k = key (xs ! i) then None else find (\<lambda>e. key e = k) xs)"
proof (induction xs arbitrary: i)
  case (Cons x xs)
  show ?case
  proof (cases i)
    case 0
    with Cons.prems show ?thesis by (auto simp: erase_at_simps find_None_iff image_iff)
  next
    case (Suc n)
    with Cons.prems Cons.IH [of n] show ?thesis by (auto simp: erase_at_simps)
  qed
qed simp

lemma find_filter_distinct:
  "distinct (map key xs) \<Longrightarrow> find (\<lambda>e. key e = k) (filter Q xs) =
     (case find (\<lambda>e. key e = k) xs of None \<Rightarrow> None | Some e \<Rightarrow> if Q e then Some e else None)"
proof (induction xs)
  case (Cons x xs)
  show ?case
  proof (cases "key x = k")
    case True
    then have "find (\<lambda>e. key e = k) (filter Q xs) = None"
      using Cons.prems by (auto simp: find_None_iff image_iff)
    with True show ?thesis by simp
  qed (use Cons in simp)
qed simp

end
