(* ===== verification/Pmtu.thy ===== *)
theory Pmtu
  imports Machine
begin

text \<open>
  The path MTU cache (\<open>src/ip/pmtu.h\<close>, \<open>src/ip/pmtu.cpp\<close>): a bounded vector of entries searched
  linearly. A pointer to an entry is its index; a null address is \<open>None\<close>. The vector has its
  capacity reserved by the constructor, so insertion does not allocate.
\<close>

section \<open>State\<close>

definition kPmtuMinV4 :: u32 where "kPmtuMinV4 = 576"
definition kPmtuMinV6 :: u32 where "kPmtuMinV6 = 1280"
definition kPmtuMaxV4 :: u32 where "kPmtuMaxV4 = 65535"
definition kPmtuMaxV6 :: u32 where "kPmtuMaxV6 = 65575"
definition kPmtuDefaultTtlMs :: u32 where "kPmtuDefaultTtlMs = 600000"
definition kPmtuMaxEntries :: nat where "kPmtuMaxEntries = 4096"

record PmtuEntry =
  pm_dst_ip :: bytes
  pm_ip_version :: u8
  pm_pmtu :: u32
  pm_timestamp_ms :: u64
  pm_expires_ms :: u32

record PmtuCache =
  pm_entries :: "PmtuEntry list"
  pm_max_entries :: nat

record PmtuLookupResult =
  pl_found :: bool
  pl_pmtu :: u32

section \<open>Operations\<close>

definition PmtuCache_init :: "nat \<Rightarrow> PmtuCache" where
  "PmtuCache_init max_entries =
     (let m = (if max_entries = 0 then 1 else max_entries) in
      \<lparr>pm_entries = [], pm_max_entries = (if m > kPmtuMaxEntries then kPmtuMaxEntries else m)\<rparr>)"

definition ClampPmtu :: "u32 \<Rightarrow> u8 \<Rightarrow> u32 option" where
  "ClampPmtu raw ip_version =
     (if ip_version \<noteq> 4 \<and> ip_version \<noteq> 6 then None
      else
        let min_pmtu = (if ip_version = 6 then kPmtuMinV6 else kPmtuMinV4);
            max_pmtu = (if ip_version = 6 then kPmtuMaxV6 else kPmtuMaxV4);
            raw = (if raw < min_pmtu then min_pmtu else raw);
            raw = (if raw > max_pmtu then max_pmtu else raw) in
        Some raw)"

definition Pmtu_IsExpired :: "PmtuEntry \<Rightarrow> u64 \<Rightarrow> bool" where
  "Pmtu_IsExpired e now_ms =
     (if now_ms < pm_timestamp_ms e then True
      else now_ms - pm_timestamp_ms e > ucast (pm_expires_ms e))"

definition NormalizeIp :: "bytes option \<Rightarrow> u8 \<Rightarrow> bytes option" where
  "NormalizeIp dst_ip ip_version =
     (case dst_ip of
        None \<Rightarrow> None
      | Some ip \<Rightarrow>
          if ip_version = 4 then Some (replicate 10 0 @ [0xFF, 0xFF] @ take 4 ip)
          else if ip_version = 6 then Some (take 16 ip)
          else None)"

definition pm_matches :: "bytes \<Rightarrow> u8 \<Rightarrow> PmtuEntry \<Rightarrow> bool" where
  "pm_matches normalized ip_version e \<longleftrightarrow>
     pm_ip_version e = ip_version \<and> pm_dst_ip e = normalized"

definition Pmtu_Find :: "bytes \<Rightarrow> u8 \<Rightarrow> PmtuCache \<Rightarrow> nat option" where
  "Pmtu_Find normalized ip_version c = find_index (pm_matches normalized ip_version) (pm_entries c)"

definition Pmtu_Lookup :: "bytes option \<Rightarrow> u8 \<Rightarrow> u64 \<Rightarrow> PmtuCache \<Rightarrow> PmtuLookupResult" where
  "Pmtu_Lookup dst_ip ip_version now_ms c =
     (let result = \<lparr>pl_found = False, pl_pmtu = 0\<rparr> in
      case NormalizeIp dst_ip ip_version of
        None \<Rightarrow> result
      | Some normalized \<Rightarrow>
          (case find (pm_matches normalized ip_version) (pm_entries c) of
             None \<Rightarrow> result
           | Some e \<Rightarrow> if Pmtu_IsExpired e now_ms then result
                       else \<lparr>pl_found = True, pl_pmtu = pm_pmtu e\<rparr>))"

text \<open>The scan for the entry with the smallest time stamp (the first of several).\<close>

definition oldest_index :: "PmtuEntry list \<Rightarrow> nat" where
  "oldest_index es =
     fold (\<lambda>i oldest. if pm_timestamp_ms (es ! i) < pm_timestamp_ms (es ! oldest) then i else oldest)
       [1..<length es] 0"

definition InsertNew :: "bytes \<Rightarrow> u8 \<Rightarrow> u32 \<Rightarrow> u64 \<Rightarrow> u32 \<Rightarrow> PmtuCache \<Rightarrow> PmtuCache" where
  "InsertNew normalized ip_version pmtu now_ms expires_ms c =
     (let es = pm_entries c;
          es = (if length es \<ge> pm_max_entries c then erase_at (oldest_index es) es else es) in
      c\<lparr>pm_entries := es @ [\<lparr>pm_dst_ip = normalized, pm_ip_version = ip_version, pm_pmtu = pmtu,
                              pm_timestamp_ms = now_ms, pm_expires_ms = expires_ms\<rparr>]\<rparr>)"

definition set_entry :: "nat \<Rightarrow> u32 \<Rightarrow> u64 \<Rightarrow> u32 \<Rightarrow> PmtuCache \<Rightarrow> PmtuCache" where
  "set_entry i pmtu now_ms expires_ms c =
     c\<lparr>pm_entries := (pm_entries c)[i := (pm_entries c ! i)\<lparr>pm_pmtu := pmtu, pm_timestamp_ms := now_ms,
                                                        pm_expires_ms := expires_ms\<rparr>]\<rparr>"

definition LowerFromIcmp :: "bytes option \<Rightarrow> u8 \<Rightarrow> u32 \<Rightarrow> u64 \<Rightarrow> u32 \<Rightarrow> PmtuCache \<Rightarrow> PmtuCache" where
  "LowerFromIcmp dst_ip ip_version pmtu now_ms expires_ms c =
     (case ClampPmtu pmtu ip_version of
        None \<Rightarrow> c
      | Some clamped \<Rightarrow>
          (case NormalizeIp dst_ip ip_version of
             None \<Rightarrow> c
           | Some normalized \<Rightarrow>
               let expires_ms = (if expires_ms = 0 then kPmtuDefaultTtlMs else expires_ms) in
               (case Pmtu_Find normalized ip_version c of
                  Some i \<Rightarrow>
                    if Pmtu_IsExpired (pm_entries c ! i) now_ms then set_entry i clamped now_ms expires_ms c
                    else if clamped < pm_pmtu (pm_entries c ! i) then set_entry i clamped now_ms expires_ms c
                    else c
                | None \<Rightarrow> InsertNew normalized ip_version clamped now_ms expires_ms c)))"

definition RaiseFromProbe :: "bytes option \<Rightarrow> u8 \<Rightarrow> u32 \<Rightarrow> u64 \<Rightarrow> u32 \<Rightarrow> PmtuCache \<Rightarrow> PmtuCache" where
  "RaiseFromProbe dst_ip ip_version pmtu now_ms expires_ms c =
     (case ClampPmtu pmtu ip_version of
        None \<Rightarrow> c
      | Some clamped \<Rightarrow>
          (case NormalizeIp dst_ip ip_version of
             None \<Rightarrow> c
           | Some normalized \<Rightarrow>
               let expires_ms = (if expires_ms = 0 then kPmtuDefaultTtlMs else expires_ms) in
               (case Pmtu_Find normalized ip_version c of
                  Some i \<Rightarrow>
                    if Pmtu_IsExpired (pm_entries c ! i) now_ms then set_entry i clamped now_ms expires_ms c
                    else if clamped > pm_pmtu (pm_entries c ! i) then set_entry i clamped now_ms expires_ms c
                    else c
                | None \<Rightarrow> InsertNew normalized ip_version clamped now_ms expires_ms c)))"

text \<open>The erasing loop of \<open>Purge\<close>, with the index and the count of removed entries.\<close>

function purge_loop :: "u64 \<Rightarrow> nat \<Rightarrow> nat \<Rightarrow> PmtuEntry list \<Rightarrow> nat \<times> PmtuEntry list" where
  "purge_loop now_ms i removed es =
     (if i < length es then
        if Pmtu_IsExpired (es ! i) now_ms then purge_loop now_ms i (removed + 1) (erase_at i es)
        else purge_loop now_ms (i + 1) removed es
      else (removed, es))"
  by pat_completeness auto
termination
  by (relation "measure (\<lambda>(now, i, removed, es). length es - i)") (auto simp: length_erase_at)

declare purge_loop.simps [simp del]

definition Pmtu_Purge :: "u64 \<Rightarrow> PmtuCache \<Rightarrow> nat \<times> PmtuCache" where
  "Pmtu_Purge now_ms c =
     (let (removed, es) = purge_loop now_ms 0 0 (pm_entries c) in (removed, c\<lparr>pm_entries := es\<rparr>))"

definition Pmtu_Size :: "PmtuCache \<Rightarrow> nat" where
  "Pmtu_Size c = length (pm_entries c)"

text \<open>The operations that change the cache.\<close>

datatype pmtu_op =
    LowerOp "bytes option" u8 u32 u64 u32
  | RaiseOp "bytes option" u8 u32 u64 u32
  | PurgeOp u64

fun pmtu_step :: "pmtu_op \<Rightarrow> PmtuCache \<Rightarrow> PmtuCache" where
  "pmtu_step (LowerOp ip v p now exp) c = LowerFromIcmp ip v p now exp c"
| "pmtu_step (RaiseOp ip v p now exp) c = RaiseFromProbe ip v p now exp c"
| "pmtu_step (PurgeOp now) c = snd (Pmtu_Purge now c)"

section \<open>Invariant\<close>

definition pm_key :: "PmtuEntry \<Rightarrow> u8 \<times> bytes" where
  "pm_key e = (pm_ip_version e, pm_dst_ip e)"

definition pm_entry_ok :: "PmtuEntry \<Rightarrow> bool" where
  "pm_entry_ok e \<longleftrightarrow>
     (pm_ip_version e = 4 \<and> kPmtuMinV4 \<le> pm_pmtu e \<and> pm_pmtu e \<le> kPmtuMaxV4 \<or>
      pm_ip_version e = 6 \<and> kPmtuMinV6 \<le> pm_pmtu e \<and> pm_pmtu e \<le> kPmtuMaxV6)"

definition pmtu_inv :: "PmtuCache \<Rightarrow> bool" where
  "pmtu_inv c \<longleftrightarrow>
     0 < pm_max_entries c \<and> pm_max_entries c \<le> kPmtuMaxEntries \<and>
     length (pm_entries c) \<le> pm_max_entries c \<and> distinct (map pm_key (pm_entries c)) \<and>
     list_all pm_entry_ok (pm_entries c)"

lemma pm_matches_key: "pm_matches n v e \<longleftrightarrow> pm_key e = (v, n)"
  by (auto simp: pm_matches_def pm_key_def)

lemma ClampPmtu_ok:
  "ClampPmtu raw v = Some p \<Longrightarrow>
     pm_entry_ok \<lparr>pm_dst_ip = n, pm_ip_version = v, pm_pmtu = p, pm_timestamp_ms = t, pm_expires_ms = x\<rparr>"
  by (auto simp: ClampPmtu_def Let_def pm_entry_ok_def kPmtuMinV4_def kPmtuMinV6_def
      kPmtuMaxV4_def kPmtuMaxV6_def split: if_splits)

lemma oldest_fold:
  "m < length es \<Longrightarrow> \<forall>i\<in>set is. i < length es \<Longrightarrow>
     (let k = fold (\<lambda>i oldest. if pm_timestamp_ms (es ! i) < pm_timestamp_ms (es ! oldest) then i else oldest) is m in
      k < length es \<and> pm_timestamp_ms (es ! k) \<le> pm_timestamp_ms (es ! m) \<and>
      (\<forall>i\<in>set is. pm_timestamp_ms (es ! k) \<le> pm_timestamp_ms (es ! i)))"
proof (induction "is" arbitrary: m)
  case (Cons i "is")
  let ?m = "if pm_timestamp_ms (es ! i) < pm_timestamp_ms (es ! m) then i else m"
  show ?case
    using Cons.IH [of ?m] Cons.prems by (auto simp: Let_def intro: order_trans split: if_splits)
qed simp

lemma oldest_index_min:
  assumes "es \<noteq> []"
  shows "oldest_index es < length es"
    "e \<in> set es \<Longrightarrow> pm_timestamp_ms (es ! oldest_index es) \<le> pm_timestamp_ms e"
proof -
  have "0 < length es" "\<forall>i\<in>set [1..<length es]. i < length es" using assms by auto
  note f = oldest_fold [OF this, folded oldest_index_def, unfolded Let_def]
  show "oldest_index es < length es" using f by blast
  assume "e \<in> set es"
  then obtain i where i: "i < length es" "e = es ! i" by (auto simp: in_set_conv_nth)
  show "pm_timestamp_ms (es ! oldest_index es) \<le> pm_timestamp_ms e"
    using f i by (cases i) auto
qed

lemma purge_loop_filter:
  "i \<le> length es \<Longrightarrow> purge_loop now i r es =
     (r + length (filter (\<lambda>e. Pmtu_IsExpired e now) (drop i es)),
      take i es @ filter (\<lambda>e. \<not> Pmtu_IsExpired e now) (drop i es))"
proof (induction now i r es rule: purge_loop.induct)
  case (1 now i r es)
  show ?case
  proof (cases "i < length es")
    case True
    have d: "drop i es = es ! i # drop (Suc i) es" using True by (simp add: Cons_nth_drop_Suc)
    have e: "drop i (erase_at i es) = drop (Suc i) es" "take i (erase_at i es) = take i es"
      using True by (simp_all add: erase_at_def)
    show ?thesis
      using 1 True by (subst purge_loop.simps) (simp add: d e length_erase_at take_Suc_conv_app_nth)
  qed (use 1 in \<open>simp add: purge_loop.simps\<close>)
qed

lemma Pmtu_Purge_filter:
  "Pmtu_Purge now c =
     (length (filter (\<lambda>e. Pmtu_IsExpired e now) (pm_entries c)),
      c\<lparr>pm_entries := filter (\<lambda>e. \<not> Pmtu_IsExpired e now) (pm_entries c)\<rparr>)"
  by (simp add: Pmtu_Purge_def purge_loop_filter)

lemma pm_matches_eq: "pm_matches n v = (\<lambda>e. pm_key e = (v, n))"
  by (simp add: fun_eq_iff pm_matches_key)

lemma Pmtu_Find_Some:
  assumes "Pmtu_Find n v c = Some i"
  shows "i < length (pm_entries c)" "pm_key (pm_entries c ! i) = (v, n)"
  using assms by (auto simp: Pmtu_Find_def find_index_Some pm_matches_key)

lemma Pmtu_Find_None: "Pmtu_Find n v c = None \<longleftrightarrow> (v, n) \<notin> pm_key ` set (pm_entries c)"
  by (force simp: Pmtu_Find_def find_index_None pm_matches_key)

lemma find_entry:
  "distinct (map pm_key (pm_entries c)) \<Longrightarrow>
     find (\<lambda>e. pm_key e = (v, n)) (pm_entries c) = map_option ((!) (pm_entries c)) (Pmtu_Find n v c)"
proof (cases "Pmtu_Find n v c")
  case None
  then have "find (\<lambda>e. pm_key e = (v, n)) (pm_entries c) = None"
    by (force simp: Pmtu_Find_None find_None_iff)
  with None show ?thesis by simp
next
  case (Some i)
  assume "distinct (map pm_key (pm_entries c))"
  with Pmtu_Find_Some [OF Some] find_key_distinct [of pm_key "pm_entries c" "pm_entries c ! i"] Some
  show ?thesis by simp
qed

lemma set_entry_key:
  "pm_key (e\<lparr>pm_pmtu := p, pm_timestamp_ms := t, pm_expires_ms := x\<rparr>) = pm_key e"
  by (simp add: pm_key_def)

lemma set_entry_inv:
  assumes "pmtu_inv c" "Pmtu_Find n v c = Some i" "ClampPmtu raw v = Some p"
  shows "pmtu_inv (set_entry i p now x c)"
proof -
  note i = Pmtu_Find_Some [OF assms(2)]
  have "pm_entry_ok ((pm_entries c ! i)\<lparr>pm_pmtu := p, pm_timestamp_ms := now, pm_expires_ms := x\<rparr>)"
    using ClampPmtu_ok [OF assms(3)] i(2) by (simp add: pm_entry_ok_def pm_key_def)
  with assms(1) i(1) show ?thesis
    using set_update_subset_insert [of "pm_entries c" i]
    by (auto simp: pmtu_inv_def set_entry_def map_key_upd set_entry_key list_all_iff)
qed

lemma InsertNew_inv:
  assumes "pmtu_inv c" "Pmtu_Find n v c = None" "ClampPmtu raw v = Some p"
  shows "pmtu_inv (InsertNew n v p now x c)"
proof -
  define es where "es = (if length (pm_entries c) \<ge> pm_max_entries c
    then erase_at (oldest_index (pm_entries c)) (pm_entries c) else pm_entries c)"
  have sub: "set es \<subseteq> set (pm_entries c)" by (simp add: es_def set_erase_at)
  have "distinct (map pm_key es)" using assms(1) distinct_erase_at by (auto simp: es_def pmtu_inv_def)
  moreover have "(v, n) \<notin> pm_key ` set es" using assms(2) sub by (auto simp: Pmtu_Find_None)
  moreover have "length es < pm_max_entries c"
  proof (cases "length (pm_entries c) \<ge> pm_max_entries c")
    case True
    with assms(1) have "pm_entries c \<noteq> []" by (auto simp: pmtu_inv_def)
    from oldest_index_min(1) [OF this] True assms(1) show ?thesis
      by (simp add: es_def pmtu_inv_def length_erase_at)
  qed (simp add: es_def)
  moreover have "list_all pm_entry_ok es" using assms(1) sub by (auto simp: pmtu_inv_def list_all_iff)
  ultimately show ?thesis
    using assms(1) ClampPmtu_ok [OF assms(3)]
    by (simp add: pmtu_inv_def InsertNew_def Let_def es_def [symmetric])
      (simp add: pm_key_def)
qed

lemma pmtu_step_inv: "pmtu_inv c \<Longrightarrow> pmtu_inv (pmtu_step op c)"
proof (cases op)
  case (PurgeOp now)
  moreover assume "pmtu_inv c"
  ultimately show ?thesis
    by (auto simp: Pmtu_Purge_filter pmtu_inv_def list_all_iff distinct_map_filter
        intro: order_trans [OF length_filter_le])
qed (auto simp: LowerFromIcmp_def RaiseFromProbe_def Let_def intro: set_entry_inv InsertNew_inv
     split: option.splits)

interpretation pmtu: machine pmtu_step pmtu_inv
  by unfold_locales (rule pmtu_step_inv)

section \<open>Lookups after updates\<close>

lemma not_expired_now: "\<not> Pmtu_IsExpired (e\<lparr>pm_pmtu := p, pm_timestamp_ms := now, pm_expires_ms := x\<rparr>) now"
  by (simp add: Pmtu_IsExpired_def)

lemma Lookup_set_entry:
  assumes "pmtu_inv c" "Pmtu_Find n v c = Some i" "NormalizeIp ip v = Some n"
  shows "Pmtu_Lookup ip v now (set_entry i p now x c) = \<lparr>pl_found = True, pl_pmtu = p\<rparr>"
proof -
  note i = Pmtu_Find_Some [OF assms(2)]
  let ?e = "(pm_entries c ! i)\<lparr>pm_pmtu := p, pm_timestamp_ms := now, pm_expires_ms := x\<rparr>"
  have "find (\<lambda>e. pm_key e = pm_key ?e) ((pm_entries c)[i := ?e]) = Some ?e"
    using assms(1) i(1) by (intro find_map_upd_same) (auto simp: pmtu_inv_def set_entry_key)
  then show ?thesis
    using assms(3) i(2) not_expired_now [where e = "pm_entries c ! i" and now = now]
    by (simp add: Pmtu_Lookup_def set_entry_def pm_matches_eq set_entry_key)
qed

lemma Lookup_InsertNew:
  assumes "Pmtu_Find n v c = None" "NormalizeIp ip v = Some n"
  shows "Pmtu_Lookup ip v now (InsertNew n v p now x c) = \<lparr>pl_found = True, pl_pmtu = p\<rparr>"
proof -
  define es where "es = (if length (pm_entries c) \<ge> pm_max_entries c
    then erase_at (oldest_index (pm_entries c)) (pm_entries c) else pm_entries c)"
  have "set es \<subseteq> set (pm_entries c)" by (simp add: es_def set_erase_at)
  then have "find (\<lambda>e. pm_key e = (v, n)) es = None"
    using assms(1) by (force simp: Pmtu_Find_None find_None_iff)
  then show ?thesis
    using assms(2) by (simp add: Pmtu_Lookup_def InsertNew_def Let_def es_def [symmetric] pm_matches_eq
        find_append pm_key_def Pmtu_IsExpired_def)
qed

lemma Lookup_Find:
  assumes "pmtu_inv c" "NormalizeIp ip v = Some n"
  shows "Pmtu_Lookup ip v now c =
    (case Pmtu_Find n v c of
       None \<Rightarrow> \<lparr>pl_found = False, pl_pmtu = 0\<rparr>
     | Some i \<Rightarrow> if Pmtu_IsExpired (pm_entries c ! i) now then \<lparr>pl_found = False, pl_pmtu = 0\<rparr>
                 else \<lparr>pl_found = True, pl_pmtu = pm_pmtu (pm_entries c ! i)\<rparr>)"
  using assms find_entry [of c v n]
  by (simp add: Pmtu_Lookup_def Let_def pm_matches_eq pmtu_inv_def split: option.splits)

text \<open>Entries of other destinations are kept, or the oldest one is evicted to make room.\<close>

lemma find_set_entry_other:
  assumes "Pmtu_Find n v c = Some i" "k \<noteq> (v, n)"
  shows "find (\<lambda>e. pm_key e = k) (pm_entries (set_entry i p now x c)) =
    find (\<lambda>e. pm_key e = k) (pm_entries c)"
  using Pmtu_Find_Some [OF assms(1)] assms(2)
  by (simp add: set_entry_def find_map_upd_other set_entry_key)

lemma find_InsertNew_other:
  assumes "pmtu_inv c" "k \<noteq> (v, n)"
  shows "find (\<lambda>e. pm_key e = k) (pm_entries (InsertNew n v p now x c)) =
    (if Pmtu_Size c \<ge> pm_max_entries c \<and> k = pm_key (pm_entries c ! oldest_index (pm_entries c)) then None
     else find (\<lambda>e. pm_key e = k) (pm_entries c))"
proof -
  have new: "pm_key \<lparr>pm_dst_ip = n, pm_ip_version = v, pm_pmtu = p, pm_timestamp_ms = now, pm_expires_ms = x\<rparr> \<noteq> k"
    using assms(2) by (simp add: pm_key_def)
  have "Pmtu_Size c \<ge> pm_max_entries c \<Longrightarrow> oldest_index (pm_entries c) < length (pm_entries c)"
    using assms(1) by (intro oldest_index_min(1)) (auto simp: pmtu_inv_def Pmtu_Size_def)
  with assms(1) new show ?thesis
    by (auto simp: InsertNew_def Let_def find_append find_erase_at Pmtu_Size_def pmtu_inv_def
        split: option.splits)
qed

section \<open>Properties\<close>

lemma PmtuCache_init_inv: "pmtu_inv (PmtuCache_init m)"
  by (simp add: pmtu_inv_def PmtuCache_init_def Let_def kPmtuMaxEntries_def)

abbreviation pmtu_after :: "pmtu_op list \<Rightarrow> nat \<Rightarrow> PmtuCache" where
  "pmtu_after ops m \<equiv> run pmtu_step ops (PmtuCache_init m)"

lemmas pmtu_after_inv = pmtu.run_inv [OF PmtuCache_init_inv]

text \<open>
  C32: Whatever ICMP errors, probes and purges a cache has seen, it holds at most its configured
  number of entries (never more than 4096), at most one entry per address and family, and only
  path MTUs inside the bounds of the family of the entry.\<close>

theorem pmtu_cache_bounded:
  "Pmtu_Size (pmtu_after ops m) \<le> pm_max_entries (pmtu_after ops m) \<and>
   pm_max_entries (pmtu_after ops m) \<le> kPmtuMaxEntries \<and>
   distinct (map pm_key (pm_entries (pmtu_after ops m))) \<and>
   list_all pm_entry_ok (pm_entries (pmtu_after ops m))"
  using pmtu_after_inv [of ops m] by (simp add: pmtu_inv_def Pmtu_Size_def)

text \<open>What an update of a destination makes of its own lookup and of the others.\<close>

definition pmtu_kept_or_evicted :: "PmtuCache \<Rightarrow> PmtuCache \<Rightarrow> u8 \<times> bytes \<Rightarrow> bool" where
  "pmtu_kept_or_evicted c c' k \<longleftrightarrow>
     find (\<lambda>e. pm_key e = k) (pm_entries c') = find (\<lambda>e. pm_key e = k) (pm_entries c) \<or>
     Pmtu_Size c = pm_max_entries c \<and>
     (\<exists>old\<in>set (pm_entries c). pm_key old = k \<and>
        list_all (\<lambda>e. pm_timestamp_ms old \<le> pm_timestamp_ms e) (pm_entries c))"

lemma set_entry_kept:
  "Pmtu_Find n v c = Some i \<Longrightarrow> k \<noteq> (v, n) \<Longrightarrow> pmtu_kept_or_evicted c (set_entry i p now x c) k"
  by (simp add: pmtu_kept_or_evicted_def find_set_entry_other)

lemma InsertNew_kept:
  assumes "pmtu_inv c" "k \<noteq> (v, n)"
  shows "pmtu_kept_or_evicted c (InsertNew n v p now x c) k"
proof (cases "Pmtu_Size c \<ge> pm_max_entries c \<and> k = pm_key (pm_entries c ! oldest_index (pm_entries c))")
  case True
  with assms(1) have "Pmtu_Size c = pm_max_entries c" "pm_entries c \<noteq> []"
    by (auto simp: pmtu_inv_def Pmtu_Size_def)
  with True oldest_index_min [of "pm_entries c"] show ?thesis
    by (auto simp: pmtu_kept_or_evicted_def list_all_iff intro!: bexI [of _ "pm_entries c ! oldest_index (pm_entries c)"])
next
  case False
  then show ?thesis by (auto simp: pmtu_kept_or_evicted_def find_InsertNew_other [OF assms])
qed

lemma LowerFromIcmp_lookup:
  assumes "pmtu_inv c" "NormalizeIp ip v = Some n" "ClampPmtu p v = Some q"
  shows "Pmtu_Lookup ip v now (LowerFromIcmp ip v p now x c) =
    \<lparr>pl_found = True, pl_pmtu = (let r = Pmtu_Lookup ip v now c in if pl_found r then min (pl_pmtu r) q else q)\<rparr>"
  using assms Lookup_Find [OF assms(1,2), of now]
  by (auto simp: LowerFromIcmp_def Let_def Lookup_set_entry Lookup_InsertNew min_def
      split: option.splits if_splits)

lemma RaiseFromProbe_lookup:
  assumes "pmtu_inv c" "NormalizeIp ip v = Some n" "ClampPmtu p v = Some q"
  shows "Pmtu_Lookup ip v now (RaiseFromProbe ip v p now x c) =
    \<lparr>pl_found = True, pl_pmtu = (let r = Pmtu_Lookup ip v now c in if pl_found r then max (pl_pmtu r) q else q)\<rparr>"
  using assms Lookup_Find [OF assms(1,2), of now]
  by (auto simp: RaiseFromProbe_def Let_def Lookup_set_entry Lookup_InsertNew max_def
      split: option.splits if_splits)

lemma update_kept:
  assumes "pmtu_inv c" "NormalizeIp ip v = Some n" "k \<noteq> (v, n)"
  shows "pmtu_kept_or_evicted c (LowerFromIcmp ip v p now x c) k"
    "pmtu_kept_or_evicted c (RaiseFromProbe ip v p now x c) k"
  using assms InsertNew_kept [OF assms(1,3)]
  by (auto simp: LowerFromIcmp_def RaiseFromProbe_def Let_def set_entry_kept
      intro: pmtu_kept_or_evicted_def [THEN iffD2] split: option.splits)

text \<open>
  C31: In every reachable cache, a Packet Too Big report makes the next lookup of that destination
  return the smaller of the reported MTU (clamped to the family) and the value found before, a
  successful probe the larger; and the entry of every other destination is kept, or it is the
  oldest entry of a full cache.\<close>

theorem pmtu_update_then_lookup:
  assumes "v = 4 \<or> v = 6" and "k \<noteq> (v, the (NormalizeIp (Some ip) v))"
  shows "let c = pmtu_after ops m; r = Pmtu_Lookup (Some ip) v now c; q = the (ClampPmtu p v);
       low = LowerFromIcmp (Some ip) v p now x c; high = RaiseFromProbe (Some ip) v p now x c in
     Pmtu_Lookup (Some ip) v now low =
       \<lparr>pl_found = True, pl_pmtu = (if pl_found r then min (pl_pmtu r) q else q)\<rparr> \<and>
     Pmtu_Lookup (Some ip) v now high =
       \<lparr>pl_found = True, pl_pmtu = (if pl_found r then max (pl_pmtu r) q else q)\<rparr> \<and>
     pmtu_kept_or_evicted c low k \<and> pmtu_kept_or_evicted c high k"
proof -
  obtain n q where n: "NormalizeIp (Some ip) v = Some n" and q: "ClampPmtu p v = Some q"
    using assms(1) by (auto simp: NormalizeIp_def ClampPmtu_def Let_def)
  have "k \<noteq> (v, n)" using assms(2) n by simp
  with n q show ?thesis
    by (simp add: Let_def LowerFromIcmp_lookup [OF pmtu_after_inv n q, unfolded Let_def]
        RaiseFromProbe_lookup [OF pmtu_after_inv n q, unfolded Let_def] update_kept [OF pmtu_after_inv n])
qed

theorem pmtu_update_then_lookup_witness:
  "Pmtu_Lookup (Some [10, 0, 0, 1]) 4 5 (LowerFromIcmp (Some [10, 0, 0, 1]) 4 1300 5 0
     (pmtu_after [RaiseOp (Some [10, 0, 0, 1]) 4 1500 2 0] 8)) = \<lparr>pl_found = True, pl_pmtu = 1300\<rparr>"
proof -
  have "Pmtu_Lookup (Some [10, 0, 0, 1]) 4 5 (pmtu_after [RaiseOp (Some [10, 0, 0, 1]) 4 1500 2 0] 8) =
      \<lparr>pl_found = True, pl_pmtu = 1500\<rparr>" "ClampPmtu 1300 4 = Some 1300"
    by code_simp+
  then show ?thesis
    using pmtu_update_then_lookup [where v = 4 and k = "(6, [])" and ip = "[10, 0, 0, 1]" and now = 5
        and ops = "[RaiseOp (Some [10, 0, 0, 1]) 4 1500 2 0]" and m = 8 and p = 1300 and x = 0]
    by (simp add: Let_def)
qed

text \<open>
  \<open>Purge\<close> removes exactly the entries that are expired at the given time and counts them, so
  that no lookup at that time changes.\<close>

theorem pmtu_purge_exact:
  "Pmtu_Purge now (pmtu_after ops m) =
     (length (filter (\<lambda>e. Pmtu_IsExpired e now) (pm_entries (pmtu_after ops m))),
      (pmtu_after ops m)\<lparr>pm_entries := filter (\<lambda>e. \<not> Pmtu_IsExpired e now) (pm_entries (pmtu_after ops m))\<rparr>) \<and>
   Pmtu_Lookup ip v now (snd (Pmtu_Purge now (pmtu_after ops m))) = Pmtu_Lookup ip v now (pmtu_after ops m)"
proof -
  let ?c = "pmtu_after ops m"
  have "distinct (map pm_key (pm_entries ?c))"
    using pmtu_after_inv [of ops m] by (simp add: pmtu_inv_def)
  then show ?thesis
    by (simp add: Pmtu_Purge_filter Pmtu_Lookup_def Let_def pm_matches_eq find_filter_distinct
        split: option.splits)
qed

end
