(* ===== verification/Fragment.thy ===== *)
theory Fragment
  imports Machine Checked
begin

text \<open>
  IP fragment reassembly (\<open>src/ip/fragment.h\<close>, \<open>src/ip/fragment.cpp\<close>). The used prefix of the
  array \<open>pieces_\<close> is a list, so \<open>fragment_count_\<close> is its length. The two places where the code
  catches an exception of the allocator take a flag that says whether the allocation succeeds. A
  pointer to an entry is its index in the table.
\<close>

section \<open>Data\<close>

definition kMaxFragmentsPerEntry :: nat where "kMaxFragmentsPerEntry = 64"
definition kFragmentDefaultTtlMs :: u32 where "kFragmentDefaultTtlMs = 60000"
definition kMaxReassemblyEntries :: nat where "kMaxReassemblyEntries = 256"
definition kMaxFragmentPayloadBytes :: u32 where "kMaxFragmentPayloadBytes = 65535"
definition kMaxIpv4FragmentPayloadBytes :: u32 where "kMaxIpv4FragmentPayloadBytes = 65515"
definition kDefaultMaxTotalBytes :: nat where "kDefaultMaxTotalBytes = 16 * 1024 * 1024"

record FragmentPiece =
  fp_offset :: u32
  fp_length :: u32

datatype FragmentError =
    Frag_None
  | Frag_TooManyFragments
  | Frag_OverlapDetected
  | Frag_PayloadTooLarge
  | Frag_InvalidOffset
  | Frag_InvalidFragment
  | Frag_TooManyEntries
  | Frag_NullData
  | Frag_DuplicateTerminal
  | Frag_TerminalOverflow
  | Frag_ByteBudgetExceeded

record FragmentAddResult =
  far_error :: FragmentError
  far_complete :: bool
  far_total_length :: nat
  far_ecn :: u8
  far_payload :: bytes

definition far_init :: FragmentAddResult where
  "far_init = \<lparr>far_error = Frag_None, far_complete = False, far_total_length = 0, far_ecn = 0,
               far_payload = []\<rparr>"

abbreviation frag_fail :: "FragmentError \<Rightarrow> FragmentAddResult" where
  "frag_fail e \<equiv> far_init\<lparr>far_error := e\<rparr>"

record FragmentKey =
  fk_src_ip :: bytes
  fk_dst_ip :: bytes
  fk_ip_version :: u8
  fk_protocol :: u8
  fk_identification :: u32

definition FragmentKey_init :: FragmentKey where
  "FragmentKey_init =
     \<lparr>fk_src_ip = replicate 16 0, fk_dst_ip = replicate 16 0, fk_ip_version = 0, fk_protocol = 0,
      fk_identification = 0\<rparr>"

definition Matches :: "FragmentKey \<Rightarrow> FragmentKey \<Rightarrow> bool" where
  "Matches k other \<longleftrightarrow>
     fk_ip_version k = fk_ip_version other \<and> fk_protocol k = fk_protocol other \<and>
     fk_identification k = fk_identification other \<and> fk_src_ip k = fk_src_ip other \<and>
     fk_dst_ip k = fk_dst_ip other"

record ReassemblyEntry =
  re_key :: FragmentKey
  re_pieces :: "FragmentPiece list"
  re_highest_end :: u32
  re_last_received :: bool
  re_total_payload_length :: u32
  re_deadline_ms :: u64
  re_discarded :: bool
  re_ecn_or :: u8
  re_data_buffer :: bytes

definition ReassemblyEntry_init :: ReassemblyEntry where
  "ReassemblyEntry_init =
     \<lparr>re_key = FragmentKey_init, re_pieces = [], re_highest_end = 0, re_last_received = False,
      re_total_payload_length = 0, re_deadline_ms = 0, re_discarded = False, re_ecn_or = 0,
      re_data_buffer = []\<rparr>"

section \<open>One entry\<close>

definition Entry_IsExpired :: "u64 \<Rightarrow> ReassemblyEntry \<Rightarrow> bool" where
  "Entry_IsExpired now_ms e \<longleftrightarrow> now_ms \<ge> re_deadline_ms e"

definition Entry_Reset :: "ReassemblyEntry \<Rightarrow> ReassemblyEntry" where
  "Entry_Reset e =
     e\<lparr>re_key := FragmentKey_init, re_pieces := [], re_highest_end := 0, re_last_received := False,
       re_total_payload_length := 0, re_deadline_ms := 0, re_discarded := False, re_ecn_or := 0,
       re_data_buffer := []\<rparr>"

definition InUse :: "ReassemblyEntry \<Rightarrow> bool" where
  "InUse e \<longleftrightarrow> length (re_pieces e) > 0"

definition Entry_BytesHeld :: "ReassemblyEntry \<Rightarrow> nat" where
  "Entry_BytesHeld e = length (re_data_buffer e)"

definition HasOverlap :: "u32 \<Rightarrow> u32 \<Rightarrow> ReassemblyEntry \<Rightarrow> bool" where
  "HasOverlap offset len e \<longleftrightarrow>
     (let new_end = offset + len in
      list_ex (\<lambda>p. offset < fp_offset p + fp_length p \<and> fp_offset p < new_end) (re_pieces e))"

text \<open>
  The insertion sort by offset: \<open>insert_piece\<close> is the inner \<open>while\<close> loop, on the sorted prefix read
  from its right end.
\<close>

fun insert_piece :: "u32 \<times> u32 \<Rightarrow> (u32 \<times> u32) list \<Rightarrow> (u32 \<times> u32) list" where
  "insert_piece x [] = [x]"
| "insert_piece x (y # ys) = (if fst y > fst x then y # insert_piece x ys else x # y # ys)"

definition sorted_pieces :: "FragmentPiece list \<Rightarrow> (u32 \<times> u32) list" where
  "sorted_pieces ps =
     rev (fold insert_piece (map (\<lambda>p. (fp_offset p, fp_offset p + fp_length p)) ps) [])"

text \<open>The scan of the sorted pieces: the end reached without a gap.\<close>

fun contiguous_end :: "u32 \<Rightarrow> (u32 \<times> u32) list \<Rightarrow> u32 option" where
  "contiguous_end expected_end [] = Some expected_end"
| "contiguous_end expected_end ((off, e) # ps) =
     (if off \<noteq> expected_end then None else contiguous_end e ps)"

definition pieces_complete :: "FragmentPiece list \<Rightarrow> u32 \<Rightarrow> bool" where
  "pieces_complete ps total_length =
     (case sorted_pieces ps of
        [] \<Rightarrow> False
      | (off, e) # rest \<Rightarrow> off = 0 \<and> contiguous_end e rest = Some total_length)"

definition fragment_deadline :: "u64 \<Rightarrow> u32 \<Rightarrow> u64" where
  "fragment_deadline now_ms expires_ms =
     (let expires_ms = (if expires_ms = 0 then kFragmentDefaultTtlMs else expires_ms) in
      if ucast expires_ms > u64_max - now_ms then u64_max else now_ms + ucast expires_ms)"

text \<open>Storing a fragment that passed the checks, and the completeness test after it.\<close>

definition store_fragment ::
    "bool \<Rightarrow> u32 \<Rightarrow> bytes \<Rightarrow> u32 \<Rightarrow> u32 \<Rightarrow> bool \<Rightarrow> u64 \<Rightarrow> u32 \<Rightarrow> u8 \<Rightarrow> ReassemblyEntry \<Rightarrow>
     FragmentAddResult \<times> ReassemblyEntry" where
  "store_fragment resize_ok offset d len end more_fragments now_ms expires_ms ecn e =
     (let required_size = unat end;
          e = (if length (re_pieces e) = 0
               then e\<lparr>re_deadline_ms := fragment_deadline now_ms expires_ms\<rparr> else e) in
      if length (re_data_buffer e) < required_size \<and> \<not> resize_ok
      then (frag_fail Frag_InvalidFragment, e)
      else
        let buf = (if length (re_data_buffer e) < required_size
                   then re_data_buffer e @ replicate (required_size - length (re_data_buffer e)) 0
                   else re_data_buffer e);
            e = e\<lparr>re_data_buffer := memcpy_at (unat offset) (take (unat len) d) buf,
                  re_pieces := re_pieces e @ [\<lparr>fp_offset = offset, fp_length = len\<rparr>],
                  re_ecn_or := re_ecn_or e OR (ecn AND 0x03),
                  re_highest_end := (if end > re_highest_end e then end else re_highest_end e)\<rparr>;
            e = (if \<not> more_fragments
                 then e\<lparr>re_last_received := True, re_total_payload_length := end\<rparr> else e) in
        if re_last_received e \<and> pieces_complete (re_pieces e) (re_total_payload_length e) then
          (let total_length = unat (re_total_payload_length e);
               buf = (if length (re_data_buffer e) > total_length
                      then take total_length (re_data_buffer e) else re_data_buffer e) in
           (far_init\<lparr>far_complete := True, far_total_length := total_length,
                    far_ecn := re_ecn_or e, far_payload := buf\<rparr>,
            e\<lparr>re_data_buffer := []\<rparr>))
        else (far_init, e))"

definition AddFragment ::
    "bool \<Rightarrow> u32 \<Rightarrow> bytes option \<Rightarrow> u32 \<Rightarrow> bool \<Rightarrow> u64 \<Rightarrow> u32 \<Rightarrow> u32 \<Rightarrow> nat \<Rightarrow> u8 \<Rightarrow>
     ReassemblyEntry \<Rightarrow> FragmentAddResult \<times> ReassemblyEntry" where
  "AddFragment resize_ok offset data len more_fragments now_ms expires_ms max_payload_bytes
       additional_byte_budget ecn e =
     (case data of
        None \<Rightarrow> (frag_fail Frag_NullData, e)
      | Some d \<Rightarrow>
        if len = 0 then (frag_fail Frag_InvalidFragment, e)
        else if length (re_pieces e) \<ge> kMaxFragmentsPerEntry then (frag_fail Frag_TooManyFragments, e)
        else if offset \<noteq> 0 \<and> offset mod 8 \<noteq> 0 then (frag_fail Frag_InvalidOffset, e)
        else if more_fragments \<and> len mod 8 \<noteq> 0 then (frag_fail Frag_InvalidFragment, e)
        else
          (case CheckedAdd offset len of
             None \<Rightarrow> (frag_fail Frag_PayloadTooLarge, e)
           | Some end \<Rightarrow>
             if max_payload_bytes > 0 \<and> end > max_payload_bytes then (frag_fail Frag_PayloadTooLarge, e)
             else if re_last_received e \<and> end > re_total_payload_length e
               then (frag_fail Frag_TerminalOverflow, e)
             else if \<not> more_fragments \<and> re_last_received e \<and> end \<noteq> re_total_payload_length e
               then (frag_fail Frag_DuplicateTerminal, e)
             else if HasOverlap offset len e then
               (frag_fail Frag_OverlapDetected,
                if fk_ip_version (re_key e) = 6 then e\<lparr>re_discarded := True\<rparr> else e)
             else if re_discarded e then (frag_fail Frag_OverlapDetected, e)
             else if unat end > length (re_data_buffer e) \<and>
                     unat end - length (re_data_buffer e) > additional_byte_budget
               then (frag_fail Frag_ByteBudgetExceeded, e)
             else store_fragment resize_ok offset d len end more_fragments now_ms expires_ms ecn e))"

section \<open>The table\<close>

record FragmentReassembler =
  fr_entries :: "ReassemblyEntry list"
  fr_max_entries :: nat
  fr_max_total_bytes :: nat
  fr_current_bytes :: nat

definition FragmentReassembler_init :: "nat \<Rightarrow> nat \<Rightarrow> FragmentReassembler" where
  "FragmentReassembler_init max_entries max_total_bytes =
     (let m = (if max_entries = 0 then 1 else max_entries) in
      \<lparr>fr_entries = [], fr_max_entries = (if m > kMaxReassemblyEntries then kMaxReassemblyEntries else m),
       fr_max_total_bytes = (if max_total_bytes = 0 then kDefaultMaxTotalBytes else max_total_bytes),
       fr_current_bytes = 0\<rparr>)"

definition FillIpv4Mapped :: "bytes \<Rightarrow> bytes" where
  "FillIpv4Mapped src4 = replicate 10 0 @ [0xFF, 0xFF] @ take 4 src4"

text \<open>Releasing the entry at an index: its bytes are returned to the budget.\<close>

definition release_entry :: "nat \<Rightarrow> FragmentReassembler \<Rightarrow> FragmentReassembler" where
  "release_entry i r =
     r\<lparr>fr_current_bytes := fr_current_bytes r - Entry_BytesHeld (fr_entries r ! i),
       fr_entries := (fr_entries r)[i := Entry_Reset (fr_entries r ! i)]\<rparr>"

definition set_key :: "nat \<Rightarrow> FragmentKey \<Rightarrow> FragmentReassembler \<Rightarrow> FragmentReassembler" where
  "set_key i key r = r\<lparr>fr_entries := (fr_entries r)[i := (fr_entries r ! i)\<lparr>re_key := key\<rparr>]\<rparr>"

definition FindOrCreate ::
    "bool \<Rightarrow> FragmentKey \<Rightarrow> u64 \<Rightarrow> FragmentReassembler \<Rightarrow> (FragmentError + nat) \<times> FragmentReassembler" where
  "FindOrCreate emplace_ok key now_ms r =
     (case find_index (\<lambda>e. InUse e \<and> Matches (re_key e) key) (fr_entries r) of
        Some i \<Rightarrow>
          if Entry_IsExpired now_ms (fr_entries r ! i) then (Inr i, set_key i key (release_entry i r))
          else (Inr i, r)
      | None \<Rightarrow>
          (case find_index (\<lambda>e. \<not> InUse e \<or> Entry_IsExpired now_ms e) (fr_entries r) of
             Some i \<Rightarrow>
               if \<not> InUse (fr_entries r ! i) then (Inr i, set_key i key r)
               else (Inr i, set_key i key (release_entry i r))
           | None \<Rightarrow>
               if length (fr_entries r) < fr_max_entries r then
                 if \<not> emplace_ok then (Inl Frag_TooManyEntries, r)
                 else
                   (Inr (length (fr_entries r)),
                    set_key (length (fr_entries r)) key
                      (r\<lparr>fr_entries := fr_entries r @ [ReassemblyEntry_init]\<rparr>))
               else (Inl Frag_TooManyEntries, r)))"

text \<open>The part that \<open>AddIpv4Fragment\<close> and \<open>AddIpv6Fragment\<close> share, from \<open>FindOrCreate\<close> on.\<close>

definition add_to_entry ::
    "bool \<Rightarrow> bool \<Rightarrow> FragmentKey \<Rightarrow> u32 \<Rightarrow> bytes \<Rightarrow> bool \<Rightarrow> u64 \<Rightarrow> u32 \<Rightarrow> u32 \<Rightarrow> u8 \<Rightarrow>
     FragmentReassembler \<Rightarrow> FragmentAddResult \<times> FragmentReassembler" where
  "add_to_entry emplace_ok resize_ok key byte_offset payload more_fragments now_ms expires_ms
       max_payload_bytes ecn r =
     (case FindOrCreate emplace_ok key now_ms r of
        (Inl find_error, r) \<Rightarrow> (frag_fail find_error, r)
      | (Inr i, r) \<Rightarrow>
          let bytes_before = Entry_BytesHeld (fr_entries r ! i);
              additional_byte_budget =
                (if fr_current_bytes r < fr_max_total_bytes r
                 then fr_max_total_bytes r - fr_current_bytes r else 0);
              (result, e) =
                AddFragment resize_ok byte_offset (Some payload) (of_nat (length payload)) more_fragments
                  now_ms expires_ms max_payload_bytes additional_byte_budget ecn (fr_entries r ! i);
              bytes_after = Entry_BytesHeld e;
              r = r\<lparr>fr_entries := (fr_entries r)[i := e]\<rparr> in
          if far_complete result then
            (result, r\<lparr>fr_current_bytes := fr_current_bytes r - bytes_before,
                       fr_entries := (fr_entries r)[i := Entry_Reset e]\<rparr>)
          else if far_error result = Frag_None then
            (result, r\<lparr>fr_current_bytes := fr_current_bytes r + (bytes_after - bytes_before)\<rparr>)
          else (result, r))"

text \<open>The limit on the payload of one datagram, and the argument checks of both entry points.\<close>

definition clamp_payload_limit :: "u32 \<Rightarrow> u32 \<Rightarrow> u32" where
  "clamp_payload_limit hard max_payload_bytes =
     (if max_payload_bytes = 0 \<or> max_payload_bytes > hard then hard else max_payload_bytes)"

definition AddIpv4Fragment ::
    "bool \<Rightarrow> bool \<Rightarrow> bytes option \<Rightarrow> bytes option \<Rightarrow> u8 \<Rightarrow> u16 \<Rightarrow> u16 \<Rightarrow> bool \<Rightarrow> bytes option \<Rightarrow>
     u64 \<Rightarrow> u32 \<Rightarrow> u32 \<Rightarrow> u8 \<Rightarrow> FragmentReassembler \<Rightarrow> FragmentAddResult \<times> FragmentReassembler" where
  "AddIpv4Fragment emplace_ok resize_ok src_ip dst_ip protocol identification fragment_offset
       more_fragments payload now_ms expires_ms max_payload_bytes ecn r =
     (case (src_ip, dst_ip, payload) of
        (Some src, Some dst, Some p) \<Rightarrow>
          if length p = 0 then (frag_fail Frag_InvalidFragment, r)
          else if length p > 2 ^ 32 - 1 then (frag_fail Frag_PayloadTooLarge, r)
          else
            (case CheckedMul (ucast fragment_offset) 8 of
               None \<Rightarrow> (frag_fail Frag_PayloadTooLarge, r)
             | Some byte_offset \<Rightarrow>
                 add_to_entry emplace_ok resize_ok
                   \<lparr>fk_src_ip = FillIpv4Mapped src, fk_dst_ip = FillIpv4Mapped dst, fk_ip_version = 4,
                    fk_protocol = protocol, fk_identification = ucast identification\<rparr>
                   byte_offset p more_fragments now_ms expires_ms
                   (clamp_payload_limit kMaxIpv4FragmentPayloadBytes max_payload_bytes) ecn r)
      | _ \<Rightarrow> (frag_fail Frag_NullData, r))"

definition AddIpv6Fragment ::
    "bool \<Rightarrow> bool \<Rightarrow> bytes option \<Rightarrow> bytes option \<Rightarrow> u32 \<Rightarrow> u16 \<Rightarrow> bool \<Rightarrow> bytes option \<Rightarrow>
     u64 \<Rightarrow> u32 \<Rightarrow> u32 \<Rightarrow> u8 \<Rightarrow> u8 \<Rightarrow> FragmentReassembler \<Rightarrow> FragmentAddResult \<times> FragmentReassembler" where
  "AddIpv6Fragment emplace_ok resize_ok src_ip dst_ip identification fragment_offset
       more_fragments payload now_ms expires_ms max_payload_bytes protocol ecn r =
     (case (src_ip, dst_ip, payload) of
        (Some src, Some dst, Some p) \<Rightarrow>
          if length p = 0 then (frag_fail Frag_InvalidFragment, r)
          else if length p > 2 ^ 32 - 1 then (frag_fail Frag_PayloadTooLarge, r)
          else
            (case CheckedMul (ucast fragment_offset) 8 of
               None \<Rightarrow> (frag_fail Frag_PayloadTooLarge, r)
             | Some byte_offset \<Rightarrow>
                 add_to_entry emplace_ok resize_ok
                   \<lparr>fk_src_ip = take 16 src, fk_dst_ip = take 16 dst, fk_ip_version = 6,
                    fk_protocol = protocol, fk_identification = identification\<rparr>
                   byte_offset p more_fragments now_ms expires_ms
                   (clamp_payload_limit kMaxFragmentPayloadBytes max_payload_bytes) ecn r)
      | _ \<Rightarrow> (frag_fail Frag_NullData, r))"

text \<open>\<open>Purge\<close>, entry by entry.\<close>

definition purge_entry :: "u64 \<Rightarrow> nat \<Rightarrow> nat \<times> FragmentReassembler \<Rightarrow> nat \<times> FragmentReassembler" where
  "purge_entry now_ms i s =
     (case s of (removed, r) \<Rightarrow>
        if InUse (fr_entries r ! i) \<and> Entry_IsExpired now_ms (fr_entries r ! i)
        then (removed + 1, release_entry i r) else s)"

definition Reassembler_Purge :: "u64 \<Rightarrow> FragmentReassembler \<Rightarrow> nat \<times> FragmentReassembler" where
  "Reassembler_Purge now_ms r = fold (purge_entry now_ms) [0..<length (fr_entries r)] (0, r)"

definition Reassembler_Size :: "FragmentReassembler \<Rightarrow> nat" where
  "Reassembler_Size r = length (filter InUse (fr_entries r))"

definition Reassembler_BytesHeld :: "FragmentReassembler \<Rightarrow> nat" where
  "Reassembler_BytesHeld r = fr_current_bytes r"

end
