(* ===== verification/FragmentCorrect.thy ===== *)
theory FragmentCorrect
  imports Fragment "HOL-Library.Multiset"
begin

text \<open>
  Correctness of fragment reassembly: the completeness test of an entry is exact, the table
  accounts for its bytes and stays bounded, and a datagram that is reported complete is the one
  that was sent, whatever the order and interleaving of fragments.
\<close>

section \<open>Pieces as intervals\<close>

definition piece_iv :: "FragmentPiece \<Rightarrow> nat set" where
  "piece_iv p = {unat (fp_offset p)..<unat (fp_offset p) + unat (fp_length p)}"

definition piece_ok :: "FragmentPiece \<Rightarrow> bool" where
  "piece_ok p \<longleftrightarrow> 0 < unat (fp_length p) \<and> unat (fp_offset p) + unat (fp_length p) < 2 ^ 32"

definition pieces_ok :: "FragmentPiece list \<Rightarrow> bool" where
  "pieces_ok ps \<longleftrightarrow>
     list_all piece_ok ps \<and> sorted_wrt (\<lambda>p q. piece_iv p \<inter> piece_iv q = {}) ps"

definition span :: "u32 \<times> u32 \<Rightarrow> nat set" where
  "span x = {unat (fst x)..<unat (snd x)}"

definition piece_pair :: "FragmentPiece \<Rightarrow> u32 \<times> u32" where
  "piece_pair p = (fp_offset p, fp_offset p + fp_length p)"

lemma unat_add_no_wrap: "unat a + unat b < 2 ^ 32 \<Longrightarrow> unat (a + b) = unat a + unat b" for a b :: u32
  by (simp add: unat_word_ariths)

lemma span_piece_pair: "piece_ok p \<Longrightarrow> span (piece_pair p) = piece_iv p"
  by (simp add: piece_ok_def span_def piece_pair_def piece_iv_def unat_add_no_wrap)

lemma piece_iv_nonempty: "piece_ok p \<Longrightarrow> piece_iv p \<noteq> {}"
  by (auto simp: piece_ok_def piece_iv_def)

section \<open>The completeness test\<close>

lemma mset_insert_piece: "mset (insert_piece x ys) = add_mset x (mset ys)"
  by (induction ys) auto

lemma sorted_insert_piece:
  "sorted_wrt (\<lambda>a b. fst b \<le> fst a) ys \<Longrightarrow> sorted_wrt (\<lambda>a b. fst b \<le> fst a) (insert_piece x ys)"
proof (induction ys)
  case (Cons y ys)
  have "set (insert_piece x ys) = insert x (set ys)"
    by (metis mset_insert_piece set_mset_add_mset_insert set_mset_mset)
  with Cons show ?case by (auto intro: order_trans less_imp_le)
qed simp

lemma fold_insert_piece:
  "sorted_wrt (\<lambda>a b. fst b \<le> fst a) ys \<Longrightarrow>
     sorted_wrt (\<lambda>a b. fst b \<le> fst a) (fold insert_piece xs ys) \<and>
     mset (fold insert_piece xs ys) = mset xs + mset ys"
  by (induction xs arbitrary: ys) (auto simp: sorted_insert_piece mset_insert_piece)

lemma sorted_pieces_props:
  "mset (sorted_pieces ps) = mset (map piece_pair ps)"
  "sorted_wrt (\<lambda>a b. fst a \<le> fst b) (sorted_pieces ps)"
  using fold_insert_piece [of "[]" "map piece_pair ps"]
  by (simp_all add: sorted_pieces_def piece_pair_def [abs_def] sorted_wrt_rev)

text \<open>Scanning a sorted list of disjoint spans without a gap is covering an interval.\<close>

lemma contiguous_end_cover:
  assumes "sorted_wrt (\<lambda>a b. fst a \<le> fst b) xs" "sorted_wrt (\<lambda>a b. span a \<inter> span b = {}) xs"
    "\<forall>x\<in>set xs. fst x < snd x"
  shows "contiguous_end s xs = Some t \<longleftrightarrow> \<Union> (span ` set xs) = {unat s..<unat t} \<and> unat s \<le> unat t"
  using assms
proof (induction xs arbitrary: s)
  case Nil
  then show ?case by (auto simp: unsigned_word_eqI [where 'a = nat])
next
  case (Cons x xs)
  obtain a e where x: "x = (a, e)" by (cases x)
  have ae: "unat a < unat e" using Cons.prems x by (simp add: word_less_nat_alt)
  have IH: "contiguous_end e xs = Some t \<longleftrightarrow> \<Union> (span ` set xs) = {unat e..<unat t} \<and> unat e \<le> unat t"
    using Cons by simp
  let ?U = "\<Union> (span ` set xs)"
  have ge: "y \<in> ?U \<Longrightarrow> unat e \<le> y" for y
  proof -
    assume "y \<in> ?U"
    then obtain z where z: "z \<in> set xs" "y \<in> span z" by auto
    have "unat a \<le> unat (fst z)" "span x \<inter> span z = {}" using Cons.prems x z by (auto simp: word_le_nat_alt)
    with z(2) ae show ?thesis
      unfolding span_def x by (auto simp: not_le)
  qed
  have U: "\<Union> (span ` set (x # xs)) = {unat a..<unat e} \<union> ?U" by (simp add: span_def x)
  show ?case
  proof (cases "a = s")
    case True
    have "{unat s..<unat e} \<union> ?U = {unat s..<unat t} \<and> unat s \<le> unat t \<longleftrightarrow>
        ?U = {unat e..<unat t} \<and> unat e \<le> unat t" (is "?L \<longleftrightarrow> ?R")
    proof
      assume L: ?L
      have "unat e - 1 \<in> {unat s..<unat t}" using L ae True by auto
      then have "unat e \<le> unat t" by auto
      moreover have "?U = {unat e..<unat t}"
      proof (rule set_eqI)
        fix y
        from L have "y \<in> {unat s..<unat e} \<or> y \<in> ?U \<longleftrightarrow> y \<in> {unat s..<unat t}" by blast
        then show "y \<in> ?U \<longleftrightarrow> y \<in> {unat e..<unat t}" using ge [of y] ae True by auto
      qed
      ultimately show ?R by simp
    qed (use ae True in auto)
    then show ?thesis using True x IH U by simp
  next
    case False
    have "\<not> ({unat a..<unat e} \<union> ?U = {unat s..<unat t})"
    proof
      assume eq: "{unat a..<unat e} \<union> ?U = {unat s..<unat t}"
      have "unat a \<in> {unat s..<unat t}" using ae eq by auto
      moreover from this have "unat s \<in> {unat a..<unat e} \<union> ?U" using eq by auto
      then have "unat a \<le> unat s"
        using ge [of "unat s"] ae by (meson Un_iff atLeastLessThan_iff less_imp_le order_trans)
      ultimately have "unat a = unat s" by auto
      then show False using False by (simp add: unsigned_word_eqI [where 'a = nat])
    qed
    then show ?thesis using False x U by simp
  qed
qed

lemma disjoint_list_iff:
  assumes "distinct xs" "\<And>x y. R x y \<Longrightarrow> R y x"
  shows "sorted_wrt R xs \<longleftrightarrow> (\<forall>x\<in>set xs. \<forall>y\<in>set xs. x \<noteq> y \<longrightarrow> R x y)"
  using assms by (induction xs) auto

lemma disjoint_list_distinct:
  "\<forall>x\<in>set xs. f x \<noteq> {} \<Longrightarrow> sorted_wrt (\<lambda>a b. f a \<inter> f b = {}) xs \<Longrightarrow> distinct xs"
  by (induction xs) auto

lemma sorted_wrt_map_pair:
  "pieces_ok ps \<Longrightarrow> sorted_wrt (\<lambda>a b. span a \<inter> span b = {}) (map piece_pair ps)"
  by (auto simp: pieces_ok_def sorted_wrt_map list_all_iff span_piece_pair
      elim!: sorted_wrt_mono_rel [rotated])

lemma pieces_complete_iff:
  assumes "pieces_ok ps"
  shows "pieces_complete ps t \<longleftrightarrow> ps \<noteq> [] \<and> \<Union> (piece_iv ` set ps) = {0..<unat t}"
proof -
  let ?xs = "sorted_pieces ps"
  have ok: "\<forall>p\<in>set ps. piece_ok p" using assms by (simp add: pieces_ok_def list_all_iff)
  have ms: "mset ?xs = mset (map piece_pair ps)" by (rule sorted_pieces_props)
  have set: "set ?xs = piece_pair ` set ps" by (metis ms set_mset_mset set_map)
  have ne: "\<forall>x\<in>set ?xs. span x \<noteq> {}"
    using ok by (auto simp: set span_piece_pair piece_iv_nonempty)
  have lt: "\<forall>x\<in>set ?xs. fst x < snd x" using ne by (auto simp: span_def word_less_nat_alt)
  have dj: "sorted_wrt (\<lambda>a b. span a \<inter> span b = {}) (map piece_pair ps)"
    using assms by (rule sorted_wrt_map_pair)
  have dist: "distinct (map piece_pair ps)"
    using ne set by (intro disjoint_list_distinct [OF _ dj]) auto
  have dist': "distinct ?xs" by (metis dist ms mset_eq_imp_distinct_iff)
  have dj': "sorted_wrt (\<lambda>a b. span a \<inter> span b = {}) ?xs"
    using dj set by (auto simp: disjoint_list_iff [OF dist] disjoint_list_iff [OF dist'] Int_commute)
  have U: "\<Union> (span ` set ?xs) = \<Union> (piece_iv ` set ps)"
    using ok by (auto simp: set span_piece_pair)
  have "pieces_complete ps t \<longleftrightarrow> ps \<noteq> [] \<and> contiguous_end 0 ?xs = Some t"
    using set by (cases ?xs) (auto simp: pieces_complete_def split: if_splits)
  also have "\<dots> \<longleftrightarrow> ps \<noteq> [] \<and> \<Union> (piece_iv ` set ps) = {0..<unat t}"
    by (simp add: contiguous_end_cover [OF sorted_pieces_props(2) dj' lt] U)
  finally show ?thesis .
qed

section \<open>One entry\<close>

definition entry_inv :: "ReassemblyEntry \<Rightarrow> bool" where
  "entry_inv e \<longleftrightarrow>
     pieces_ok (re_pieces e) \<and> length (re_pieces e) \<le> kMaxFragmentsPerEntry \<and>
     (\<forall>p\<in>set (re_pieces e). piece_iv p \<subseteq> {..<length (re_data_buffer e)}) \<and>
     (re_pieces e = [] \<longrightarrow> re_data_buffer e = [] \<and> \<not> re_last_received e)"

text \<open>The fields that a rejected fragment may change are the deadline and the discard mark.\<close>

definition same_content :: "ReassemblyEntry \<Rightarrow> ReassemblyEntry \<Rightarrow> bool" where
  "same_content e e' \<longleftrightarrow>
     re_key e' = re_key e \<and> re_pieces e' = re_pieces e \<and> re_last_received e' = re_last_received e \<and>
     re_total_payload_length e' = re_total_payload_length e \<and> re_data_buffer e' = re_data_buffer e"

text \<open>The entry after a fragment was stored, before the completeness test.\<close>

definition stored :: "u32 \<Rightarrow> bytes \<Rightarrow> u32 \<Rightarrow> bool \<Rightarrow> ReassemblyEntry \<Rightarrow> ReassemblyEntry \<Rightarrow> bool" where
  "stored offset d len mf e e' \<longleftrightarrow>
     (let n = unat offset + unat len; buf = re_data_buffer e in
      re_key e' = re_key e \<and> re_discarded e' = re_discarded e \<and>
      re_pieces e' = re_pieces e @ [\<lparr>fp_offset = offset, fp_length = len\<rparr>] \<and>
      re_data_buffer e' = memcpy_at (unat offset) (take (unat len) d) (buf @ replicate (n - length buf) 0) \<and>
      re_last_received e' = (re_last_received e \<or> \<not> mf) \<and>
      re_total_payload_length e' = (if mf then re_total_payload_length e else offset + len))"

text \<open>The checks that a fragment passes before it is stored.\<close>

definition accepts :: "u32 \<Rightarrow> u32 \<Rightarrow> bool \<Rightarrow> u32 \<Rightarrow> nat \<Rightarrow> ReassemblyEntry \<Rightarrow> bool" where
  "accepts offset len mf mx budget e \<longleftrightarrow>
     len \<noteq> 0 \<and> length (re_pieces e) < kMaxFragmentsPerEntry \<and> offset mod 8 = 0 \<and>
     (mf \<longrightarrow> len mod 8 = 0) \<and> unat offset + unat len < 2 ^ 32 \<and>
     (mx > 0 \<longrightarrow> offset + len \<le> mx) \<and>
     (re_last_received e \<longrightarrow> offset + len \<le> re_total_payload_length e) \<and>
     (\<not> mf \<longrightarrow> re_last_received e \<longrightarrow> offset + len = re_total_payload_length e) \<and>
     \<not> HasOverlap offset len e \<and> \<not> re_discarded e \<and>
     unat (offset + len) - length (re_data_buffer e) \<le> budget"

definition rejected :: "ReassemblyEntry \<Rightarrow> FragmentAddResult \<times> ReassemblyEntry \<Rightarrow> bool" where
  "rejected e x \<longleftrightarrow> far_error (fst x) \<noteq> Frag_None \<and> \<not> far_complete (fst x) \<and> same_content e (snd x)"

lemma rejected_if: "(c \<Longrightarrow> rejected e a) \<Longrightarrow> (\<not> c \<Longrightarrow> rejected e b) \<Longrightarrow> rejected e (if c then a else b)"
  by simp

lemma rejected_fail: "err \<noteq> Frag_None \<Longrightarrow> same_content e e' \<Longrightarrow> rejected e (frag_fail err, e')"
  by (simp add: rejected_def far_init_def)

lemma same_content_simps:
  "same_content e e" "same_content e (e\<lparr>re_discarded := b\<rparr>)" "same_content e (e\<lparr>re_deadline_ms := t\<rparr>)"
  by (simp_all add: same_content_def)

lemma AddFragment_rejects:
  assumes "\<not> accepts offset len mf mx budget e"
  shows "rejected e (AddFragment rok offset (Some d) len mf now exp mx budget ecn e)"
proof (cases "unat offset + unat len < 2 ^ 32")
  case True
  then have add: "CheckedAdd offset len = Some (offset + len)" by (simp add: CheckedAdd_iff)
  show ?thesis
    unfolding AddFragment_def add option.case
    by (intro rejected_if rejected_fail)
      (use assms True in \<open>auto simp: accepts_def same_content_simps not_less not_le\<close>)
next
  case False
  then have add: "CheckedAdd offset len = None" by (simp add: CheckedAdd_iff)
  show ?thesis
    unfolding AddFragment_def add option.case
    by (intro rejected_if rejected_fail) (simp_all add: same_content_simps)
qed

lemma AddFragment_accepts:
  assumes "accepts offset len mf mx budget e"
  shows "AddFragment rok offset (Some d) len mf now exp mx budget ecn e =
    store_fragment rok offset d len (offset + len) mf now exp ecn e"
proof -
  have add: "CheckedAdd offset len = Some (offset + len)"
    using assms by (simp add: CheckedAdd_iff accepts_def)
  have c: "(len = 0) = False" "(length (re_pieces e) \<ge> kMaxFragmentsPerEntry) = False"
    "(offset \<noteq> 0 \<and> offset mod 8 \<noteq> 0) = False" "(mf \<and> len mod 8 \<noteq> 0) = False"
    "(mx > 0 \<and> offset + len > mx) = False"
    "(re_last_received e \<and> offset + len > re_total_payload_length e) = False"
    "(\<not> mf \<and> re_last_received e \<and> offset + len \<noteq> re_total_payload_length e) = False"
    "HasOverlap offset len e = False" "re_discarded e = False"
    "(unat (offset + len) > length (re_data_buffer e) \<and>
      unat (offset + len) - length (re_data_buffer e) > budget) = False"
    using assms by (simp_all only: accepts_def not_le not_less simp_thms) (meson leD)+
  show ?thesis unfolding AddFragment_def add option.case c if_False ..
qed

lemma store_fragment_cases:
  assumes "store_fragment rok offset d len (offset + len) mf now exp ecn e = (r, e')"
    "unat offset + unat len < 2 ^ 32"
  obtains
    (failed) "rejected e (r, e')" "\<not> rok"
  | (kept) "r = far_init" "stored offset d len mf e e'"
      "\<not> (re_last_received e' \<and> pieces_complete (re_pieces e') (re_total_payload_length e'))"
  | (complete) e1 where "stored offset d len mf e e1" "re_last_received e1"
      "pieces_complete (re_pieces e1) (re_total_payload_length e1)"
      "e' = e1\<lparr>re_data_buffer := []\<rparr>" "far_complete r" "far_error r = Frag_None"
      "far_total_length r = unat (re_total_payload_length e1)"
      "far_payload r = take (unat (re_total_payload_length e1)) (re_data_buffer e1)"
proof -
  let ?n = "unat offset + unat len"
  define e0 where "e0 = (if length (re_pieces e) = 0
    then e\<lparr>re_deadline_ms := fragment_deadline now exp\<rparr> else e)"
  have e0: "same_content e e0" "re_discarded e0 = re_discarded e"
    by (simp_all add: e0_def same_content_simps)
  define buf where "buf = re_data_buffer e @ replicate (?n - length (re_data_buffer e)) 0"
  have buf: "(if length (re_data_buffer e0) < unat (offset + len)
      then re_data_buffer e0 @ replicate (unat (offset + len) - length (re_data_buffer e0)) 0
      else re_data_buffer e0) = buf"
    using e0 assms(2) by (simp add: buf_def unat_add_no_wrap same_content_def)
  define e1 where "e1 = (let e = e0\<lparr>re_data_buffer := memcpy_at (unat offset) (take (unat len) d) buf,
      re_pieces := re_pieces e0 @ [\<lparr>fp_offset = offset, fp_length = len\<rparr>],
      re_ecn_or := re_ecn_or e0 OR (ecn AND 0x03),
      re_highest_end := (if offset + len > re_highest_end e0 then offset + len else re_highest_end e0)\<rparr> in
    if \<not> mf then e\<lparr>re_last_received := True, re_total_payload_length := offset + len\<rparr> else e)"
  have st: "stored offset d len mf e e1"
    using e0 by (auto simp: stored_def e1_def buf_def same_content_def Let_def)
  have "(r, e') = (if length (re_data_buffer e0) < unat (offset + len) \<and> \<not> rok
     then (frag_fail Frag_InvalidFragment, e0)
     else if re_last_received e1 \<and> pieces_complete (re_pieces e1) (re_total_payload_length e1) then
       (far_init\<lparr>far_complete := True, far_total_length := unat (re_total_payload_length e1),
          far_ecn := re_ecn_or e1,
          far_payload := (if length (re_data_buffer e1) > unat (re_total_payload_length e1)
            then take (unat (re_total_payload_length e1)) (re_data_buffer e1) else re_data_buffer e1)\<rparr>,
        e1\<lparr>re_data_buffer := []\<rparr>)
     else (far_init, e1))"
    using assms(1) unfolding store_fragment_def Let_def e0_def [symmetric] buf
    unfolding e1_def Let_def by simp
  then show thesis
    using st e0 failed kept complete
    by (auto simp: far_init_def rejected_def split: if_splits)
qed

text \<open>What storing a fragment does to the pieces and to the bytes.\<close>

lemma HasOverlap_iff:
  assumes "pieces_ok (re_pieces e)" "unat offset + unat len < 2 ^ 32" "len \<noteq> 0"
  shows "HasOverlap offset len e \<longleftrightarrow>
    (\<exists>p\<in>set (re_pieces e). piece_iv p \<inter> {unat offset..<unat offset + unat len} \<noteq> {})"
proof -
  have "(offset < fp_offset p + fp_length p \<and> fp_offset p < offset + len) \<longleftrightarrow>
      piece_iv p \<inter> {unat offset..<unat offset + unat len} \<noteq> {}"
    if "p \<in> set (re_pieces e)" for p
  proof -
    have p: "0 < unat (fp_length p)" "0 < unat len" "unat (fp_offset p) + unat (fp_length p) < 2 ^ 32"
      using that assms(1,3) by (auto simp: pieces_ok_def piece_ok_def list_all_iff unat_gt_0)
    then have "piece_iv p \<inter> {unat offset..<unat offset + unat len} \<noteq> {} \<longleftrightarrow>
      unat offset < unat (fp_offset p) + unat (fp_length p) \<and> unat (fp_offset p) < unat offset + unat len"
      by (auto simp: piece_iv_def)
    with p assms(2) show ?thesis by (simp add: word_less_nat_alt unat_add_no_wrap)
  qed
  then show ?thesis by (auto simp: HasOverlap_def list_ex_iff Let_def)
qed

lemma stored_buffer:
  assumes "stored offset d len mf e e'" "length d = unat len"
  shows "length (re_data_buffer e') = max (length (re_data_buffer e)) (unat offset + unat len)"
    "x \<in> {unat offset..<unat offset + unat len} \<Longrightarrow> re_data_buffer e' ! x = d ! (x - unat offset)"
    "x < length (re_data_buffer e) \<Longrightarrow> x \<notin> {unat offset..<unat offset + unat len} \<Longrightarrow>
       re_data_buffer e' ! x = re_data_buffer e ! x"
  using assms by (auto simp: stored_def Let_def nth_memcpy_at nth_append)

lemma stored_pieces_ok:
  assumes "stored offset d len mf e e'" "pieces_ok (re_pieces e)" "unat offset + unat len < 2 ^ 32"
    "len \<noteq> 0" "\<not> HasOverlap offset len e"
  shows "pieces_ok (re_pieces e')"
proof -
  have "\<forall>p\<in>set (re_pieces e). piece_iv p \<inter> {unat offset..<unat offset + unat len} = {}"
    using assms(5) HasOverlap_iff [OF assms(2,3,4)] by blast
  moreover have "0 < unat len" using assms(4) by (simp add: unat_gt_0)
  ultimately show ?thesis
    using assms by (auto simp: pieces_ok_def stored_def Let_def sorted_wrt_append piece_ok_def piece_iv_def)
qed

lemma stored_inv:
  assumes "entry_inv e" "stored offset d len mf e e'" "accepts offset len mf mx budget e"
    "length d = unat len"
  shows "entry_inv e'"
proof -
  have "pieces_ok (re_pieces e')"
    using assms stored_pieces_ok by (auto simp: entry_inv_def accepts_def)
  moreover have "re_pieces e' = re_pieces e @ [\<lparr>fp_offset = offset, fp_length = len\<rparr>]"
    using assms(2) by (simp add: stored_def Let_def)
  ultimately show ?thesis
    using assms(1,3) stored_buffer(1) [OF assms(2,4)]
    by (fastforce simp: entry_inv_def accepts_def piece_iv_def)
qed

section \<open>Entries of an honest datagram\<close>

text \<open>
  \<open>fragment_of D off d mf\<close>: the bytes \<open>d\<close> at offset \<open>off\<close> are a fragment of the datagram payload \<open>D\<close>
  and the MF flag is off on the last one only. \<open>holds D e\<close>: what the entry has stored is from \<open>D\<close>.
\<close>

definition fragment_of :: "bytes \<Rightarrow> nat \<Rightarrow> bytes \<Rightarrow> bool \<Rightarrow> bool" where
  "fragment_of D off d mf \<longleftrightarrow>
     off + length d \<le> length D \<and> d = slice off (length d) D \<and> (mf \<longleftrightarrow> off + length d < length D)"

definition holds :: "bytes \<Rightarrow> ReassemblyEntry \<Rightarrow> bool" where
  "holds D e \<longleftrightarrow>
     (\<forall>p\<in>set (re_pieces e). \<forall>x\<in>piece_iv p. x < length D \<and> re_data_buffer e ! x = D ! x) \<and>
     (re_last_received e \<longrightarrow> unat (re_total_payload_length e) = length D)"

lemma holds_stored:
  assumes "entry_inv e" "holds D e" "stored offset d len mf e e'" "accepts offset len mf mx budget e"
    "length d = unat len" "fragment_of D (unat offset) d mf"
  shows "holds D e'"
proof -
  have ov: "\<forall>p\<in>set (re_pieces e). piece_iv p \<inter> {unat offset..<unat offset + unat len} = {}"
    using assms(1,4) HasOverlap_iff [of e offset len] by (auto simp: entry_inv_def accepts_def)
  have old: "re_data_buffer e' ! x = D ! x \<and> x < length D"
    if "p \<in> set (re_pieces e)" "x \<in> piece_iv p" for p x
  proof -
    have "x < length (re_data_buffer e)" using that assms(1) by (auto simp: entry_inv_def)
    moreover have "x \<notin> {unat offset..<unat offset + unat len}" using ov that by blast
    ultimately show ?thesis
      using that assms(2) stored_buffer(3) [OF assms(3,5)] by (simp add: holds_def)
  qed
  have new: "re_data_buffer e' ! x = D ! x \<and> x < length D"
    if "x \<in> {unat offset..<unat offset + unat len}" for x
  proof -
    have "d ! (x - unat offset) = D ! x"
      using that assms(5,6) nth_slice [of "x - unat offset" "length d" "unat offset" D]
      by (auto simp: fragment_of_def)
    with that assms(5,6) show ?thesis
      by (simp add: stored_buffer(2) [OF assms(3,5) that] fragment_of_def)
  qed
  have "re_pieces e' = re_pieces e @ [\<lparr>fp_offset = offset, fp_length = len\<rparr>]"
    "re_last_received e' = (re_last_received e \<or> \<not> mf)"
    "re_total_payload_length e' = (if mf then re_total_payload_length e else offset + len)"
    using assms(3) by (simp_all add: stored_def Let_def)
  with old new assms(2,4,5,6) show ?thesis
    by (auto simp: holds_def piece_iv_def accepts_def fragment_of_def unat_add_no_wrap)
qed

lemma complete_payload:
  assumes "entry_inv e" "holds D e" "re_last_received e"
    "pieces_complete (re_pieces e) (re_total_payload_length e)"
  shows "take (unat (re_total_payload_length e)) (re_data_buffer e) = D"
proof -
  have U: "\<Union> (piece_iv ` set (re_pieces e)) = {0..<length D}"
    using assms pieces_complete_iff [of "re_pieces e" "re_total_payload_length e"]
    by (simp add: entry_inv_def holds_def)
  have "{0..<length D} \<subseteq> {..<length (re_data_buffer e)}"
    using assms(1) unfolding U [symmetric] by (auto simp: entry_inv_def)
  then have len: "length D \<le> length (re_data_buffer e)"
    by (cases "length D = 0") (auto simp: subset_eq Ball_def dest: spec [of _ "length D - 1"])
  have "re_data_buffer e ! x = D ! x" if "x < length D" for x
    using that U assms(2) by (force simp: holds_def)
  then show ?thesis
    using assms(2,3) len by (intro nth_equalityI) (auto simp: holds_def)
qed

end
