(* ===== verification/FragmentTable.thy ===== *)
theory FragmentTable
  imports FragmentCorrect
begin

text \<open>
  The reassembly table: bounded, exact byte accounting, at most one entry per datagram, and every
  datagram that it delivers is the one that was sent.
\<close>

section \<open>Invariant of the table\<close>

definition bytes_held :: "ReassemblyEntry list \<Rightarrow> nat" where
  "bytes_held es = sum_list (map Entry_BytesHeld es)"

definition keys_unique :: "ReassemblyEntry list \<Rightarrow> bool" where
  "keys_unique es \<longleftrightarrow>
     (\<forall>i<length es. \<forall>j<length es. i \<noteq> j \<longrightarrow> InUse (es ! i) \<longrightarrow> InUse (es ! j) \<longrightarrow>
        re_key (es ! i) \<noteq> re_key (es ! j))"

definition table_inv :: "FragmentReassembler \<Rightarrow> bool" where
  "table_inv r \<longleftrightarrow>
     fr_max_entries r \<le> kMaxReassemblyEntries \<and> length (fr_entries r) \<le> fr_max_entries r \<and>
     (\<forall>e\<in>set (fr_entries r). entry_inv e) \<and> keys_unique (fr_entries r) \<and>
     fr_current_bytes r = bytes_held (fr_entries r) \<and> fr_current_bytes r \<le> fr_max_total_bytes r"

definition table_holds :: "(FragmentKey \<Rightarrow> bytes) \<Rightarrow> FragmentReassembler \<Rightarrow> bool" where
  "table_holds D r \<longleftrightarrow> (\<forall>e\<in>set (fr_entries r). holds (D (re_key e)) e)"

lemma Matches_iff: "Matches k k' \<longleftrightarrow> k = k'"
  by (auto simp: Matches_def)

lemma InUse_iff: "InUse e \<longleftrightarrow> re_pieces e \<noteq> []"
  by (simp add: InUse_def)

lemma empty_entry:
  assumes "re_pieces e = []" "entry_inv e"
  shows "holds D e" "entry_inv (e\<lparr>re_key := k\<rparr>)" "Entry_BytesHeld e = 0" "\<not> InUse e" "holds D (e\<lparr>re_key := k\<rparr>)"
  using assms by (simp_all add: holds_def entry_inv_def Entry_BytesHeld_def InUse_iff)

lemma Entry_Reset_props:
  "re_pieces (Entry_Reset e) = []" "entry_inv (Entry_Reset e)" "Entry_BytesHeld (Entry_Reset e) = 0"
  by (simp_all add: Entry_Reset_def entry_inv_def pieces_ok_def Entry_BytesHeld_def)

lemma bytes_held_upd:
  "i < length es \<Longrightarrow> bytes_held (es[i := e]) = bytes_held es - Entry_BytesHeld (es ! i) + Entry_BytesHeld e"
  "i < length es \<Longrightarrow> Entry_BytesHeld (es ! i) \<le> bytes_held es"
proof -
  assume i: "i < length es"
  show le: "Entry_BytesHeld (es ! i) \<le> bytes_held es"
    using i elem_le_sum_list [of i "map Entry_BytesHeld es"] by (simp add: bytes_held_def)
  show "bytes_held (es[i := e]) = bytes_held es - Entry_BytesHeld (es ! i) + Entry_BytesHeld e"
    using i le sum_list_update [of i "map Entry_BytesHeld es" "Entry_BytesHeld e"]
    by (simp add: bytes_held_def map_update)
qed

lemma keys_unique_upd:
  assumes "keys_unique es" "i < length es"
    "InUse e \<Longrightarrow> \<forall>j<length es. j \<noteq> i \<longrightarrow> InUse (es ! j) \<longrightarrow> re_key (es ! j) \<noteq> re_key e"
  shows "keys_unique (es[i := e])"
  using assms by (auto simp: keys_unique_def nth_list_update)

lemma in_set_updD: "x \<in> set (xs[i := y]) \<Longrightarrow> x = y \<or> x \<in> set xs"
  using set_update_subset_insert [of xs i y] by auto

section \<open>The operations keep it\<close>

lemma release_entry_inv:
  assumes "table_inv r" "i < length (fr_entries r)"
  shows "table_inv (release_entry i r)" "table_holds D r \<Longrightarrow> table_holds D (release_entry i r)"
proof -
  note reset = Entry_Reset_props [of "fr_entries r ! i"]
  have "keys_unique ((fr_entries r)[i := Entry_Reset (fr_entries r ! i)])"
    using assms reset by (intro keys_unique_upd) (auto simp: table_inv_def InUse_iff)
  then show "table_inv (release_entry i r)"
    using assms reset bytes_held_upd [OF assms(2)]
    by (auto simp: table_inv_def release_entry_def dest!: in_set_updD)
  show "table_holds D r \<Longrightarrow> table_holds D (release_entry i r)"
    using empty_entry(1) [OF reset(1,2)] by (auto simp: table_holds_def release_entry_def dest!: in_set_updD)
qed

lemma set_key_inv:
  assumes "table_inv r" "i < length (fr_entries r)" "\<not> InUse (fr_entries r ! i)"
  shows "table_inv (set_key i key r)" "table_holds D r \<Longrightarrow> table_holds D (set_key i key r)"
proof -
  have "entry_inv (fr_entries r ! i)" using assms by (auto simp: table_inv_def)
  with assms(3) have e: "re_pieces (fr_entries r ! i) = []" "entry_inv (fr_entries r ! i)"
    by (auto simp: InUse_iff)
  have "keys_unique ((fr_entries r)[i := (fr_entries r ! i)\<lparr>re_key := key\<rparr>])"
    using assms by (intro keys_unique_upd) (auto simp: table_inv_def InUse_iff)
  then show "table_inv (set_key i key r)"
    using assms empty_entry [OF e] bytes_held_upd [OF assms(2)]
    by (auto simp: table_inv_def set_key_def Entry_BytesHeld_def dest!: in_set_updD)
  show "table_holds D r \<Longrightarrow> table_holds D (set_key i key r)"
    using empty_entry(5) [OF e] by (auto simp: table_holds_def set_key_def dest!: in_set_updD)
qed

lemma emplace_inv:
  assumes "table_inv r" "length (fr_entries r) < fr_max_entries r"
  shows "table_inv (r\<lparr>fr_entries := fr_entries r @ [ReassemblyEntry_init]\<rparr>)"
    "table_holds D r \<Longrightarrow> table_holds D (r\<lparr>fr_entries := fr_entries r @ [ReassemblyEntry_init]\<rparr>)"
  using assms
  by (auto simp: table_inv_def table_holds_def ReassemblyEntry_init_def entry_inv_def holds_def
      pieces_ok_def bytes_held_def Entry_BytesHeld_def keys_unique_def nth_append InUse_iff less_Suc_eq)

text \<open>The entry that \<open>FindOrCreate\<close> returns has the key, and no other active entry has it.\<close>

definition owns_key :: "nat \<Rightarrow> FragmentKey \<Rightarrow> FragmentReassembler \<Rightarrow> bool" where
  "owns_key i key r \<longleftrightarrow>
     i < length (fr_entries r) \<and> re_key (fr_entries r ! i) = key \<and>
     (\<forall>j<length (fr_entries r). j \<noteq> i \<longrightarrow> InUse (fr_entries r ! j) \<longrightarrow> re_key (fr_entries r ! j) \<noteq> key)"

lemma FindOrCreate_spec:
  assumes "FindOrCreate eok key now r = (res, r')" "table_inv r"
  shows "table_inv r' \<and> (table_holds D r \<longrightarrow> table_holds D r') \<and>
    (case res of Inl err \<Rightarrow> err = Frag_TooManyEntries \<and> r' = r | Inr i \<Rightarrow> owns_key i key r')"
proof (cases "find_index (\<lambda>e. InUse e \<and> Matches (re_key e) key) (fr_entries r)")
  case (Some i)
  then have i: "i < length (fr_entries r)" "InUse (fr_entries r ! i)" "re_key (fr_entries r ! i) = key"
    by (auto simp: find_index_Some Matches_iff)
  have uniq: "j < length (fr_entries r) \<Longrightarrow> j \<noteq> i \<Longrightarrow> InUse (fr_entries r ! j) \<Longrightarrow> re_key (fr_entries r ! j) \<noteq> key" for j
    using assms(2) i by (auto simp: table_inv_def keys_unique_def)
  note rel = release_entry_inv [OF assms(2) i(1)]
  have len: "i < length (fr_entries (release_entry i r))" using i by (simp add: release_entry_def)
  have "\<not> InUse (fr_entries (release_entry i r) ! i)"
    using i(1) by (simp add: release_entry_def InUse_iff Entry_Reset_props)
  note set = set_key_inv [OF rel(1) len this]
  have "owns_key i key r" "owns_key i key (set_key i key (release_entry i r))"
    using i uniq by (auto simp: owns_key_def set_key_def release_entry_def nth_list_update)
  with assms Some rel set show ?thesis
    by (auto simp: FindOrCreate_def split: if_splits)
next
  case None
  then have none: "j < length (fr_entries r) \<Longrightarrow> InUse (fr_entries r ! j) \<Longrightarrow> re_key (fr_entries r ! j) \<noteq> key" for j
    by (auto simp: find_index_None Matches_iff)
  show ?thesis
  proof (cases "find_index (\<lambda>e. \<not> InUse e \<or> Entry_IsExpired now e) (fr_entries r)")
    case (Some i)
    then have i: "i < length (fr_entries r)" by (auto simp: find_index_Some)
    note rel = release_entry_inv [OF assms(2) i]
    have len: "i < length (fr_entries (release_entry i r))" using i by (simp add: release_entry_def)
    have "\<not> InUse (fr_entries (release_entry i r) ! i)"
      using i by (simp add: release_entry_def InUse_iff Entry_Reset_props)
    note set = set_key_inv [OF rel(1) len this]
    have "owns_key i key (set_key i key r)" "owns_key i key (set_key i key (release_entry i r))"
      using i none by (auto simp: owns_key_def set_key_def release_entry_def nth_list_update)
    with assms None Some rel set set_key_inv [OF assms(2) i] show ?thesis
      by (auto simp: FindOrCreate_def split: if_splits)
  next
    case None': None
    let ?r = "r\<lparr>fr_entries := fr_entries r @ [ReassemblyEntry_init]\<rparr>"
    have "owns_key (length (fr_entries r)) key (set_key (length (fr_entries r)) key ?r)"
      using none by (auto simp: owns_key_def set_key_def nth_append nth_list_update less_Suc_eq)
    moreover have "\<not> InUse (fr_entries ?r ! length (fr_entries r))"
      by (simp add: InUse_iff ReassemblyEntry_init_def)
    ultimately show ?thesis
      using assms None None' emplace_inv [OF assms(2)]
        set_key_inv [of ?r "length (fr_entries r)", OF emplace_inv(1) [OF assms(2)]]
      by (auto simp: FindOrCreate_def split: if_splits)
  qed
qed

text \<open>Replacing the entry that owns the key.\<close>

lemma replace_entry_inv:
  assumes "table_inv r" "owns_key i key r" "entry_inv e" "InUse e \<Longrightarrow> re_key e = key"
    "cb = fr_current_bytes r - Entry_BytesHeld (fr_entries r ! i) + Entry_BytesHeld e"
    "cb \<le> fr_max_total_bytes r"
  shows "table_inv (r\<lparr>fr_entries := (fr_entries r)[i := e], fr_current_bytes := cb\<rparr>)"
proof -
  have i: "i < length (fr_entries r)" using assms(2) by (simp add: owns_key_def)
  have "keys_unique ((fr_entries r)[i := e])"
    using assms i by (intro keys_unique_upd) (auto simp: table_inv_def owns_key_def)
  then show ?thesis
    using assms bytes_held_upd [OF i] by (auto simp: table_inv_def dest!: in_set_updD)
qed

lemma replace_entry_holds:
  assumes "table_holds D r" "holds (D (re_key e)) e"
  shows "table_holds D (r\<lparr>fr_entries := (fr_entries r)[i := e]\<rparr>)"
    "table_holds D (r\<lparr>fr_entries := (fr_entries r)[i := e], fr_current_bytes := cb\<rparr>)"
  using assms by (auto simp: table_holds_def dest!: in_set_updD)

lemma same_content_keeps:
  assumes "same_content e e'"
  shows "entry_inv e \<Longrightarrow> entry_inv e'" "holds D e \<Longrightarrow> holds D e'" "re_key e' = re_key e"
    "Entry_BytesHeld e' = Entry_BytesHeld e"
  using assms by (simp_all add: same_content_def entry_inv_def holds_def Entry_BytesHeld_def)

text \<open>The three outcomes of adding a fragment to the entry that owns its key.\<close>

lemma AddFragment_outcome:
  assumes "AddFragment rok off (Some d) len mf now exp mx budget ecn e = (res, e')"
    "entry_inv e" "length d = unat len"
  obtains
    (rejected) "far_error res \<noteq> Frag_None" "\<not> far_complete res" "same_content e e'"
  | (kept) "far_error res = Frag_None" "\<not> far_complete res" "entry_inv e'" "re_key e' = re_key e"
      "Entry_BytesHeld e \<le> Entry_BytesHeld e'" "Entry_BytesHeld e' - Entry_BytesHeld e \<le> budget"
      "\<And>D. holds D e \<Longrightarrow> fragment_of D (unat off) d mf \<Longrightarrow> holds D e'"
  | (complete) "far_error res = Frag_None" "far_complete res"
      "\<And>D. holds D e \<Longrightarrow> fragment_of D (unat off) d mf \<Longrightarrow> far_payload res = D"
proof (cases "accepts off len mf mx budget e")
  case False
  from AddFragment_rejects [OF this, of rok d now exp ecn, unfolded assms(1)] rejected
  show thesis by (auto simp: rejected_def)
next
  case True
  note st = AddFragment_accepts [OF True, of rok d now exp ecn, unfolded assms(1), symmetric]
  have nw: "unat off + unat len < 2 ^ 32" using True by (simp add: accepts_def)
  show thesis
    using st nw
  proof (cases rule: store_fragment_cases)
    case failed
    with rejected show ?thesis by (auto simp: rejected_def)
  next
    case kept': kept
    have "unat off + unat len - length (re_data_buffer e) \<le> budget"
      using True unat_add_no_wrap [OF nw] by (simp add: accepts_def)
    then have "Entry_BytesHeld e' - Entry_BytesHeld e \<le> budget" "Entry_BytesHeld e \<le> Entry_BytesHeld e'"
      using stored_buffer(1) [OF kept'(2) assms(3)] by (auto simp: Entry_BytesHeld_def max_def)
    moreover have "re_key e' = re_key e" using kept'(2) by (simp add: stored_def Let_def)
    ultimately show ?thesis
      using kept kept' stored_inv [OF assms(2) kept'(2) True assms(3)]
        holds_stored [OF assms(2) _ kept'(2) True assms(3)]
      by (auto simp: far_init_def)
  next
    case complete': (complete e1)
    have "far_payload res = D" if "holds D e" "fragment_of D (unat off) d mf" for D
      using complete_payload [OF stored_inv [OF assms(2) complete'(1) True assms(3)]
          holds_stored [OF assms(2) that(1) complete'(1) True assms(3) that(2)] complete'(2,3)]
      by (simp add: complete'(8))
    with complete complete' show ?thesis by auto
  qed
qed

lemma add_to_entry_spec:
  assumes "add_to_entry eok rok key off d mf now exp mx ecn r = (res, r')" "table_inv r"
    "length d < 2 ^ 32"
  shows "table_inv r' \<and>
    (table_holds D r \<and> fragment_of (D key) (unat off) d mf \<longrightarrow>
       table_holds D r' \<and> (far_complete res \<longrightarrow> far_payload res = D key))"
proof (cases "FindOrCreate eok key now r")
  case (Pair f r1)
  note spec = FindOrCreate_spec [OF Pair assms(2), of D]
  show ?thesis
  proof (cases f)
    case (Inl err)
    with assms Pair spec show ?thesis by (auto simp: add_to_entry_def far_init_def)
  next
    case (Inr i)
    let ?e = "fr_entries r1 ! i" and ?len = "of_nat (length d) :: u32"
    let ?budget = "if fr_current_bytes r1 < fr_max_total_bytes r1
      then fr_max_total_bytes r1 - fr_current_bytes r1 else 0"
    obtain res1 e' where add: "AddFragment rok off (Some d) ?len mf now exp mx ?budget ecn ?e = (res1, e')"
      by (meson surj_pair)
    have inv: "table_inv r1" "owns_key i key r1" "table_holds D r \<Longrightarrow> table_holds D r1"
      using spec Inr by auto
    then have e: "entry_inv ?e" "re_key ?e = key" "i < length (fr_entries r1)"
      "table_holds D r1 \<Longrightarrow> holds (D key) ?e"
      by (auto simp: table_inv_def owns_key_def table_holds_def)
    have len: "length d = unat ?len" using assms(3) by (simp add: unsigned_of_nat take_bit_nat_eq_self)
    have cb: "fr_current_bytes r1 \<le> fr_max_total_bytes r1" "Entry_BytesHeld ?e \<le> fr_current_bytes r1"
      using inv(1) bytes_held_upd(2) [OF e(3)] by (auto simp: table_inv_def)
    have result: "(res, r') = (if far_complete res1 then
        (res1, r1\<lparr>fr_entries := (fr_entries r1)[i := Entry_Reset e'],
                  fr_current_bytes := fr_current_bytes r1 - Entry_BytesHeld ?e\<rparr>)
      else if far_error res1 = Frag_None then
        (res1, r1\<lparr>fr_entries := (fr_entries r1)[i := e'],
                  fr_current_bytes := fr_current_bytes r1 + (Entry_BytesHeld e' - Entry_BytesHeld ?e)\<rparr>)
      else (res1, r1\<lparr>fr_entries := (fr_entries r1)[i := e'], fr_current_bytes := fr_current_bytes r1\<rparr>))"
      using assms(1) Pair Inr add by (auto simp: add_to_entry_def Let_def)
    from add e(1) len show ?thesis
    proof (cases rule: AddFragment_outcome)
      case rejected
      note s = same_content_keeps [OF rejected(3)]
      have r': "res = res1" "r' = r1\<lparr>fr_entries := (fr_entries r1)[i := e'], fr_current_bytes := fr_current_bytes r1\<rparr>"
        using result rejected by simp_all
      have "table_inv r'"
        unfolding r' by (rule replace_entry_inv [OF inv(1,2) s(1) [OF e(1)]]) (use s e cb in auto)
      then show ?thesis
        using rejected(2) r' inv(3) e(2,4) s(2,3) by (auto intro!: replace_entry_holds)
    next
      case kept
      have r': "res = res1" "r' = r1\<lparr>fr_entries := (fr_entries r1)[i := e'],
          fr_current_bytes := fr_current_bytes r1 + (Entry_BytesHeld e' - Entry_BytesHeld ?e)\<rparr>"
        using result kept(1,2) by simp_all
      have "table_inv r'"
        unfolding r'
        by (rule replace_entry_inv [OF inv(1,2) kept(3)]) (use kept(4-6) e(2) cb in \<open>auto split: if_splits\<close>)
      then show ?thesis
        using kept(2,4,7) r' inv(3) e(2,4) by (auto intro!: replace_entry_holds)
    next
      case complete
      note reset = Entry_Reset_props [of e']
      have r': "res = res1" "r' = r1\<lparr>fr_entries := (fr_entries r1)[i := Entry_Reset e'],
          fr_current_bytes := fr_current_bytes r1 - Entry_BytesHeld ?e\<rparr>"
        using result complete(2) by simp_all
      have "table_inv r'"
        unfolding r'
        by (rule replace_entry_inv [OF inv(1,2) reset(2)]) (use reset(1,3) cb in \<open>auto simp: InUse_iff\<close>)
      then show ?thesis
        using complete(3) r' inv(3) e(4) empty_entry(1) [OF reset(1,2)]
        by (auto intro!: replace_entry_holds)
    qed
  qed
qed

section \<open>Histories\<close>

text \<open>
  The operations of the table with their arguments, in the order of the C++ parameters; the first
  two flags say whether the allocations succeed.
\<close>

datatype frag_op =
    Ipv4Frag bool bool "bytes option" "bytes option" u8 u16 u16 bool "bytes option" u64 u32 u32 u8
  | Ipv6Frag bool bool "bytes option" "bytes option" u32 u16 bool "bytes option" u64 u32 u32 u8 u8
  | FragPurge u64

fun frag_exec :: "frag_op \<Rightarrow> FragmentReassembler \<Rightarrow> FragmentAddResult option \<times> FragmentReassembler" where
  "frag_exec (Ipv4Frag eok rok src dst proto ident fo mf p now exp mx ecn) r =
     apfst Some (AddIpv4Fragment eok rok src dst proto ident fo mf p now exp mx ecn r)"
| "frag_exec (Ipv6Frag eok rok src dst ident fo mf p now exp mx proto ecn) r =
     apfst Some (AddIpv6Fragment eok rok src dst ident fo mf p now exp mx proto ecn r)"
| "frag_exec (FragPurge now) r = (None, snd (Reassembler_Purge now r))"

definition frag_step :: "frag_op \<Rightarrow> FragmentReassembler \<Rightarrow> FragmentReassembler" where
  "frag_step op r = snd (frag_exec op r)"

fun op_key :: "frag_op \<Rightarrow> FragmentKey" where
  "op_key (Ipv4Frag eok rok src dst proto ident fo mf p now exp mx ecn) =
     \<lparr>fk_src_ip = FillIpv4Mapped (the src), fk_dst_ip = FillIpv4Mapped (the dst), fk_ip_version = 4,
      fk_protocol = proto, fk_identification = ucast ident\<rparr>"
| "op_key (Ipv6Frag eok rok src dst ident fo mf p now exp mx proto ecn) =
     \<lparr>fk_src_ip = take 16 (the src), fk_dst_ip = take 16 (the dst), fk_ip_version = 6,
      fk_protocol = proto, fk_identification = ident\<rparr>"
| "op_key (FragPurge now) = FragmentKey_init"

text \<open>Every fragment with a key is a fragment of one datagram \<open>D key\<close>.\<close>

fun honest :: "(FragmentKey \<Rightarrow> bytes) \<Rightarrow> frag_op \<Rightarrow> bool" where
  "honest D (Ipv4Frag eok rok src dst proto ident fo mf p now exp mx ecn) =
     (case p of None \<Rightarrow> True
      | Some d \<Rightarrow> fragment_of (D (op_key (Ipv4Frag eok rok src dst proto ident fo mf p now exp mx ecn)))
                   (8 * unat fo) d mf)"
| "honest D (Ipv6Frag eok rok src dst ident fo mf p now exp mx proto ecn) =
     (case p of None \<Rightarrow> True
      | Some d \<Rightarrow> fragment_of (D (op_key (Ipv6Frag eok rok src dst ident fo mf p now exp mx proto ecn)))
                   (8 * unat fo) d mf)"
| "honest D (FragPurge now) = True"

lemma byte_offset:
  "CheckedMul (ucast (fo::u16)) 8 = Some (ucast fo * 8 :: u32) \<and> unat (ucast fo * 8 :: u32) = 8 * unat fo"
proof -
  have "unat (ucast fo :: u32) = unat fo"
    using unat_u16_less [of fo] by (simp add: unsigned_ucast_eq take_bit_nat_eq_self)
  then show ?thesis
    using unat_u16_less [of fo] by (simp add: CheckedMul_iff unat_word_ariths)
qed

lemma purge_fold_inv:
  "\<forall>i\<in>set is. i < length (fr_entries r) \<Longrightarrow> table_inv r \<Longrightarrow> fold (purge_entry now) is (n, r) = (n', r') \<Longrightarrow>
     table_inv r' \<and> (table_holds D r \<longrightarrow> table_holds D r')"
proof (induction "is" arbitrary: n r)
  case (Cons i "is")
  have len: "length (fr_entries (release_entry i r)) = length (fr_entries r)"
    by (simp add: release_entry_def)
  show ?case
    using Cons.IH [of r n] Cons.IH [of "release_entry i r" "n + 1"] Cons.prems
      release_entry_inv [of r i] len
    by (auto simp: purge_entry_def split: if_splits)
qed simp

lemma Reassembler_Purge_inv:
  "table_inv r \<Longrightarrow> table_inv (snd (Reassembler_Purge now r)) \<and>
     (table_holds D r \<longrightarrow> table_holds D (snd (Reassembler_Purge now r)))"
  using purge_fold_inv [of "[0..<length (fr_entries r)]" r now 0]
  by (cases "Reassembler_Purge now r") (auto simp: Reassembler_Purge_def)

lemma add_to_entry_spec':
  assumes "table_inv r" "length d < 2 ^ 32"
  shows "table_inv (snd (add_to_entry eok rok key off d mf now exp mx ecn r))"
    "table_holds D r \<Longrightarrow> fragment_of (D key) (unat off) d mf \<Longrightarrow>
       table_holds D (snd (add_to_entry eok rok key off d mf now exp mx ecn r)) \<and>
       (far_complete (fst (add_to_entry eok rok key off d mf now exp mx ecn r)) \<longrightarrow>
        far_payload (fst (add_to_entry eok rok key off d mf now exp mx ecn r)) = D key)"
  using add_to_entry_spec [OF prod.collapse [symmetric] assms] by blast+

definition delivers :: "(FragmentKey \<Rightarrow> bytes) \<Rightarrow> FragmentKey \<Rightarrow> FragmentAddResult \<times> FragmentReassembler \<Rightarrow> bool" where
  "delivers D key x \<longleftrightarrow>
     table_holds D (snd x) \<and> (far_complete (fst x) \<longrightarrow> far_payload (fst x) = D key)"

lemma delivers_fail: "table_holds D r \<Longrightarrow> delivers D key (frag_fail err, r)"
  by (simp add: delivers_def far_init_def)

lemma AddIpv4Fragment_spec:
  assumes "table_inv r"
  shows "table_inv (snd (AddIpv4Fragment eok rok src dst proto ident fo mf p now exp mx ecn r))"
    "table_holds D r \<Longrightarrow> honest D (Ipv4Frag eok rok src dst proto ident fo mf p now exp mx ecn) \<Longrightarrow>
       delivers D (op_key (Ipv4Frag eok rok src dst proto ident fo mf p now exp mx ecn))
         (AddIpv4Fragment eok rok src dst proto ident fo mf p now exp mx ecn r)"
  using assms byte_offset [of fo]
  by (auto simp: AddIpv4Fragment_def add_to_entry_spec' delivers_fail not_less
      intro!: delivers_def [THEN iffD2] add_to_entry_spec'(2) split: option.splits)

lemma AddIpv6Fragment_spec:
  assumes "table_inv r"
  shows "table_inv (snd (AddIpv6Fragment eok rok src dst ident fo mf p now exp mx proto ecn r))"
    "table_holds D r \<Longrightarrow> honest D (Ipv6Frag eok rok src dst ident fo mf p now exp mx proto ecn) \<Longrightarrow>
       delivers D (op_key (Ipv6Frag eok rok src dst ident fo mf p now exp mx proto ecn))
         (AddIpv6Fragment eok rok src dst ident fo mf p now exp mx proto ecn r)"
  using assms byte_offset [of fo]
  by (auto simp: AddIpv6Fragment_def add_to_entry_spec' delivers_fail not_less
      intro!: delivers_def [THEN iffD2] add_to_entry_spec'(2) split: option.splits)

lemma frag_step_inv: "table_inv r \<Longrightarrow> table_inv (frag_step op r)"
  by (cases op) (simp_all add: frag_step_def AddIpv4Fragment_spec AddIpv6Fragment_spec Reassembler_Purge_inv)

lemma frag_step_holds:
  "table_inv r \<Longrightarrow> table_holds D r \<Longrightarrow> honest D op \<Longrightarrow> table_holds D (frag_step op r)"
  using AddIpv4Fragment_spec(2) [of r D] AddIpv6Fragment_spec(2) [of r D] Reassembler_Purge_inv [of r]
  by (cases op) (simp_all add: frag_step_def delivers_def)

interpretation frag: machine frag_step table_inv
  by unfold_locales (rule frag_step_inv)

interpretation honest_frag: guarded_machine frag_step "honest D" "\<lambda>r. table_inv r \<and> table_holds D r"
  for D
  by unfold_locales (simp add: frag_step_inv frag_step_holds)

section \<open>Properties of the table\<close>

abbreviation reassembler_after :: "frag_op list \<Rightarrow> nat \<Rightarrow> nat \<Rightarrow> FragmentReassembler" where
  "reassembler_after ops n b \<equiv> run frag_step ops (FragmentReassembler_init n b)"

lemma FragmentReassembler_init_inv:
  "table_inv (FragmentReassembler_init n b)" "table_holds D (FragmentReassembler_init n b)"
  by (simp_all add: table_inv_def table_holds_def FragmentReassembler_init_def Let_def keys_unique_def
      bytes_held_def kMaxReassemblyEntries_def)

text \<open>
  C20: After any sequence of IPv4 and IPv6 fragments and purges, with any pattern of allocation
  failures, the table has at most 256 entries, \<open>BytesHeld\<close> is exactly the sum of the buffers of its
  entries and never exceeds the byte budget, and no two active entries belong to the same
  datagram.\<close>

theorem fragment_table_bounded:
  "let r = reassembler_after ops n b in
     length (fr_entries r) \<le> 256 \<and> Reassembler_Size r \<le> length (fr_entries r) \<and>
     Reassembler_BytesHeld r = sum_list (map Entry_BytesHeld (fr_entries r)) \<and>
     Reassembler_BytesHeld r \<le> fr_max_total_bytes r \<and>
     distinct (map re_key (filter InUse (fr_entries r)))"
proof -
  let ?r = "reassembler_after ops n b"
  have inv: "table_inv ?r" by (rule frag.run_inv [OF FragmentReassembler_init_inv(1)])
  have "distinct (map re_key (filter InUse es))" if "keys_unique es" for es
    using that
  proof (induction es)
    case (Cons e es)
    have "i < length es \<Longrightarrow> j < length es \<Longrightarrow> i \<noteq> j \<Longrightarrow> InUse (es ! i) \<Longrightarrow> InUse (es ! j) \<Longrightarrow>
        re_key (es ! i) \<noteq> re_key (es ! j)" for i j
      using Cons.prems unfolding keys_unique_def by (metis Suc_inject Suc_less_eq length_Cons nth_Cons_Suc)
    moreover have "i < length es \<Longrightarrow> InUse e \<Longrightarrow> InUse (es ! i) \<Longrightarrow> re_key e \<noteq> re_key (es ! i)" for i
      using Cons.prems unfolding keys_unique_def
      by (metis Suc_less_eq length_Cons nat.distinct(1) nth_Cons_0 nth_Cons_Suc zero_less_Suc)
    ultimately show ?case using Cons.IH by (auto simp: keys_unique_def in_set_conv_nth)
  qed simp
  then show ?thesis
    using inv by (simp add: table_inv_def Let_def Reassembler_Size_def Reassembler_BytesHeld_def
        bytes_held_def kMaxReassemblyEntries_def)
qed

text \<open>
  C4: Reassembly never mixes or corrupts datagrams. If every fragment that reaches the table is a
  fragment of the datagram that its key stands for, then a result that is reported complete
  carries exactly that datagram, for every order and interleaving of fragments of any number of
  datagrams, with duplicates, overlaps, expiry, purges and allocation failures in between.\<close>

theorem reassembly_delivers_datagram:
  assumes "list_all (honest D) ops" "honest D op"
    "fst (frag_exec op (reassembler_after ops n b)) = Some res" "far_complete res"
  shows "far_payload res = D (op_key op)"
proof -
  have inv: "table_inv (reassembler_after ops n b)" "table_holds D (reassembler_after ops n b)"
    using honest_frag.good_run_inv [OF assms(1), of "FragmentReassembler_init n b"]
    by (simp_all add: FragmentReassembler_init_inv)
  show ?thesis
    using assms(2-4) AddIpv4Fragment_spec(2) [OF inv] AddIpv6Fragment_spec(2) [OF inv]
    by (cases op) (auto simp: delivers_def)
qed

definition sample_frag :: "u16 \<Rightarrow> bool \<Rightarrow> bytes \<Rightarrow> frag_op" where
  "sample_frag fo mf d = Ipv4Frag True True (Some [10, 0, 0, 1]) (Some [10, 0, 0, 2]) 17 7 fo mf (Some d) 5 0 0 0"

theorem reassembly_delivers_datagram_witness:
  "\<exists>res. fst (frag_exec (sample_frag 0 True [1, 2, 3, 4, 5, 6, 7, 8])
       (reassembler_after [sample_frag 1 False [9, 10]] 4 0)) = Some res \<and>
     far_payload res = [1, 2, 3, 4, 5, 6, 7, 8, 9, 10]"
proof -
  let ?D = "\<lambda>k :: FragmentKey. [1, 2, 3, 4, 5, 6, 7, 8, 9, 10] :: bytes"
  let ?x = "fst (frag_exec (sample_frag 0 True [1, 2, 3, 4, 5, 6, 7, 8])
       (reassembler_after [sample_frag 1 False [9, 10]] 4 0))"
  have h: "list_all (honest ?D) [sample_frag 1 False [9, 10]]"
    "honest ?D (sample_frag 0 True [1, 2, 3, 4, 5, 6, 7, 8])"
    by (simp_all add: sample_frag_def fragment_of_def slice_def)
  have c: "case ?x of None \<Rightarrow> False | Some res \<Rightarrow> far_complete res" by code_simp
  then obtain res where r: "?x = Some res" by (cases ?x) auto
  with c have "far_complete res" by simp
  from reassembly_delivers_datagram [OF h r this] r show ?thesis by simp
qed

end
