(* ===== verification/FragmentLive.thy ===== *)
theory FragmentLive
  imports FragmentCorrect
begin

text \<open>
  Reassembly makes progress: the fragments of a correctly fragmented datagram, in any order, are
  all accepted and complete the datagram with the last of them.
\<close>

section \<open>Feeding fragments to an entry\<close>

type_synonym frag = "u32 \<times> bytes \<times> bool"

definition add_frag :: "u64 \<Rightarrow> u32 \<Rightarrow> u32 \<Rightarrow> nat \<Rightarrow> u8 \<Rightarrow> frag \<Rightarrow> ReassemblyEntry \<Rightarrow> FragmentAddResult \<times> ReassemblyEntry" where
  "add_frag now exp mx budget ecn f e =
     (case f of (off, d, mf) \<Rightarrow>
        AddFragment True off (Some d) (of_nat (length d)) mf now exp mx budget ecn e)"

fun feed :: "u64 \<Rightarrow> u32 \<Rightarrow> u32 \<Rightarrow> nat \<Rightarrow> u8 \<Rightarrow> frag list \<Rightarrow> ReassemblyEntry \<Rightarrow> FragmentAddResult list" where
  "feed now exp mx budget ecn [] e = []"
| "feed now exp mx budget ecn (f # fs) e =
     (case add_frag now exp mx budget ecn f e of
        (r, e') \<Rightarrow> r # feed now exp mx budget ecn fs e')"

definition frag_iv :: "frag \<Rightarrow> nat set" where
  "frag_iv f = (case f of (off, d, mf) \<Rightarrow> {unat off..<unat off + length d})"

text \<open>A fragmentation of \<open>D\<close> by the rules of IP: at most 64 disjoint fragments that cover it.\<close>

definition ip_fragment_ok :: "bytes \<Rightarrow> frag \<Rightarrow> bool" where
  "ip_fragment_ok D f \<longleftrightarrow>
     (case f of (off, d, mf) \<Rightarrow>
        d \<noteq> [] \<and> fragment_of D (unat off) d mf \<and> off mod 8 = 0 \<and> (mf \<longrightarrow> length d mod 8 = 0))"

definition fragmentation :: "bytes \<Rightarrow> frag list \<Rightarrow> bool" where
  "fragmentation D fs \<longleftrightarrow>
     length fs \<le> kMaxFragmentsPerEntry \<and> list_all (ip_fragment_ok D) fs \<and>
     sorted_wrt (\<lambda>f g. frag_iv f \<inter> frag_iv g = {}) fs \<and> \<Union> (frag_iv ` set fs) = {0..<length D}"

definition frag_piece :: "frag \<Rightarrow> FragmentPiece" where
  "frag_piece f = (case f of (off, d, mf) \<Rightarrow> \<lparr>fp_offset = off, fp_length = of_nat (length d)\<rparr>)"

text \<open>The entry after the fragments \<open>ps\<close> of \<open>D\<close>.\<close>

definition fed :: "bytes \<Rightarrow> frag list \<Rightarrow> ReassemblyEntry \<Rightarrow> bool" where
  "fed D ps e \<longleftrightarrow>
     entry_inv e \<and> holds D e \<and> re_pieces e = map frag_piece ps \<and> \<not> re_discarded e \<and>
     (re_last_received e \<longleftrightarrow> (\<exists>f\<in>set ps. \<not> snd (snd f)))"

lemma unat_of_nat_len: "length D < 2 ^ 32 \<Longrightarrow> length d \<le> length D \<Longrightarrow> unat (of_nat (length d) :: u32) = length d"
  by (simp add: unsigned_of_nat take_bit_nat_eq_self)

lemma frag_piece_iv:
  assumes "length D < 2 ^ 32" "ip_fragment_ok D f"
  shows "piece_iv (frag_piece f) = frag_iv f"
proof -
  obtain off d mf where f: "f = (off, d, mf)" by (cases f)
  have "length d \<le> length D" using assms(2) by (simp add: ip_fragment_ok_def fragment_of_def f)
  from unat_of_nat_len [OF assms(1) this] show ?thesis
    by (simp add: f piece_iv_def frag_piece_def frag_iv_def)
qed

lemma frag_iv_bounds: "ip_fragment_ok D f \<Longrightarrow> frag_iv f \<noteq> {} \<and> frag_iv f \<subseteq> {0..<length D}"
  by (auto simp: ip_fragment_ok_def frag_iv_def fragment_of_def split: prod.splits)

lemma last_fragment:
  assumes "list_all (ip_fragment_ok D) fs" "\<Union> (frag_iv ` set fs) = {0..<length D}" "fs \<noteq> []"
  shows "\<exists>f\<in>set fs. \<not> snd (snd f)"
proof -
  have "D \<noteq> []" using assms frag_iv_bounds [of D "hd fs"] by (cases fs) auto
  then have "length D - 1 \<in> \<Union> (frag_iv ` set fs)" using assms(2) by simp
  then obtain off d mf where f: "(off, d, mf) \<in> set fs" "length D - 1 \<in> frag_iv (off, d, mf)" by auto
  moreover have "ip_fragment_ok D (off, d, mf)" using assms(1) f(1) by (auto simp: list_all_iff)
  ultimately have "\<not> mf" by (auto simp: frag_iv_def ip_fragment_ok_def fragment_of_def)
  with f(1) show ?thesis by force
qed

lemma add_frag_fed:
  assumes "length D < 2 ^ 32" "mx = 0 \<or> length D \<le> unat mx" "length D \<le> budget" "fed D ps e"
    "fragmentation D (ps @ f # rest)" "add_frag now exp mx budget ecn f e = (r, e')"
  shows "far_error r = Frag_None \<and>
    (if rest = [] then far_complete r \<and> far_payload r = D else \<not> far_complete r \<and> fed D (ps @ [f]) e')"
proof -
  obtain off d mf where f: "f = (off, d, mf)" by (cases f)
  let ?len = "of_nat (length d) :: u32"
  have ok: "\<forall>g\<in>set (ps @ f # rest). ip_fragment_ok D g" using assms(5) by (simp add: fragmentation_def list_all_iff)
  then have fok: "d \<noteq> []" "fragment_of D (unat off) d mf" "off mod 8 = 0" "mf \<longrightarrow> length d mod 8 = 0"
    by (auto simp: ip_fragment_ok_def f)
  have fits: "unat off + length d \<le> length D" using fok(2) by (simp add: fragment_of_def)
  have len: "unat ?len = length d" using assms(1) fits by (intro unat_of_nat_len) auto
  have nw: "unat off + unat ?len < 2 ^ 32" using len fits assms(1) by simp
  have "unat (?len mod 8) = length d mod 8" by (simp add: unat_mod len)
  then have mod: "mf \<longrightarrow> ?len mod 8 = 0" using fok(4) by (metis unat_0_iff)
  have ne: "?len \<noteq> 0" using len fok(1) by (metis length_0_conv unsigned_0)
  have pieces: "pieces_ok (re_pieces e)" "re_pieces e = map frag_piece ps" "entry_inv e" "holds D e"
    using assms(4) by (auto simp: fed_def entry_inv_def)
  have dj: "\<forall>g\<in>set ps. frag_iv g \<inter> frag_iv f = {}"
    using assms(5) by (auto simp: fragmentation_def sorted_wrt_append)
  have ov: "\<not> HasOverlap off ?len e"
    using dj ok by (auto simp: HasOverlap_iff [OF pieces(1) nw ne] pieces(2) len frag_piece_iv [OF assms(1)]
        frag_iv_def f)
  have acc: "accepts off ?len mf mx budget e"
    unfolding accepts_def
  proof (intro conjI impI)
    show "length (re_pieces e) < kMaxFragmentsPerEntry"
      using assms(5) pieces(2) by (simp add: fragmentation_def)
    show "off + ?len \<le> mx" if "mx > 0"
      using that assms(2) fits len nw by (auto simp: word_le_nat_alt unat_add_no_wrap)
    show "off + ?len \<le> re_total_payload_length e" if "re_last_received e"
      using that pieces(4) fits len nw by (auto simp: holds_def word_le_nat_alt unat_add_no_wrap)
    show "off + ?len = re_total_payload_length e" if "\<not> mf" "re_last_received e"
      using that pieces(4) fok(2) len nw
      by (intro unsigned_word_eqI [where 'a = nat]) (auto simp: holds_def fragment_of_def unat_add_no_wrap)
    show "unat (off + ?len) - length (re_data_buffer e) \<le> budget"
      using fits len nw assms(3) by (simp add: unat_add_no_wrap)
  qed (use ne fok nw mod ov assms(4) in \<open>auto simp: fed_def\<close>)
  have fed': "entry_inv e1 \<and> holds D e1 \<and> re_pieces e1 = map frag_piece (ps @ [f]) \<and> fed D (ps @ [f]) e1"
    if st: "stored off d ?len mf e e1" for e1
    using stored_inv [OF pieces(3) st acc len [symmetric]]
      holds_stored [OF pieces(3,4) st acc len [symmetric] fok(2)] st assms(4)
    by (auto simp: fed_def stored_def Let_def f frag_piece_def)
  have cover: "pieces_complete (re_pieces e1) (re_total_payload_length e1) \<longleftrightarrow> rest = []"
    if st: "stored off d ?len mf e e1" "re_last_received e1" for e1
  proof -
    have U: "\<Union> (piece_iv ` set (re_pieces e1)) = \<Union> (frag_iv ` set (ps @ [f]))"
      using fed' [OF st(1)] ok frag_piece_iv [OF assms(1)] by auto
    have sep: "frag_iv g \<noteq> {} \<and> frag_iv g \<subseteq> {0..<length D} \<and> frag_iv g \<inter> \<Union> (frag_iv ` set (ps @ [f])) = {}"
      if "g \<in> set rest" for g
      using that assms(5) frag_iv_bounds [of D g] ok
      by (auto simp: fragmentation_def sorted_wrt_append) blast+
    have "\<Union> (frag_iv ` set (ps @ [f])) = {0..<length D} \<longleftrightarrow> rest = []"
    proof (cases rest)
      case (Cons g gs)
      then show ?thesis using sep [of g] by (metis inf.absorb1 list.distinct(1) list.set_intros(1))
    qed (use assms(5) in \<open>simp add: fragmentation_def\<close>)
    then show ?thesis
      using pieces_complete_iff [of "re_pieces e1" "re_total_payload_length e1"] fed' [OF st(1)] st(2) U
      by (auto simp: entry_inv_def holds_def)
  qed
  have last: "re_last_received e1" if "stored off d ?len mf e e1" "rest = []" for e1
    using fed' [OF that(1)] last_fragment [of D "ps @ [f]"] assms(5) that(2)
    by (auto simp: fed_def fragmentation_def)
  have "store_fragment True off d ?len (off + ?len) mf now exp ecn e = (r, e')"
    using assms(6) AddFragment_accepts [OF acc] by (simp add: add_frag_def f)
  from this nw show ?thesis
  proof (cases rule: store_fragment_cases)
    case kept
    then show ?thesis using cover last fed' by (auto simp: far_init_def)
  next
    case (complete e1)
    then show ?thesis
      using cover [OF complete(1,2)] fed' [OF complete(1)] complete_payload [OF _ _ complete(2,3)] by auto
  qed simp
qed

lemma feed_fed:
  assumes "length D < 2 ^ 32" "mx = 0 \<or> length D \<le> unat mx" "length D \<le> budget"
  shows "fed D ps e \<Longrightarrow> fragmentation D (ps @ fs) \<Longrightarrow> fs \<noteq> [] \<Longrightarrow>
    list_all (\<lambda>r. far_error r = Frag_None) (feed now exp mx budget ecn fs e) \<and>
    map far_complete (feed now exp mx budget ecn fs e) = replicate (length fs - 1) False @ [True] \<and>
    far_payload (last (feed now exp mx budget ecn fs e)) = D"
proof (induction fs arbitrary: ps e)
  case (Cons f fs)
  obtain r e' where r: "add_frag now exp mx budget ecn f e = (r, e')" by (cases "add_frag now exp mx budget ecn f e")
  note step = add_frag_fed [OF assms Cons.prems(1,2) r]
  show ?case
  proof (cases "fs = []")
    case True
    with step r show ?thesis by simp
  next
    case False
    with step have "fed D (ps @ [f]) e'" "\<not> far_complete r" "far_error r = Frag_None" by auto
    moreover have "feed now exp mx budget ecn fs e' \<noteq> []"
      using False by (cases fs) (auto split: prod.splits)
    ultimately show ?thesis
      using Cons.IH [of "ps @ [f]" e'] Cons.prems(2) False r by (cases fs) auto
  qed
qed simp

text \<open>
  C6: Reassembly completes. For every payload that is split by the rules of IP into at most 64
  fragments, and for every order in which they arrive, an empty entry with enough byte budget
  accepts each fragment, reports the datagram complete with the last one and not before, and
  delivers exactly the payload.\<close>

theorem reassembly_completes:
  assumes "fragmentation D fs" "D \<noteq> []" "length D < 2 ^ 32" "mx = 0 \<or> length D \<le> unat mx"
    "length D \<le> budget"
  shows "let rs = feed now exp mx budget ecn fs (ReassemblyEntry_init\<lparr>re_key := key\<rparr>) in
    list_all (\<lambda>r. far_error r = Frag_None) rs \<and>
    map far_complete rs = replicate (length fs - 1) False @ [True] \<and> far_payload (last rs) = D"
proof -
  have "fs \<noteq> []" using assms(1,2) by (auto simp: fragmentation_def)
  moreover have "fed D [] (ReassemblyEntry_init\<lparr>re_key := key\<rparr>)"
    by (simp add: fed_def entry_inv_def pieces_ok_def holds_def ReassemblyEntry_init_def)
  ultimately show ?thesis
    using feed_fed [OF assms(3,4,5), of "[]"] assms(1) by (simp add: Let_def)
qed

theorem reassembly_completes_witness:
  "map far_complete (feed 5 0 0 100 0 [(8, [9, 10], False), (0, [1, 2, 3, 4, 5, 6, 7, 8], True)]
     (ReassemblyEntry_init\<lparr>re_key := FragmentKey_init\<rparr>)) = [False, True]"
proof -
  let ?D = "[1, 2, 3, 4, 5, 6, 7, 8, 9, 10] :: bytes"
  let ?fs = "[(8, [9, 10], False), (0, [1, 2, 3, 4, 5, 6, 7, 8], True)] :: frag list"
  have "list_all (ip_fragment_ok ?D) ?fs" by (simp add: ip_fragment_ok_def fragment_of_def slice_def)
  then have "fragmentation ?D ?fs"
    by (auto simp: fragmentation_def frag_iv_def kMaxFragmentsPerEntry_def)
  from reassembly_completes [OF this, where mx = 0 and budget = 100 and now = 5 and exp = 0 and ecn = 0
      and key = FragmentKey_init] show ?thesis
    by (simp add: Let_def del: feed.simps)
qed

end
