(* ===== verification/Flow.thy ===== *)
theory Flow
  imports NetPrelude "HOL-Library.List_Lexorder"
begin

text \<open>
  Addresses and flows (\<open>address.h\<close>, \<open>flow.h\<close>, \<open>flow_hash.cpp\<close>): the address type with its
  comparison operators, the canonical orientation of a flow key, the FNV-1a hash of the canonical
  key, and the map from flows to shards. The results are that the two directions of a connection
  always reach the same shard and that the bytes which are hashed identify the flow.
\<close>

section \<open>Addresses\<close>

datatype Family = Fam_Ipv4 | Fam_Ipv6

instantiation Family :: linorder
begin

definition less_Family :: "Family \<Rightarrow> Family \<Rightarrow> bool" where
  "less_Family a b \<longleftrightarrow> a = Fam_Ipv4 \<and> b = Fam_Ipv6"

definition less_eq_Family :: "Family \<Rightarrow> Family \<Rightarrow> bool" where
  "less_eq_Family a b \<longleftrightarrow> a = Fam_Ipv4 \<or> b = Fam_Ipv6"

instance
proof
  fix x y z :: Family
  show "x < y \<longleftrightarrow> x \<le> y \<and> \<not> y \<le> x"
    by (cases x; cases y) (simp_all add: less_Family_def less_eq_Family_def)
  show "x \<le> x" by (cases x) (simp_all add: less_eq_Family_def)
  show "x \<le> y \<Longrightarrow> y \<le> z \<Longrightarrow> x \<le> z"
    by (cases x; cases y; cases z) (simp_all add: less_eq_Family_def)
  show "x \<le> y \<Longrightarrow> y \<le> x \<Longrightarrow> x = y"
    by (cases x; cases y) (simp_all add: less_eq_Family_def)
  show "x \<le> y \<or> y \<le> x" by (cases x; cases y) (simp_all add: less_eq_Family_def)
qed

end

record IpAddress =
  ia_family :: Family
  ia_bytes :: bytes

definition IpAddress_init :: IpAddress where
  "IpAddress_init = \<lparr>ia_family = Fam_Ipv4, ia_bytes = replicate 16 0\<rparr>"

text \<open>The three factories; \<open>Ipv6_Address\<close> copies 16 bytes from its argument.\<close>

definition Ipv4_Address_u32 :: "u32 \<Rightarrow> IpAddress" where
  "Ipv4_Address_u32 addr =
     \<lparr>ia_family = Fam_Ipv4,
      ia_bytes = memcpy_at 0 [ucast (drop_bit 24 addr AND 0xFF), ucast (drop_bit 16 addr AND 0xFF),
        ucast (drop_bit 8 addr AND 0xFF), ucast (addr AND 0xFF)] (replicate 16 0)\<rparr>"

definition Ipv4_Address :: "u8 \<Rightarrow> u8 \<Rightarrow> u8 \<Rightarrow> u8 \<Rightarrow> IpAddress" where
  "Ipv4_Address a b c d = \<lparr>ia_family = Fam_Ipv4, ia_bytes = memcpy_at 0 [a, b, c, d] (replicate 16 0)\<rparr>"

definition Ipv6_Address :: "bytes \<Rightarrow> IpAddress" where
  "Ipv6_Address b = \<lparr>ia_family = Fam_Ipv6, ia_bytes = memcpy_at 0 (take 16 b) (replicate 16 0)\<rparr>"

definition IsIpv4 :: "IpAddress \<Rightarrow> bool" where
  "IsIpv4 a \<longleftrightarrow> ia_family a = Fam_Ipv4"

definition ByteCount :: "IpAddress \<Rightarrow> nat" where
  "ByteCount a = (if ia_family a = Fam_Ipv4 then 4 else 16)"

text \<open>
  \<open>memcmp(p, q, n) == 0\<close> and \<open>memcmp(p, q, n) < 0\<close> are equality and the lexicographic order of the
  first \<open>n\<close> bytes.
\<close>

definition IpAddress_eq :: "IpAddress \<Rightarrow> IpAddress \<Rightarrow> bool" where
  "IpAddress_eq a b \<longleftrightarrow>
     (if ia_family a \<noteq> ia_family b then False
      else let n = ByteCount a in take n (ia_bytes a) = take n (ia_bytes b))"

definition IpAddress_less :: "IpAddress \<Rightarrow> IpAddress \<Rightarrow> bool" where
  "IpAddress_less a b \<longleftrightarrow>
     (if ia_family a \<noteq> ia_family b then ia_family a < ia_family b
      else let n = ByteCount a in take n (ia_bytes a) < take n (ia_bytes b))"

section \<open>Flow keys\<close>

record FlowKey =
  fl_source :: IpAddress
  fl_destination :: IpAddress
  fl_source_port :: u16
  fl_destination_port :: u16
  fl_protocol :: u8

definition FlowKey_init :: FlowKey where
  "FlowKey_init = \<lparr>fl_source = IpAddress_init, fl_destination = IpAddress_init, fl_source_port = 0,
     fl_destination_port = 0, fl_protocol = 0\<rparr>"

definition FlowKey_eq :: "FlowKey \<Rightarrow> FlowKey \<Rightarrow> bool" where
  "FlowKey_eq k q \<longleftrightarrow>
     IpAddress_eq (fl_source k) (fl_source q) \<and> IpAddress_eq (fl_destination k) (fl_destination q) \<and>
     fl_source_port k = fl_source_port q \<and> fl_destination_port k = fl_destination_port q \<and>
     fl_protocol k = fl_protocol q"

record Endpoint =
  ep_addr :: IpAddress
  ep_port :: u16

definition Endpoint_less :: "Endpoint \<Rightarrow> Endpoint \<Rightarrow> bool" where
  "Endpoint_less a b \<longleftrightarrow>
     (if IpAddress_less (ep_addr a) (ep_addr b) then True
      else if IpAddress_less (ep_addr b) (ep_addr a) then False
      else ep_port a < ep_port b)"

definition Canonical :: "FlowKey \<Rightarrow> FlowKey" where
  "Canonical k =
     (let a = \<lparr>ep_addr = fl_source k, ep_port = fl_source_port k\<rparr>;
          b = \<lparr>ep_addr = fl_destination k, ep_port = fl_destination_port k\<rparr> in
      if Endpoint_less b a
      then \<lparr>fl_source = ep_addr b, fl_destination = ep_addr a, fl_source_port = ep_port b,
            fl_destination_port = ep_port a, fl_protocol = fl_protocol k\<rparr>
      else \<lparr>fl_source = ep_addr a, fl_destination = ep_addr b, fl_source_port = ep_port a,
            fl_destination_port = ep_port b, fl_protocol = fl_protocol k\<rparr>)"

text \<open>The bytes of an address in the hashed buffer: IPv4 is padded to 16 bytes.\<close>

definition padded_bytes :: "IpAddress \<Rightarrow> bytes" where
  "padded_bytes a = take (ByteCount a) (ia_bytes a) @ (if IsIpv4 a then replicate 12 0 else [])"

definition family_byte :: "Family \<Rightarrow> u8" where
  "family_byte f = (case f of Fam_Ipv4 \<Rightarrow> 0 | Fam_Ipv6 \<Rightarrow> 1)"

definition flow_bytes :: "FlowKey \<Rightarrow> bytes" where
  "flow_bytes canon =
     family_byte (ia_family (fl_source canon)) #
     padded_bytes (fl_source canon) @ padded_bytes (fl_destination canon) @
     [ucast (drop_bit 8 (fl_source_port canon) AND 0xFF), ucast (fl_source_port canon AND 0xFF),
      ucast (drop_bit 8 (fl_destination_port canon) AND 0xFF),
      ucast (fl_destination_port canon AND 0xFF), fl_protocol canon]"

definition fnv1a_step :: "u8 \<Rightarrow> u64 \<Rightarrow> u64" where
  "fnv1a_step b hash = (hash XOR ucast b) * 0x100000001b3"

definition FlowHash :: "FlowKey \<Rightarrow> u64" where
  "FlowHash key = fold fnv1a_step (flow_bytes (Canonical key)) 0xcbf29ce484222325"

definition FlowToShard :: "FlowKey \<Rightarrow> nat \<Rightarrow> nat" where
  "FlowToShard key shard_count =
     (if shard_count = 0 then 0 else unat (FlowHash key) mod shard_count)"

section \<open>The canonical orientation\<close>

text \<open>
  What \<open>Canonical\<close> needs of the order of the endpoints, and what it gives: sorting a pair makes the
  two orders of the pair indistinguishable.
\<close>

locale pair_order =
  fixes less :: "'e \<Rightarrow> 'e \<Rightarrow> bool" and same :: "'e \<Rightarrow> 'e \<Rightarrow> bool"
  assumes same_refl: "same a a"
    and trichotomy: "less a b \<or> same a b \<or> less b a"
    and asym: "less a b \<Longrightarrow> \<not> less b a"
    and less_not_same: "less a b \<Longrightarrow> \<not> same a b"
    and same_sym: "same a b \<Longrightarrow> same b a"
begin

lemma sort_swap:
  "same (if less b a then b else a) (if less a b then a else b)"
  "same (if less b a then a else b) (if less a b then b else a)"
  using trichotomy [of a b] asym [of a b] same_sym [of a b] same_sym [of b a] same_refl by auto

lemma not_less_same: "same a b \<Longrightarrow> \<not> less a b \<and> \<not> less b a"
  using less_not_same same_sym by blast

end

definition Endpoint_same :: "Endpoint \<Rightarrow> Endpoint \<Rightarrow> bool" where
  "Endpoint_same a b \<longleftrightarrow> IpAddress_eq (ep_addr a) (ep_addr b) \<and> ep_port a = ep_port b"

lemma IpAddress_trichotomy:
  "IpAddress_less a b \<or> IpAddress_eq a b \<or> IpAddress_less b a"
  "IpAddress_less a b \<Longrightarrow> \<not> IpAddress_less b a"
  "IpAddress_less a b \<Longrightarrow> \<not> IpAddress_eq a b"
  "IpAddress_eq a b \<Longrightarrow> \<not> IpAddress_less a b"
  by (auto simp: IpAddress_less_def IpAddress_eq_def ByteCount_def Let_def)

lemma IpAddress_eq_sym: "IpAddress_eq a b \<longleftrightarrow> IpAddress_eq b a"
  by (auto simp: IpAddress_eq_def ByteCount_def Let_def)

lemma IpAddress_eq_refl [simp]: "IpAddress_eq a a"
  by (simp add: IpAddress_eq_def)

interpretation endpoints: pair_order Endpoint_less Endpoint_same
proof
  fix a b :: Endpoint
  show "Endpoint_same a a" by (simp add: Endpoint_same_def)
  show "Endpoint_less a b \<or> Endpoint_same a b \<or> Endpoint_less b a"
    using IpAddress_trichotomy(1) [of "ep_addr a" "ep_addr b"]
    by (auto simp: Endpoint_less_def Endpoint_same_def)
  show "Endpoint_less a b \<Longrightarrow> \<not> Endpoint_less b a"
    using IpAddress_trichotomy(2) [of "ep_addr a" "ep_addr b"]
    by (auto simp: Endpoint_less_def split: if_splits)
  show "Endpoint_less a b \<Longrightarrow> \<not> Endpoint_same a b"
    using IpAddress_trichotomy(3) [of "ep_addr a" "ep_addr b"]
    by (auto simp: Endpoint_less_def Endpoint_same_def split: if_splits)
  show "Endpoint_same a b \<Longrightarrow> Endpoint_same b a"
    using IpAddress_eq_sym by (auto simp: Endpoint_same_def)
qed

text \<open>The same flow seen from its other end.\<close>

definition reverse_flow :: "FlowKey \<Rightarrow> FlowKey" where
  "reverse_flow k = k\<lparr>fl_source := fl_destination k, fl_destination := fl_source k,
     fl_source_port := fl_destination_port k, fl_destination_port := fl_source_port k\<rparr>"

lemma Canonical_reverse: "FlowKey_eq (Canonical (reverse_flow k)) (Canonical k)"
  using endpoints.sort_swap [of
      "\<lparr>ep_addr = fl_source k, ep_port = fl_source_port k\<rparr>"
      "\<lparr>ep_addr = fl_destination k, ep_port = fl_destination_port k\<rparr>"]
  by (auto simp: Canonical_def reverse_flow_def FlowKey_eq_def Endpoint_same_def Let_def split: if_splits)

lemma Canonical_Canonical: "Canonical (Canonical k) = Canonical k"
  using endpoints.asym by (auto simp: Canonical_def Let_def)

lemma padded_bytes_cong: "IpAddress_eq a b \<Longrightarrow> padded_bytes a = padded_bytes b \<and> ia_family a = ia_family b"
  by (auto simp: IpAddress_eq_def padded_bytes_def IsIpv4_def ByteCount_def Let_def split: if_splits)

lemma flow_bytes_cong: "FlowKey_eq k q \<Longrightarrow> flow_bytes k = flow_bytes q"
  using padded_bytes_cong [of "fl_source k" "fl_source q"]
    padded_bytes_cong [of "fl_destination k" "fl_destination q"]
  by (simp add: FlowKey_eq_def flow_bytes_def)

text \<open>
  C33: Both directions of a flow have the same canonical key and the same hash and are served by the
  same shard, the canonical key is a fixed point, and the shard index is in range (0 when there
  are no shards).\<close>

theorem flow_directions_share_shard:
  "FlowKey_eq (Canonical (reverse_flow k)) (Canonical k) \<and> Canonical (Canonical k) = Canonical k \<and>
   FlowHash (reverse_flow k) = FlowHash k \<and> FlowToShard (reverse_flow k) n = FlowToShard k n \<and>
   FlowToShard k n < max 1 n"
  using flow_bytes_cong [OF Canonical_reverse [of k]]
  by (simp add: FlowToShard_def FlowHash_def Canonical_reverse Canonical_Canonical max_def)

section \<open>What is hashed identifies the flow\<close>

lemma length_padded_bytes: "length (ia_bytes a) = 16 \<Longrightarrow> length (padded_bytes a) = 16"
  by (simp add: padded_bytes_def ByteCount_def IsIpv4_def)

lemma family_byte_inj: "family_byte f = family_byte g \<longleftrightarrow> f = g"
  by (cases f; cases g) (simp_all add: family_byte_def)

lemma padded_bytes_inj:
  "padded_bytes a = padded_bytes b \<Longrightarrow> ia_family a = ia_family b \<Longrightarrow>
     length (ia_bytes a) = 16 \<Longrightarrow> length (ia_bytes b) = 16 \<Longrightarrow> IpAddress_eq a b"
  by (auto simp: padded_bytes_def IpAddress_eq_def ByteCount_def IsIpv4_def Let_def split: if_splits)

lemma u16_low_byte: "(drop_bit 8 (v::u16)) AND 0xFF = drop_bit 8 v"
  unfolding byte_mask by (rule bit_word_eqI) (auto simp: bit_simps dest: bit_imp_le_length)

lemma u16_bytes_inj:
  "ucast (drop_bit 8 (v::u16) AND 0xFF) = (ucast (drop_bit 8 w AND 0xFF) :: u8) \<Longrightarrow>
     ucast (v AND 0xFF) = (ucast (w AND 0xFF) :: u8) \<Longrightarrow> v = w"
  by (metis u16_low_byte be16_split)

lemma flow_bytes_inj:
  assumes "flow_bytes k = flow_bytes q"
    "ia_family (fl_destination k) = ia_family (fl_source k)"
    "ia_family (fl_destination q) = ia_family (fl_source q)"
    "\<And>x. x \<in> {fl_source k, fl_destination k, fl_source q, fl_destination q} \<Longrightarrow> length (ia_bytes x) = 16"
  shows "FlowKey_eq k q"
proof -
  have fam: "ia_family (fl_source k) = ia_family (fl_source q)"
    using assms(1) by (simp add: flow_bytes_def family_byte_inj)
  have "padded_bytes (fl_source k) = padded_bytes (fl_source q)"
    "padded_bytes (fl_destination k) = padded_bytes (fl_destination q)"
    "fl_source_port k = fl_source_port q \<and> fl_destination_port k = fl_destination_port q \<and>
       fl_protocol k = fl_protocol q"
    using assms(1,4) by (auto simp: flow_bytes_def length_padded_bytes intro: u16_bytes_inj)
  with fam assms(2-4) show ?thesis
    by (simp add: FlowKey_eq_def padded_bytes_inj)
qed

definition flow_ok :: "FlowKey \<Rightarrow> bool" where
  "flow_ok k \<longleftrightarrow> ia_family (fl_destination k) = ia_family (fl_source k) \<and>
     length (ia_bytes (fl_source k)) = 16 \<and> length (ia_bytes (fl_destination k)) = 16"

lemma flow_ok_Canonical: "flow_ok k \<Longrightarrow> flow_ok (Canonical k)"
  by (auto simp: flow_ok_def Canonical_def Let_def)

text \<open>
  The bytes that \<open>FlowHash\<close> runs over are a faithful name of the flow: for keys whose two
  addresses have one family, two keys are serialised to the same bytes exactly when their
  canonical keys are equal in the sense of \<open>operator==\<close>. Equal keys therefore have equal hashes,
  and no information about the flow is lost before the hash.\<close>

theorem flow_bytes_identify_flow:
  assumes "flow_ok k" "flow_ok q"
  shows "flow_bytes (Canonical k) = flow_bytes (Canonical q) \<longleftrightarrow> FlowKey_eq (Canonical k) (Canonical q)"
  using flow_bytes_cong flow_bytes_inj [of "Canonical k" "Canonical q"]
    flow_ok_Canonical [OF assms(1)] flow_ok_Canonical [OF assms(2)]
  by (auto simp: flow_ok_def)

definition sample_flow :: FlowKey where
  "sample_flow = \<lparr>fl_source = Ipv4_Address 10 0 0 2, fl_destination = Ipv4_Address 10 0 0 1,
     fl_source_port = 4000, fl_destination_port = 80, fl_protocol = 6\<rparr>"

end
