(* ===== verification/TcpSegment.thy ===== *)
theory TcpSegment
  imports Ipv4 Ipv6 Flow
begin

text \<open>
  The TCP input path up to the connection: the segment parser (\<open>src/tcp/segment.cpp\<close>), the SYN and
  SACK option parsers (\<open>src/tcp/options.cpp\<close>), and the classification of a raw IP packet
  (\<open>src/tcp/input.cpp\<close>). A loop \<open>while (offset < length)\<close> over the options runs over the bytes from
  \<open>offset\<close> on.
\<close>

section \<open>Segments\<close>

abbreviation (input) Flag_Fin :: u8 where "Flag_Fin \<equiv> 0x01"
abbreviation (input) Flag_Syn :: u8 where "Flag_Syn \<equiv> 0x02"
abbreviation (input) Flag_Rst :: u8 where "Flag_Rst \<equiv> 0x04"
abbreviation (input) Flag_Psh :: u8 where "Flag_Psh \<equiv> 0x08"
abbreviation (input) Flag_Ack :: u8 where "Flag_Ack \<equiv> 0x10"
abbreviation (input) Flag_Ece :: u8 where "Flag_Ece \<equiv> 0x40"
abbreviation (input) Flag_Cwr :: u8 where "Flag_Cwr \<equiv> 0x80"

datatype TcpParseError =
    Tcp_None
  | Tcp_NullData
  | Tcp_AddressFamilyMismatch
  | Tcp_TooShort
  | Tcp_TooLong
  | Tcp_BadDataOffset
  | Tcp_BadChecksum

record TcpSegmentView =
  sg_flow :: FlowKey
  sg_sequence :: u32
  sg_acknowledgment :: u32
  sg_flags :: u8
  sg_window :: u16
  sg_urgent_pointer :: u16
  sg_options :: "bytes option"
  sg_payload :: "bytes option"
  sg_ip_ecn :: u8

record TcpParseResult =
  tp_error :: TcpParseError
  tp_segment :: TcpSegmentView

definition TcpSegmentView_init :: TcpSegmentView where
  "TcpSegmentView_init = \<lparr>sg_flow = FlowKey_init, sg_sequence = 0, sg_acknowledgment = 0, sg_flags = 0,
     sg_window = 0, sg_urgent_pointer = 0, sg_options = None, sg_payload = None, sg_ip_ecn = 0\<rparr>"

definition HasFlag :: "TcpSegmentView \<Rightarrow> u8 \<Rightarrow> bool" where
  "HasFlag s flag \<longleftrightarrow> sg_flags s AND flag \<noteq> 0"

definition tcp_checksum_seed :: "IpAddress \<Rightarrow> IpAddress \<Rightarrow> nat \<Rightarrow> u32" where
  "tcp_checksum_seed source destination len =
     (if IsIpv4 source
      then Ipv4PseudoHeaderSeed (take 4 (ia_bytes source)) (take 4 (ia_bytes destination)) 6 (of_nat len)
      else Ipv6PseudoHeaderSeed (take 16 (ia_bytes source)) (take 16 (ia_bytes destination)) 6 (of_nat len))"

definition ParseTcpSegment ::
  "IpAddress \<Rightarrow> IpAddress \<Rightarrow> bytes option \<Rightarrow> u8 \<Rightarrow> TcpParseResult" where
  "ParseTcpSegment source destination data ip_ecn =
     (let result = \<lparr>tp_error = Tcp_None, tp_segment = TcpSegmentView_init\<rparr> in
      case data of
        None \<Rightarrow> result\<lparr>tp_error := Tcp_NullData\<rparr>
      | Some d \<Rightarrow>
          let len = length d in
          if ia_family source \<noteq> ia_family destination
            then result\<lparr>tp_error := Tcp_AddressFamilyMismatch\<rparr>
          else if len < 20 then result\<lparr>tp_error := Tcp_TooShort\<rparr>
          else if len > 0xFFFFFFFF \<or> IsIpv4 source \<and> len > 0xFFFF then result\<lparr>tp_error := Tcp_TooLong\<rparr>
          else
            let header_length = unat (drop_bit 4 (d ! 12)) * 4 in
            if header_length < 20 \<or> header_length > len then result\<lparr>tp_error := Tcp_BadDataOffset\<rparr>
            else if InternetChecksum d (tcp_checksum_seed source destination len) \<noteq> 0
              then result\<lparr>tp_error := Tcp_BadChecksum\<rparr>
            else result\<lparr>tp_segment :=
              \<lparr>sg_flow = \<lparr>fl_source = source, fl_destination = destination, fl_source_port = rd16 d 0,
                 fl_destination_port = rd16 d 2, fl_protocol = 6\<rparr>,
               sg_sequence = rd32 d 4, sg_acknowledgment = rd32 d 8, sg_flags = d ! 13,
               sg_window = rd16 d 14, sg_urgent_pointer = rd16 d 18,
               sg_options = Some (slice 20 (header_length - 20) d),
               sg_payload = Some (drop header_length d), sg_ip_ecn = ip_ecn AND 0x03\<rparr>\<rparr>)"

section \<open>Options\<close>

datatype TcpOptionError =
    TcpOpt_None
  | TcpOpt_NullData
  | TcpOpt_TooLong
  | TcpOpt_Truncated
  | TcpOpt_InvalidLength
  | TcpOpt_DuplicateOption
  | TcpOpt_InvalidMss

record TcpSynOptions =
  so_mss_present :: bool
  so_mss :: u16
  so_window_scale_present :: bool
  so_window_scale :: u8
  so_sack_permitted :: bool
  so_timestamp_present :: bool
  so_timestamp_value :: u32
  so_timestamp_echo :: u32

definition TcpSynOptions_init :: TcpSynOptions where
  "TcpSynOptions_init = \<lparr>so_mss_present = False, so_mss = 0, so_window_scale_present = False,
     so_window_scale = 0, so_sack_permitted = False, so_timestamp_present = False,
     so_timestamp_value = 0, so_timestamp_echo = 0\<rparr>"

record TcpOptionParseResult =
  op_error :: TcpOptionError
  op_options :: TcpSynOptions

text \<open>The \<open>switch\<close> of the option loop on one complete option \<open>opt\<close> (kind, length, data).\<close>

definition syn_option :: "bytes \<Rightarrow> TcpSynOptions \<Rightarrow> TcpOptionParseResult" where
  "syn_option opt opts =
     (let kind = opt ! 0; option_length = length opt in
      if kind = 2 then
        if option_length \<noteq> 4 then \<lparr>op_error = TcpOpt_InvalidLength, op_options = opts\<rparr>
        else if so_mss_present opts then \<lparr>op_error = TcpOpt_DuplicateOption, op_options = opts\<rparr>
        else let opts = opts\<lparr>so_mss := rd16 opt 2\<rparr> in
          if so_mss opts = 0 then \<lparr>op_error = TcpOpt_InvalidMss, op_options = opts\<rparr>
          else \<lparr>op_error = TcpOpt_None, op_options = opts\<lparr>so_mss_present := True\<rparr>\<rparr>
      else if kind = 3 then
        if option_length \<noteq> 3 then \<lparr>op_error = TcpOpt_InvalidLength, op_options = opts\<rparr>
        else if so_window_scale_present opts then \<lparr>op_error = TcpOpt_DuplicateOption, op_options = opts\<rparr>
        else \<lparr>op_error = TcpOpt_None,
               op_options = opts\<lparr>so_window_scale_present := True,
                 so_window_scale := (if opt ! 2 > 14 then 14 else opt ! 2)\<rparr>\<rparr>
      else if kind = 4 then
        if option_length \<noteq> 2 then \<lparr>op_error = TcpOpt_InvalidLength, op_options = opts\<rparr>
        else if so_sack_permitted opts then \<lparr>op_error = TcpOpt_DuplicateOption, op_options = opts\<rparr>
        else \<lparr>op_error = TcpOpt_None, op_options = opts\<lparr>so_sack_permitted := True\<rparr>\<rparr>
      else if kind = 8 then
        if option_length \<noteq> 10 then \<lparr>op_error = TcpOpt_InvalidLength, op_options = opts\<rparr>
        else if so_timestamp_present opts then \<lparr>op_error = TcpOpt_DuplicateOption, op_options = opts\<rparr>
        else \<lparr>op_error = TcpOpt_None,
               op_options = opts\<lparr>so_timestamp_present := True, so_timestamp_value := rd32 opt 2,
                 so_timestamp_echo := rd32 opt 6\<rparr>\<rparr>
      else \<lparr>op_error = TcpOpt_None, op_options = opts\<rparr>)"

function syn_options_loop :: "bytes \<Rightarrow> TcpSynOptions \<Rightarrow> TcpOptionParseResult" where
  "syn_options_loop rest opts =
     (if rest = [] then \<lparr>op_error = TcpOpt_None, op_options = opts\<rparr>
      else
        let kind = rest ! 0 in
        if kind = 0 then \<lparr>op_error = TcpOpt_None, op_options = opts\<rparr>
        else if kind = 1 then syn_options_loop (drop 1 rest) opts
        else if length rest < 2 then \<lparr>op_error = TcpOpt_Truncated, op_options = opts\<rparr>
        else
          let option_length = unat (rest ! 1) in
          if option_length < 2 then \<lparr>op_error = TcpOpt_InvalidLength, op_options = opts\<rparr>
          else if option_length > length rest then \<lparr>op_error = TcpOpt_Truncated, op_options = opts\<rparr>
          else
            let r = syn_option (take option_length rest) opts in
            if op_error r \<noteq> TcpOpt_None then r
            else syn_options_loop (drop option_length rest) (op_options r))"
  by pat_completeness auto
termination
  by (relation "measure (\<lambda>(rest, opts). length rest)") auto

declare syn_options_loop.simps [simp del]

definition ParseTcpSynOptions :: "bytes option \<Rightarrow> nat \<Rightarrow> TcpOptionParseResult" where
  "ParseTcpSynOptions data len =
     (let result = \<lparr>op_error = TcpOpt_None, op_options = TcpSynOptions_init\<rparr> in
      if len = 0 then result
      else case data of
        None \<Rightarrow> result\<lparr>op_error := TcpOpt_NullData\<rparr>
      | Some d \<Rightarrow>
          if len > 40 then result\<lparr>op_error := TcpOpt_TooLong\<rparr>
          else syn_options_loop (take len d) TcpSynOptions_init)"

text \<open>
  \<open>TcpSackBlockList\<close> is an array of four blocks with a count: the list of the blocks that the count
  covers.
\<close>

record TcpSackBlock =
  sb_left_edge :: u32
  sb_right_edge :: u32

type_synonym TcpSackBlockList = "TcpSackBlock list"

fun sack_option :: "nat \<Rightarrow> bytes \<Rightarrow> TcpSackBlockList \<Rightarrow> TcpSackBlockList" where
  "sack_option 0 block_data result = result"
| "sack_option (Suc n) block_data result =
     (if length result < 4
      then sack_option n (drop 8 block_data)
             (result @ [\<lparr>sb_left_edge = rd32 block_data 0, sb_right_edge = rd32 block_data 4\<rparr>])
      else result)"

function sack_loop :: "bytes \<Rightarrow> TcpSackBlockList \<Rightarrow> TcpSackBlockList" where
  "sack_loop rest result =
     (if rest = [] then result
      else
        let kind = rest ! 0 in
        if kind = 0 then result
        else if kind = 1 then sack_loop (drop 1 rest) result
        else if length rest < 2 then result
        else
          let option_length = unat (rest ! 1) in
          if option_length < 2 \<or> option_length > length rest then result
          else if kind = 5 then
            if (option_length - 2) mod 8 \<noteq> 0 then result
            else sack_loop (drop option_length rest)
                   (sack_option ((option_length - 2) div 8) (drop 2 rest) result)
          else sack_loop (drop option_length rest) result)"
  by pat_completeness auto
termination
  by (relation "measure (\<lambda>(rest, result). length rest)") auto

declare sack_loop.simps [simp del]

definition ParseTcpSackBlocks :: "bytes option \<Rightarrow> nat \<Rightarrow> TcpSackBlockList" where
  "ParseTcpSackBlocks data len =
     (if len = 0 then [] else case data of None \<Rightarrow> [] | Some d \<Rightarrow> sack_loop (take len d) [])"

section \<open>Classification of IP packets\<close>

datatype TcpInputError =
    In_None
  | In_NullData
  | In_UnsupportedIpVersion
  | In_MalformedIp
  | In_BadIpv4Checksum
  | In_NotTcp
  | In_FragmentRequiresReassembly
  | In_MalformedTcp

record TcpInputResult =
  in_error :: TcpInputError
  in_tcp_error :: TcpParseError
  in_segment :: TcpSegmentView
  in_ip_version :: u8
  in_ip_protocol :: u8
  in_ip_fragment :: bool
  in_ip_payload :: "bytes option"
  in_ip_payload_length :: nat
  in_ip_src :: IpAddress
  in_ip_dst :: IpAddress

definition TcpInputResult_init :: TcpInputResult where
  "TcpInputResult_init = \<lparr>in_error = In_None, in_tcp_error = Tcp_None, in_segment = TcpSegmentView_init,
     in_ip_version = 0, in_ip_protocol = 0, in_ip_fragment = False, in_ip_payload = None,
     in_ip_payload_length = 0, in_ip_src = IpAddress_init, in_ip_dst = IpAddress_init\<rparr>"

definition Ipv4_Address_of :: "bytes \<Rightarrow> IpAddress" where
  "Ipv4_Address_of b = Ipv4_Address (b ! 0) (b ! 1) (b ! 2) (b ! 3)"

text \<open>The IPv4 and the IPv6 branch up to the TCP parser, and the code after it.\<close>

definition classify_ipv4 :: "bytes \<Rightarrow> TcpInputResult \<Rightarrow> TcpInputResult" where
  "classify_ipv4 packet result =
     (let ip = ParseIpv4 packet; h = ip4_header ip in
      if ip4_error ip \<noteq> Ipv4_None then result\<lparr>in_error := In_MalformedIp\<rparr>
      else if \<not> ip4_checksum_ok ip then result\<lparr>in_error := In_BadIpv4Checksum\<rparr>
      else
        let result = result\<lparr>in_ip_version := 4, in_ip_protocol := ip4_protocol h,
              in_ip_fragment := (ip4_fragment_offset h \<noteq> 0 \<or> ip4_flags h AND 0x01 \<noteq> 0),
              in_ip_payload := ip4_payload ip, in_ip_payload_length := ip4_payload_length h,
              in_ip_src := Ipv4_Address_of (ip4_src_ip h), in_ip_dst := Ipv4_Address_of (ip4_dst_ip h)\<rparr> in
        if ip4_protocol h \<noteq> 6 then result\<lparr>in_error := In_NotTcp\<rparr>
        else if in_ip_fragment result then result\<lparr>in_error := In_FragmentRequiresReassembly\<rparr>
        else result)"

definition classify_ipv6 :: "bytes \<Rightarrow> TcpInputResult \<Rightarrow> TcpInputResult" where
  "classify_ipv6 packet result =
     (let ip = ParseIpv6 packet; h = ip6_header ip in
      if ip6_error ip \<noteq> Ipv6_None then result\<lparr>in_error := In_MalformedIp\<rparr>
      else
        let result = result\<lparr>in_ip_version := 6, in_ip_protocol := ip6_final_next_header ip,
              in_ip_fragment := ip6_fragment_header_present ip,
              in_ip_payload := ip6_payload ip, in_ip_payload_length := ip6_payload_length ip,
              in_ip_src := Ipv6_Address (ip6_src_ip h), in_ip_dst := Ipv6_Address (ip6_dst_ip h)\<rparr> in
        if ip6_final_next_header ip \<noteq> 6 then result\<lparr>in_error := In_NotTcp\<rparr>
        else if in_ip_fragment result then result\<lparr>in_error := In_FragmentRequiresReassembly\<rparr>
        else result)"

definition finish_tcp :: "TcpParseResult \<Rightarrow> TcpInputResult \<Rightarrow> TcpInputResult" where
  "finish_tcp tcp result =
     (if tp_error tcp \<noteq> Tcp_None
      then result\<lparr>in_error := In_MalformedTcp, in_tcp_error := tp_error tcp\<rparr>
      else result\<lparr>in_segment := tp_segment tcp\<rparr>)"

definition ParseIpTcpPacket :: "bytes option \<Rightarrow> TcpInputResult" where
  "ParseIpTcpPacket packet =
     (let result = TcpInputResult_init in
      case packet of
        None \<Rightarrow> result\<lparr>in_error := In_NullData\<rparr>
      | Some p \<Rightarrow>
          if length p = 0 then result\<lparr>in_error := In_MalformedIp\<rparr>
          else
            let version = drop_bit 4 (p ! 0) in
            if version = 4 then
              let result = classify_ipv4 p result in
              if in_error result \<noteq> In_None then result
              else finish_tcp (ParseTcpSegment (in_ip_src result) (in_ip_dst result) (in_ip_payload result)
                     (ip4_ecn (ip4_header (ParseIpv4 p)))) result
            else if version = 6 then
              let result = classify_ipv6 p result in
              if in_error result \<noteq> In_None then result
              else finish_tcp (ParseTcpSegment (in_ip_src result) (in_ip_dst result) (in_ip_payload result)
                     (ip6_traffic_class (ip6_header (ParseIpv6 p)) AND 0x03)) result
            else result\<lparr>in_error := In_UnsupportedIpVersion\<rparr>)"

record FragmentInfo =
  fi_valid :: bool
  fi_ip_version :: u8
  fi_src_ip :: bytes
  fi_dst_ip :: bytes
  fi_protocol :: u8
  fi_identification :: u32
  fi_fragment_offset :: u16
  fi_more_fragments :: bool
  fi_payload :: "bytes option"
  fi_payload_length :: nat
  fi_ecn :: u8

definition FragmentInfo_init :: FragmentInfo where
  "FragmentInfo_init = \<lparr>fi_valid = False, fi_ip_version = 0, fi_src_ip = replicate 16 0,
     fi_dst_ip = replicate 16 0, fi_protocol = 0, fi_identification = 0, fi_fragment_offset = 0,
     fi_more_fragments = False, fi_payload = None, fi_payload_length = 0, fi_ecn = 0\<rparr>"

definition ExtractFragmentInfo :: "bytes option \<Rightarrow> FragmentInfo" where
  "ExtractFragmentInfo packet =
     (let info = FragmentInfo_init in
      case packet of
        None \<Rightarrow> info
      | Some p \<Rightarrow>
          if length p = 0 then info
          else
            let version = drop_bit 4 (p ! 0) in
            if version = 4 then
              let ip = ParseIpv4 p; h = ip4_header ip in
              if ip4_error ip \<noteq> Ipv4_None then info
              else info\<lparr>fi_ip_version := 4,
                     fi_src_ip := memcpy_at 0 (ip4_src_ip h) (fi_src_ip info),
                     fi_dst_ip := memcpy_at 0 (ip4_dst_ip h) (fi_dst_ip info),
                     fi_protocol := ip4_protocol h, fi_identification := ucast (ip4_identification h),
                     fi_fragment_offset := ip4_fragment_offset h,
                     fi_more_fragments := (ip4_flags h AND 0x01 \<noteq> 0),
                     fi_payload := ip4_payload ip, fi_payload_length := ip4_payload_length h,
                     fi_ecn := ip4_ecn h, fi_valid := True\<rparr>
            else if version = 6 then
              let ip = ParseIpv6 p; h = ip6_header ip in
              if ip6_error ip \<noteq> Ipv6_None then info
              else if \<not> ip6_fragment_header_present ip then info
              else info\<lparr>fi_ip_version := 6,
                     fi_src_ip := memcpy_at 0 (ip6_src_ip h) (fi_src_ip info),
                     fi_dst_ip := memcpy_at 0 (ip6_dst_ip h) (fi_dst_ip info),
                     fi_protocol := ip6_final_next_header ip,
                     fi_identification := ip6_fragment_identification ip,
                     fi_fragment_offset := ip6_fragment_offset ip,
                     fi_more_fragments := ip6_fragment_more ip,
                     fi_payload := ip6_fragment_payload ip,
                     fi_payload_length := ip6_fragment_payload_length ip,
                     fi_ecn := ip6_traffic_class h AND 0x03, fi_valid := True\<rparr>
            else info)"

section \<open>Fragments\<close>

text \<open>
  C34: Whenever \<open>ParseIpTcpPacket\<close> hands a packet to reassembly, \<open>ExtractFragmentInfo\<close> succeeds on it
  and agrees with the classification: the same IP version and addresses, protocol 6, and for IPv4
  an offset or a more-fragments flag and the same payload.\<close>

theorem fragments_are_extracted:
  assumes "in_error (ParseIpTcpPacket packet) = In_FragmentRequiresReassembly"
  shows "let i = ParseIpTcpPacket packet; f = ExtractFragmentInfo packet in
    fi_valid f \<and> in_ip_fragment i \<and> fi_ip_version f = in_ip_version i \<and> fi_protocol f = 6 \<and>
    fi_src_ip f = ia_bytes (in_ip_src i) \<and> fi_dst_ip f = ia_bytes (in_ip_dst i) \<and>
    (fi_ip_version f = 6 \<or>
     (fi_fragment_offset f \<noteq> 0 \<or> fi_more_fragments f) \<and> fi_payload f = in_ip_payload i \<and>
     fi_payload_length f = in_ip_payload_length i)"
proof -
  have tcp: "in_error (finish_tcp t r) = In_FragmentRequiresReassembly \<Longrightarrow>
      in_error r = In_FragmentRequiresReassembly" for t r
    by (auto simp: finish_tcp_def split: if_splits)
  obtain p where p: "packet = Some p" "p \<noteq> []"
    using assms by (auto simp: ParseIpTcpPacket_def Let_def split: option.splits if_splits)
  consider "drop_bit 4 (p ! 0) = 4" "in_error (classify_ipv4 p TcpInputResult_init) = In_FragmentRequiresReassembly"
      "ParseIpTcpPacket packet = classify_ipv4 p TcpInputResult_init"
    | "drop_bit 4 (p ! 0) = 6" "in_error (classify_ipv6 p TcpInputResult_init) = In_FragmentRequiresReassembly"
      "ParseIpTcpPacket packet = classify_ipv6 p TcpInputResult_init"
    using assms p by (auto simp: ParseIpTcpPacket_def Let_def dest: tcp split: if_splits)
  then show ?thesis
  proof cases
    case 1
    have src: "ia_bytes (Ipv4_Address_of b) = memcpy_at 0 b (replicate 16 0)" if "length b = 4" for b
      using length4_cases [OF that] by (auto simp: Ipv4_Address_of_def Ipv4_Address_def)
    have ok: "ipv4_wellformed p" using 1(2) ParseIpv4_error_iff [of p]
      by (auto simp: classify_ipv4_def Let_def TcpInputResult_init_def split: if_splits)
    then have "length (ip4_src_ip (ip4_header (ParseIpv4 p))) = 4" "length (ip4_dst_ip (ip4_header (ParseIpv4 p))) = 4"
      by (auto simp: ParseIpv4_wellformed [OF ok] ipv4_wellformed_def)
    with 1 p show ?thesis
      by (auto simp: classify_ipv4_def ExtractFragmentInfo_def Let_def TcpInputResult_init_def
          FragmentInfo_init_def src split: if_splits)
  next
    case 2
    have "ip6_error (ParseIpv6 p) = Ipv6_None" using 2(2)
      by (auto simp: classify_ipv6_def Let_def TcpInputResult_init_def split: if_splits)
    then have "length (ip6_src_ip (ip6_header (ParseIpv6 p))) = 16" "length (ip6_dst_ip (ip6_header (ParseIpv6 p))) = 16"
      using ParseIpv6_header [of p] by (simp_all add: fixed_header_def read_fixed_header_def)
    with 2 p show ?thesis
      by (auto simp: classify_ipv6_def ExtractFragmentInfo_def Let_def TcpInputResult_init_def
          FragmentInfo_init_def Ipv6_Address_def split: if_splits)
  qed
qed

definition sample_fragment :: bytes where
  "sample_fragment = [0x45, 0, 0, 28, 0, 1, 0x20, 0, 64, 6, 0x46, 0xd9, 10, 0, 0, 1, 10, 0, 0, 2] @ [1, 2, 3, 4, 5, 6, 7, 8]"

theorem fragments_are_extracted_witness:
  "fi_valid (ExtractFragmentInfo (Some sample_fragment)) \<and> fi_protocol (ExtractFragmentInfo (Some sample_fragment)) = 6"
proof -
  have "in_error (ParseIpTcpPacket (Some sample_fragment)) = In_FragmentRequiresReassembly" by code_simp
  then show ?thesis using fragments_are_extracted [of "Some sample_fragment"] by (simp add: Let_def)
qed

end
