(* ===== verification/TcpOutput.thy ===== *)
theory TcpOutput
  imports TcpSegment
begin

text \<open>
  Serialisation of TCP packets (\<open>src/tcp/output.cpp\<close>): the SYN and the ACK options, and
  \<open>BuildTcpControlPacket\<close> with its writes into the output buffer. The results are round trips: the
  options that are written are read back by the option parsers, and a packet that is built is
  accepted by \<open>ParseIpTcpPacket\<close> with the fields of the response.
\<close>

section \<open>Responses\<close>

record TcpResponse =
  rp_valid :: bool
  rp_flow :: FlowKey
  rp_sequence :: u32
  rp_acknowledgment :: u32
  rp_flags :: u8
  rp_window :: u16
  rp_syn_options :: TcpSynOptions
  rp_timestamp_present :: bool
  rp_timestamp_value :: u32
  rp_timestamp_echo :: u32
  rp_sack_blocks :: TcpSackBlockList
  rp_ip_ecn :: u8
  rp_payload :: "bytes option"
  rp_payload_length :: nat

definition TcpResponse_init :: TcpResponse where
  "TcpResponse_init = \<lparr>rp_valid = False, rp_flow = FlowKey_init, rp_sequence = 0, rp_acknowledgment = 0,
     rp_flags = 0, rp_window = 0, rp_syn_options = TcpSynOptions_init, rp_timestamp_present = False,
     rp_timestamp_value = 0, rp_timestamp_echo = 0, rp_sack_blocks = [], rp_ip_ecn = 0,
     rp_payload = None, rp_payload_length = 0\<rparr>"

section \<open>Options\<close>

text \<open>
  The array of 40 option bytes with its length is the list of the bytes appended so far. \<open>None\<close> is
  \<open>return false\<close>; \<open>AppendBytes\<close> is a chain \<open>!AppendByte(...) || !AppendByte(...)\<close> that returns at the
  first failure.
\<close>

definition AppendByte :: "bytes \<Rightarrow> u8 \<Rightarrow> bytes option" where
  "AppendByte options value = (if length options \<ge> 40 then None else Some (options @ [value]))"

fun AppendBytes :: "bytes \<Rightarrow> bytes \<Rightarrow> bytes option" where
  "AppendBytes [] options = Some options"
| "AppendBytes (v # vs) options =
     (case AppendByte options v of None \<Rightarrow> None | Some options \<Rightarrow> AppendBytes vs options)"

text \<open>The loop \<open>for (shift = 24; shift >= 0; shift -= 8)\<close> over the bytes of a word.\<close>

definition shift_bytes :: "u32 \<Rightarrow> bytes" where
  "shift_bytes v = map (\<lambda>shift. ucast (drop_bit shift v AND 0xff)) [24, 16, 8, 0]"

function pad_options :: "bytes \<Rightarrow> bytes option" where
  "pad_options options =
     (if length options mod 4 \<noteq> 0
      then (case AppendByte options 0 of None \<Rightarrow> None | Some options \<Rightarrow> pad_options options)
      else Some options)"
  by pat_completeness auto
termination
  by (relation "measure (\<lambda>options. 40 - length options)") (auto simp: AppendByte_def split: if_splits)

declare pad_options.simps [simp del]

definition SerializeSynOptions :: "TcpSynOptions \<Rightarrow> bytes option" where
  "SerializeSynOptions source =
     Option.bind (if so_mss_present source
       then AppendBytes [2, 4, ucast (drop_bit 8 (so_mss source)), ucast (so_mss source AND 0xff)] []
       else Some []) (\<lambda>options.
     Option.bind (if so_sack_permitted source then AppendBytes [4, 2] options else Some options) (\<lambda>options.
     Option.bind (if so_timestamp_present source
       then AppendBytes ([1, 1, 8, 10] @ shift_bytes (so_timestamp_value source) @
              shift_bytes (so_timestamp_echo source)) options
       else Some options) (\<lambda>options.
     Option.bind (if so_window_scale_present source
       then AppendBytes [1, 3, 3, min (so_window_scale source) 14] options
       else Some options) pad_options)))"

definition block_bytes :: "TcpSackBlock \<Rightarrow> bytes" where
  "block_bytes block = shift_bytes (sb_left_edge block) @ shift_bytes (sb_right_edge block)"

definition SerializeAckOptions :: "TcpResponse \<Rightarrow> bytes option" where
  "SerializeAckOptions response =
     (let max_sack_blocks = (if rp_timestamp_present response then 3 else 4);
          sack_count = min (length (rp_sack_blocks response)) max_sack_blocks in
      Option.bind (if rp_timestamp_present response
        then AppendBytes ([1, 1, 8, 10] @ shift_bytes (rp_timestamp_value response) @
               shift_bytes (rp_timestamp_echo response)) []
        else Some []) (\<lambda>options.
      Option.bind (if sack_count \<noteq> 0
        then AppendBytes ([5, of_nat (2 + sack_count * 8)] @
               concat (map block_bytes (take sack_count (rp_sack_blocks response)))) options
        else Some options) pad_options))"

section \<open>Packets\<close>

datatype TcpOutputError =
    Out_None
  | Out_InvalidResponse
  | Out_AddressFamilyMismatch
  | Out_BufferTooSmall
  | Out_OptionsTooLong

record TcpOutputResult =
  ou_error :: TcpOutputError
  ou_packet_length :: nat

definition output_options :: "TcpResponse \<Rightarrow> bytes option" where
  "output_options response =
     (if rp_flags response AND Flag_Syn \<noteq> 0 then SerializeSynOptions (rp_syn_options response)
      else if rp_flags response AND Flag_Ack \<noteq> 0 then SerializeAckOptions response
      else Some [])"

text \<open>The TCP segment at \<open>tcp = output + hl\<close>, with a zero checksum.\<close>

definition write_tcp :: "nat \<Rightarrow> bytes \<Rightarrow> TcpResponse \<Rightarrow> bytes \<Rightarrow> bytes" where
  "write_tcp hl options response output =
     (let ol = length options;
          output = memcpy_at 0 (replicate (hl + 20 + ol) 0) output;
          output = Write16 hl (fl_source_port (rp_flow response)) output;
          output = Write16 (hl + 2) (fl_destination_port (rp_flow response)) output;
          output = Write32 (hl + 4) (rp_sequence response) output;
          output = Write32 (hl + 8) (rp_acknowledgment response) output;
          output = output[hl + 12 := push_bit 4 (of_nat ((20 + ol) div 4)), hl + 13 := rp_flags response];
          output = Write16 (hl + 14) (rp_window response) output;
          output = (if ol > 0 then memcpy_at (hl + 20) options output else output) in
      case rp_payload response of
        None \<Rightarrow> output
      | Some p \<Rightarrow> if rp_payload_length response > 0
                 then memcpy_at (hl + 20 + ol) (take (rp_payload_length response) p) output else output)"

definition write_ipv4 :: "TcpResponse \<Rightarrow> nat \<Rightarrow> u16 \<Rightarrow> u8 \<Rightarrow> bytes \<Rightarrow> bytes" where
  "write_ipv4 response packet_length ipv4_id hop_limit output =
     (let output = output[0 := 0x45, 1 := rp_ip_ecn response AND 0x03];
          output = Write16 2 (of_nat packet_length) output;
          output = Write16 4 ipv4_id output;
          output = output[8 := hop_limit, 9 := 6];
          output = memcpy_at 12 (take 4 (ia_bytes (fl_source (rp_flow response)))) output;
          output = memcpy_at 16 (take 4 (ia_bytes (fl_destination (rp_flow response)))) output in
      Write16 10 (InternetChecksum (take 20 output) 0) output)"

definition write_ipv6 :: "TcpResponse \<Rightarrow> nat \<Rightarrow> u8 \<Rightarrow> bytes \<Rightarrow> bytes" where
  "write_ipv6 response tcp_total hop_limit output =
     (let output = output[0 := 0x60, 1 := push_bit 4 (rp_ip_ecn response AND 0x03)];
          output = Write16 4 (of_nat tcp_total) output;
          output = output[6 := 6, 7 := hop_limit];
          output = memcpy_at 8 (take 16 (ia_bytes (fl_source (rp_flow response)))) output in
      memcpy_at 24 (take 16 (ia_bytes (fl_destination (rp_flow response)))) output)"

definition BuildTcpControlPacket ::
  "TcpResponse \<Rightarrow> bytes option \<Rightarrow> u16 \<Rightarrow> u8 \<Rightarrow> TcpOutputResult \<times> bytes option" where
  "BuildTcpControlPacket response output ipv4_id hop_limit =
     (let fail = \<lambda>e. (\<lparr>ou_error = e, ou_packet_length = 0\<rparr>, output);
          source = fl_source (rp_flow response); destination = fl_destination (rp_flow response) in
      case output of
        None \<Rightarrow> fail Out_InvalidResponse
      | Some out \<Rightarrow>
          if \<not> rp_valid response \<or> fl_protocol (rp_flow response) \<noteq> 6 then fail Out_InvalidResponse
          else if ia_family source \<noteq> ia_family destination then fail Out_AddressFamilyMismatch
          else case output_options response of
            None \<Rightarrow> fail Out_OptionsTooLong
          | Some options \<Rightarrow>
              let ip_header_length = (if IsIpv4 source then 20 else 40);
                  tcp_total = 20 + length options + rp_payload_length response;
                  packet_length = ip_header_length + tcp_total in
              if length out < packet_length then fail Out_BufferTooSmall
              else
                let out = write_tcp ip_header_length options response out;
                    out = (if IsIpv4 source then write_ipv4 response packet_length ipv4_id hop_limit out
                           else write_ipv6 response tcp_total hop_limit out);
                    out = Write16 (ip_header_length + 16)
                            (InternetChecksum (slice ip_header_length tcp_total out)
                              (tcp_checksum_seed source destination tcp_total)) out in
                (\<lparr>ou_error = Out_None, ou_packet_length = packet_length\<rparr>, Some out))"

section \<open>The options read back\<close>

lemma AppendBytes_eq: "length options + length vs \<le> 40 \<Longrightarrow> AppendBytes vs options = Some (options @ vs)"
  by (induction vs arbitrary: options) (auto simp: AppendByte_def)

lemma shift_bytes_eq: "shift_bytes v = be32_bytes v"
proof -
  have "drop_bit 24 v AND 0xff = drop_bit 24 v"
    unfolding byte_mask by (rule bit_word_eqI) (auto simp: bit_simps dest: bit_imp_le_length)
  then show ?thesis by (simp add: shift_bytes_def be32_bytes_def)
qed

lemma pad_options_even:
  "even (length options) \<Longrightarrow> length options < 40 \<Longrightarrow>
     pad_options options = Some (options @ (if length options mod 4 = 0 then [] else [0, 0]))"
proof -
  assume a: "even (length options)" "length options < 40"
  then have m: "length options mod 4 = 0 \<or> length options mod 4 = 2"
    by presburger
  show ?thesis
  proof (cases "length options mod 4 = 0")
    case False
    with m have 2: "length options mod 4 = 2" by simp
    have "length options < 39" using a by presburger
    moreover have "Suc (length options) mod 4 \<noteq> 0" "Suc (Suc (length options)) mod 4 = 0"
      using 2 by presburger+
    ultimately show ?thesis
      using 2 by (simp add: pad_options.simps [of options] pad_options.simps [of "options @ [0]"]
          pad_options.simps [of "options @ [0, 0]"] AppendByte_def)
  qed (simp add: pad_options.simps)
qed

definition mss_bytes :: "TcpSynOptions \<Rightarrow> bytes" where
  "mss_bytes s = (if so_mss_present s then 2 # 4 # be16_bytes (so_mss s) else [])"

definition timestamp_bytes :: "bool \<Rightarrow> u32 \<Rightarrow> u32 \<Rightarrow> bytes" where
  "timestamp_bytes present v e = (if present then [1, 1, 8, 10] @ be32_bytes v @ be32_bytes e else [])"

lemma SerializeSynOptions_eq:
  "SerializeSynOptions s = Some (mss_bytes s @ (if so_sack_permitted s then [4, 2] else []) @
     timestamp_bytes (so_timestamp_present s) (so_timestamp_value s) (so_timestamp_echo s) @
     (if so_window_scale_present s then [1, 3, 3, min (so_window_scale s) 14] else []) @
     (if so_sack_permitted s then [0, 0] else []))"
  by (simp add: SerializeSynOptions_def AppendBytes_eq shift_bytes_eq pad_options_even mss_bytes_def
      timestamp_bytes_def be16_bytes_def del: AppendBytes.simps)

lemmas opt_loop = syn_options_loop.simps [of "_ # _"]

lemma loop_end: "syn_options_loop [] s = \<lparr>op_error = TcpOpt_None, op_options = s\<rparr>"
  "syn_options_loop (0 # xs) s = \<lparr>op_error = TcpOpt_None, op_options = s\<rparr>"
  by (simp_all add: syn_options_loop.simps)

lemma loop_nop: "syn_options_loop (1 # xs) s = syn_options_loop xs s"
  by (simp add: opt_loop)

lemma loop_mss:
  "\<not> so_mss_present s \<Longrightarrow> v \<noteq> 0 \<Longrightarrow>
     syn_options_loop (2 # 4 # be16_bytes v @ xs) s = syn_options_loop xs (s\<lparr>so_mss := v, so_mss_present := True\<rparr>)"
  by (simp add: opt_loop syn_option_def be16_bytes_def rd16_def Let_def)

lemma loop_sack:
  "\<not> so_sack_permitted s \<Longrightarrow>
     syn_options_loop (4 # 2 # xs) s = syn_options_loop xs (s\<lparr>so_sack_permitted := True\<rparr>)"
  by (simp add: opt_loop syn_option_def Let_def)

lemma loop_scale:
  "\<not> so_window_scale_present s \<Longrightarrow> v \<le> 14 \<Longrightarrow>
     syn_options_loop (3 # 3 # v # xs) s =
       syn_options_loop xs (s\<lparr>so_window_scale_present := True, so_window_scale := v\<rparr>)"
  by (simp add: opt_loop syn_option_def Let_def not_less)

lemma loop_timestamp:
  "\<not> so_timestamp_present s \<Longrightarrow>
     syn_options_loop (8 # 10 # be32_bytes v @ be32_bytes e @ xs) s =
       syn_options_loop xs (s\<lparr>so_timestamp_present := True, so_timestamp_value := v, so_timestamp_echo := e\<rparr>)"
  by (simp add: opt_loop syn_option_def be32_bytes_def rd32_def Let_def)

lemmas loop_simps = loop_end loop_nop loop_mss loop_sack loop_scale loop_timestamp
  loop_mss [where xs = "[]", simplified] loop_timestamp [where xs = "[]", simplified]

text \<open>
  Options as the parser leaves them: an MSS that is present is not zero, the scale is at most 14,
  and absent options have their default values.
\<close>

definition syn_options_ok :: "TcpSynOptions \<Rightarrow> bool" where
  "syn_options_ok s \<longleftrightarrow>
     (if so_mss_present s then so_mss s \<noteq> 0 else so_mss s = 0) \<and> so_window_scale s \<le> 14 \<and>
     (so_window_scale_present s \<or> so_window_scale s = 0) \<and>
     (so_timestamp_present s \<or> so_timestamp_value s = 0 \<and> so_timestamp_echo s = 0)"

lemma SerializeSynOptions_parses:
  assumes "syn_options_ok s"
  shows "\<exists>b. SerializeSynOptions s = Some b \<and> length b \<le> 40 \<and>
    ParseTcpSynOptions (Some b) (length b) = \<lparr>op_error = TcpOpt_None, op_options = s\<rparr>"
  using assms
  by (cases s) (auto simp: SerializeSynOptions_eq syn_options_ok_def ParseTcpSynOptions_def Let_def
      mss_bytes_def timestamp_bytes_def loop_simps TcpSynOptions_init_def min_def)

lemma syn_option_ok:
  "syn_options_ok s \<Longrightarrow> op_error (syn_option b s) = TcpOpt_None \<Longrightarrow> syn_options_ok (op_options (syn_option b s))"
  by (auto simp: syn_option_def syn_options_ok_def Let_def not_less split: if_splits)

lemma syn_options_loop_ok:
  "syn_options_ok s \<Longrightarrow> op_error (syn_options_loop b s) = TcpOpt_None \<Longrightarrow>
     syn_options_ok (op_options (syn_options_loop b s))"
proof (induction b s rule: syn_options_loop.induct)
  case (1 rest s)
  then show ?case
    unfolding syn_options_loop.simps [of rest s] Let_def
    by (cases "rest = []") (simp_all add: syn_option_ok loop_end split: if_splits)
qed

lemma SerializeSynOptions_length:
  "\<exists>b. SerializeSynOptions s = Some b \<and> length b \<le> 40 \<and> length b mod 4 = 0"
  by (auto simp: SerializeSynOptions_eq mss_bytes_def timestamp_bytes_def)

text \<open>
  Everything the SYN option parser accepts, whatever the bytes, can be sent again: the parsed
  options have a non-zero MSS and a scale of at most 14, \<open>SerializeSynOptions\<close> never runs out of
  its 40 bytes on them, and parsing what it writes gives the same options back.\<close>

theorem syn_options_round_trip:
  assumes "op_error (ParseTcpSynOptions data len) = TcpOpt_None"
  shows "let opts = op_options (ParseTcpSynOptions data len) in
    syn_options_ok opts \<and>
    (\<exists>b. SerializeSynOptions opts = Some b \<and> length b \<le> 40 \<and> length b mod 4 = 0 \<and>
      ParseTcpSynOptions (Some b) (length b) = \<lparr>op_error = TcpOpt_None, op_options = opts\<rparr>)"
proof -
  have "syn_options_ok TcpSynOptions_init" by (simp add: syn_options_ok_def TcpSynOptions_init_def)
  then have ok: "syn_options_ok (op_options (ParseTcpSynOptions data len))"
    using assms by (auto simp: ParseTcpSynOptions_def Let_def syn_options_loop_ok split: option.splits if_splits)
  show ?thesis using ok SerializeSynOptions_parses [OF ok]
      SerializeSynOptions_length [of "op_options (ParseTcpSynOptions data len)"]
    by (auto simp: Let_def)
qed

section \<open>The SACK blocks read back\<close>

lemma length_block_bytes [simp]: "length (block_bytes b) = 8"
  by (simp add: block_bytes_def shift_bytes_eq)

lemma length_concat_block_bytes [simp]: "length (concat (map block_bytes bs)) = 8 * length bs"
  by (induction bs) simp_all

lemma sack_option_block_bytes:
  "length acc + length bs \<le> 4 \<Longrightarrow>
     sack_option (length bs) (concat (map block_bytes bs) @ xs) acc = acc @ bs"
proof (induction bs arbitrary: acc)
  case (Cons b bs)
  have "rd32 (block_bytes b @ ys) 0 = sb_left_edge b" "rd32 (block_bytes b @ ys) 4 = sb_right_edge b" for ys
    by (simp_all add: block_bytes_def shift_bytes_eq be32_bytes_def rd32_def)
  then show ?case using Cons by simp
qed simp

lemma sack_loop_end: "sack_loop [] acc = acc" "sack_loop (0 # xs) acc = acc"
  by (simp_all add: sack_loop.simps)

lemma sack_loop_timestamp:
  "sack_loop (timestamp_bytes present v e @ xs) acc = sack_loop xs acc"
proof -
  have "sack_loop (8 # 10 # be32_bytes v @ be32_bytes e @ xs) acc = sack_loop xs acc"
    by (simp add: sack_loop.simps [of "_ # _"] be32_bytes_def Let_def)
  then show ?thesis by (simp add: timestamp_bytes_def sack_loop.simps [of "1 # _"])
qed

lemma sack_loop_blocks:
  assumes "length bs \<le> 4"
  shows "sack_loop (5 # of_nat (2 + length bs * 8) # concat (map block_bytes bs) @ 0 # xs) [] = bs"
proof -
  have l: "unat (of_nat (2 + length bs * 8) :: u8) = 2 + length bs * 8"
    by (rule unat_of_nat_u8) (use assms in simp)
  have "sack_loop (5 # of_nat (2 + length bs * 8) # concat (map block_bytes bs) @ 0 # xs) [] =
    sack_loop (0 # xs) (sack_option (length bs) (concat (map block_bytes bs) @ 0 # xs) [])"
    unfolding sack_loop.simps [of "5 # _"] Let_def nth_Cons_0 One_nat_def nth_Cons_Suc l
    by simp
  then show ?thesis using assms by (simp add: sack_loop_end sack_option_block_bytes)
qed

lemma SerializeAckOptions_eq:
  fixes response :: TcpResponse
  defines "bs \<equiv> take (if rp_timestamp_present response then 3 else 4) (rp_sack_blocks response)"
  shows "SerializeAckOptions response = Some (timestamp_bytes (rp_timestamp_present response)
      (rp_timestamp_value response) (rp_timestamp_echo response) @
    (if bs = [] then [] else 5 # of_nat (2 + length bs * 8) # concat (map block_bytes bs) @ [0, 0]))"
proof -
  let ?c = "min (length (rp_sack_blocks response)) (if rp_timestamp_present response then 3 else 4)"
  have c: "?c = length bs" "take (length bs) (rp_sack_blocks response) = bs"
    by (auto simp: bs_def min_def)
  have l: "length bs \<le> (if rp_timestamp_present response then 3 else 4)" by (simp add: bs_def)
  have m: "\<not> 4 dvd 2 + 8 * n" "\<not> 4 dvd 14 + 8 * n" for n :: nat by presburger+
  show ?thesis
    unfolding SerializeAckOptions_def Let_def c
    using l m [of "length bs"]
    by (auto simp: AppendBytes_eq shift_bytes_eq pad_options_even timestamp_bytes_def mod_greater_zero_iff_not_dvd
        simp del: AppendBytes.simps)
qed

lemma SerializeAckOptions_parses:
  "\<exists>b. SerializeAckOptions response = Some b \<and> length b \<le> 40 \<and> length b mod 4 = 0 \<and>
     ParseTcpSackBlocks (Some b) (length b) =
       take (if rp_timestamp_present response then 3 else 4) (rp_sack_blocks response)"
proof -
  define bs where "bs = take (if rp_timestamp_present response then 3 else 4) (rp_sack_blocks response)"
  have l: "length bs \<le> (if rp_timestamp_present response then 3 else 4)" by (simp add: bs_def)
  have m: "4 dvd 16 + 8 * n" "4 dvd 4 + 8 * n" for n :: nat by presburger+
  show ?thesis
    unfolding SerializeAckOptions_eq bs_def [symmetric]
    using l m [of "length bs"] sack_loop_blocks [of bs "[0]"]
    by (auto simp: ParseTcpSackBlocks_def sack_loop_timestamp sack_loop_end timestamp_bytes_def
        sack_loop_timestamp [where xs = "[]" and present = True, simplified]
        sack_loop_timestamp [where present = True, unfolded timestamp_bytes_def, simplified])
qed

text \<open>
  The ACK options always fit into 40 bytes, and the SACK option that is written is read back:
  the parser returns the first three blocks of the list next to a timestamp and the first four
  without, in order.\<close>

theorem ack_options_round_trip:
  "\<exists>b. SerializeAckOptions response = Some b \<and> length b \<le> 40 \<and> length b mod 4 = 0 \<and>
     ParseTcpSackBlocks (Some b) (length b) =
       take (if rp_timestamp_present response then 3 else 4) (rp_sack_blocks response)"
  by (rule SerializeAckOptions_parses)

section \<open>Packets read back\<close>

lemma output_options_bound:
  "\<exists>b. output_options response = Some b \<and> length b \<le> 40 \<and> length b mod 4 = 0"
  using SerializeSynOptions_length [of "rp_syn_options response"] SerializeAckOptions_parses [of response]
  by (auto simp: output_options_def)

lemma data_offset:
  assumes "n \<le> 40" "n mod 4 = 0"
  shows "unat (drop_bit 4 (push_bit 4 (of_nat ((20 + n) div 4) :: u8))) * 4 = 20 + n"
proof -
  define w where "w = (of_nat ((20 + n) div 4) :: u8)"
  have "unat w = (20 + n) div 4" using assms(1) by (auto simp: w_def intro: unat_of_nat_u8)
  then have w: "unat w = 5 + n div 4" "unat w < 16" using assms(1) by auto
  have "unat (push_bit 4 w) = unat w * 16"
    using w(2) by (simp add: push_bit_eq_mult unat_word_ariths)
  then have "unat (drop_bit 4 (push_bit 4 w)) = unat w"
    using w(2) by (simp only: unsigned_drop_bit_eq) (simp add: drop_bit_eq_div take_bit_nat_eq_self)
  then show ?thesis using w(1) div_mult_mod_eq [of n 4] assms(2) unfolding w_def [symmetric] by simp
qed

text \<open>The payload pointer and its length: either nothing is sent or the pointer has the bytes.\<close>

definition payload_ok :: "TcpResponse \<Rightarrow> bool" where
  "payload_ok response \<longleftrightarrow>
     rp_payload_length response = 0 \<or>
     (case rp_payload response of None \<Rightarrow> False | Some p \<Rightarrow> length p = rp_payload_length response)"

definition payload_bytes :: "TcpResponse \<Rightarrow> bytes" where
  "payload_bytes response = (if rp_payload_length response = 0 then [] else the (rp_payload response))"

lemma length_payload_bytes [simp]: "payload_ok response \<Longrightarrow> length (payload_bytes response) = rp_payload_length response"
  by (auto simp: payload_ok_def payload_bytes_def split: option.splits)

lemma write_tcp_eq:
  assumes "payload_ok response" "hl + 20 + length options + rp_payload_length response \<le> length out"
  shows "write_tcp hl options response out =
    memcpy_at (hl + 20 + length options) (payload_bytes response) (memcpy_at (hl + 20) options
      (memcpy_at (hl + 14) (be16_bytes (rp_window response)) (memcpy_at (hl + 13) [rp_flags response]
        (memcpy_at (hl + 12) [push_bit 4 (of_nat ((20 + length options) div 4))]
          (memcpy_at (hl + 8) (be32_bytes (rp_acknowledgment response))
            (memcpy_at (hl + 4) (be32_bytes (rp_sequence response))
              (memcpy_at (hl + 2) (be16_bytes (fl_destination_port (rp_flow response)))
                (memcpy_at hl (be16_bytes (fl_source_port (rp_flow response)))
                  (memcpy_at 0 (replicate (hl + 20 + length options) 0) out)))))))))"
  using assms
  by (auto simp: write_tcp_def Let_def buffer_simps payload_ok_def payload_bytes_def split: option.splits)

lemma write_tcp_fields:
  fixes hl :: nat and options out :: bytes and response :: TcpResponse
  assumes "payload_ok response" "hl + 20 + length options + rp_payload_length response \<le> length out"
  defines "o1 \<equiv> write_tcp hl options response out"
  shows "length o1 = length out" "take hl o1 = replicate hl 0"
    "rd16 o1 hl = fl_source_port (rp_flow response)"
    "rd16 o1 (hl + 2) = fl_destination_port (rp_flow response)"
    "rd32 o1 (hl + 4) = rp_sequence response" "rd32 o1 (hl + 8) = rp_acknowledgment response"
    "o1 ! (hl + 12) = push_bit 4 (of_nat ((20 + length options) div 4))"
    "o1 ! (hl + 13) = rp_flags response" "rd16 o1 (hl + 14) = rp_window response"
    "rd16 o1 (hl + 16) = 0" "rd16 o1 (hl + 18) = 0"
    "slice (hl + 20) (length options) o1 = options"
    "slice (hl + 20 + length options) (rp_payload_length response) o1 = payload_bytes response"
    "drop (hl + 20 + length options + rp_payload_length response) o1 =
       drop (hl + 20 + length options + rp_payload_length response) out"
  using assms(1,2) unfolding o1_def write_tcp_eq [OF assms(1,2)]
  by (simp_all add: buffer_simps)

lemma write_ipv4_eq:
  fixes response :: TcpResponse
  defines "src \<equiv> take 4 (ia_bytes (fl_source (rp_flow response)))"
    and "dst \<equiv> take 4 (ia_bytes (fl_destination (rp_flow response)))"
  assumes "20 \<le> length out"
  shows "write_ipv4 response pl ipv4_id hop_limit out =
    (let o1 = memcpy_at 16 dst (memcpy_at 12 src (memcpy_at 9 [6] (memcpy_at 8 [hop_limit]
       (memcpy_at 4 (be16_bytes ipv4_id) (memcpy_at 2 (be16_bytes (of_nat pl))
         (memcpy_at 1 [rp_ip_ecn response AND 3] (memcpy_at 0 [0x45] out))))))) in
     memcpy_at (0 + 10) (be16_bytes (InternetChecksum (slice 0 20 o1) 0)) o1)"
  using assms(3) by (simp add: write_ipv4_def Let_def src_def dst_def buffer_simps)

lemma write_ipv4_fields:
  fixes response :: TcpResponse and pl :: nat and ipv4_id :: u16 and hop_limit :: u8 and out :: bytes
  assumes "20 \<le> length out" "take 20 out = replicate 20 0" "flow_ok (rp_flow response)"
  defines "o2 \<equiv> write_ipv4 response pl ipv4_id hop_limit out"
  shows "length o2 = length out" "drop 20 o2 = drop 20 out" "o2 ! 0 = 0x45"
    "o2 ! 1 = rp_ip_ecn response AND 3" "rd16 o2 2 = of_nat pl" "rd16 o2 6 = 0" "o2 ! 9 = 6"
    "slice 12 4 o2 = take 4 (ia_bytes (fl_source (rp_flow response)))"
    "slice 16 4 o2 = take 4 (ia_bytes (fl_destination (rp_flow response)))"
    "InternetChecksum (take 20 o2) 0 = 0"
proof -
  define src dst where "src = take 4 (ia_bytes (fl_source (rp_flow response)))"
    and "dst = take 4 (ia_bytes (fl_destination (rp_flow response)))"
  define o1 where "o1 = memcpy_at 16 dst (memcpy_at 12 src (memcpy_at 9 [6] (memcpy_at 8 [hop_limit]
       (memcpy_at 4 (be16_bytes ipv4_id) (memcpy_at 2 (be16_bytes (of_nat pl))
         (memcpy_at 1 [rp_ip_ecn response AND 3] (memcpy_at 0 [0x45] out)))))))"
  have o2: "o2 = memcpy_at (0 + 10) (be16_bytes (InternetChecksum (slice 0 20 o1) 0)) o1"
    using write_ipv4_eq [OF assms(1), of response pl ipv4_id hop_limit]
    by (simp add: o2_def o1_def src_def dst_def Let_def)
  have [simp]: "length src = 4" "length dst = 4"
    using assms(3) by (auto simp: flow_ok_def src_def dst_def)
  have zero: "rd16 out 6 = 0" "rd16 out 10 = 0"
    using rd16_take_zeros [OF assms(2)] assms(1) by auto
  have ne: "out \<noteq> []" using assms(1) by auto
  have o1: "length o1 = length out" "drop 20 o1 = drop 20 out" "o1 ! 0 = 0x45"
    "o1 ! 1 = rp_ip_ecn response AND 3" "rd16 o1 2 = of_nat pl" "rd16 o1 6 = 0" "o1 ! 9 = 6"
    "slice 12 4 o1 = src" "slice 16 4 o1 = dst" "rd16 o1 10 = 0"
    using assms(1) zero ne slice_memcpy_at_same [of 16 dst] slice_memcpy_at_same [of 12 src]
    by (simp_all add: o1_def buffer_simps)
  have "rd16 (slice 0 20 o1) 10 = 0" using o1(1,10) assms(1) by (simp add: buffer_simps)
  then show "InternetChecksum (take 20 o2) 0 = 0"
    unfolding o2 slice_0 [symmetric]
    using assms(1) o1(1) by (intro inet.window_verifies small_fits) simp_all
  show "length o2 = length out" "drop 20 o2 = drop 20 out" "o2 ! 0 = 0x45"
    "o2 ! 1 = rp_ip_ecn response AND 3" "rd16 o2 2 = of_nat pl" "rd16 o2 6 = 0" "o2 ! 9 = 6"
    "slice 12 4 o2 = take 4 (ia_bytes (fl_source (rp_flow response)))"
    "slice 16 4 o2 = take 4 (ia_bytes (fl_destination (rp_flow response)))"
    using assms(1) o1 ne unfolding o2 by (simp_all add: buffer_simps src_def dst_def)
qed

lemma write_ipv6_fields:
  fixes response :: TcpResponse and n :: nat and hop_limit :: u8 and out :: bytes
  assumes "40 \<le> length out" "flow_ok (rp_flow response)"
  defines "o2 \<equiv> write_ipv6 response n hop_limit out"
  shows "length o2 = length out" "drop 40 o2 = drop 40 out" "o2 ! 0 = 0x60"
    "o2 ! 1 = push_bit 4 (rp_ip_ecn response AND 3)" "rd16 o2 4 = of_nat n" "o2 ! 6 = 6"
    "slice 8 16 o2 = take 16 (ia_bytes (fl_source (rp_flow response)))"
    "slice 24 16 o2 = take 16 (ia_bytes (fl_destination (rp_flow response)))"
proof -
  define src dst where "src = take 16 (ia_bytes (fl_source (rp_flow response)))"
    and "dst = take 16 (ia_bytes (fl_destination (rp_flow response)))"
  have [simp]: "length src = 16" "length dst = 16"
    using assms(2) by (auto simp: flow_ok_def src_def dst_def)
  have ne: "out \<noteq> []" using assms(1) by auto
  have o2: "o2 = memcpy_at 24 dst (memcpy_at 8 src (memcpy_at 7 [hop_limit] (memcpy_at 6 [6]
    (memcpy_at 4 (be16_bytes (of_nat n)) (memcpy_at 1 [push_bit 4 (rp_ip_ecn response AND 3)]
      (memcpy_at 0 [0x60] out))))))"
    using assms(1) by (simp add: o2_def write_ipv6_def Let_def src_def dst_def buffer_simps)
  show "length o2 = length out" "drop 40 o2 = drop 40 out" "o2 ! 0 = 0x60"
    "o2 ! 1 = push_bit 4 (rp_ip_ecn response AND 3)" "rd16 o2 4 = of_nat n" "o2 ! 6 = 6"
    "slice 8 16 o2 = take 16 (ia_bytes (fl_source (rp_flow response)))"
    "slice 24 16 o2 = take 16 (ia_bytes (fl_destination (rp_flow response)))"
    using assms(1) ne slice_memcpy_at_same [of 24 dst] slice_memcpy_at_same [of 8 src]
    unfolding src_def [symmetric] dst_def [symmetric] unfolding o2
    by (simp_all add: buffer_simps)
qed

lemma tcp_checksum_seed_cong:
  "IpAddress_eq a a' \<Longrightarrow> IpAddress_eq b b' \<Longrightarrow> ia_family b = ia_family a \<Longrightarrow>
     tcp_checksum_seed a b n = tcp_checksum_seed a' b' n"
  by (auto simp: tcp_checksum_seed_def IpAddress_eq_def IsIpv4_def ByteCount_def Let_def split: if_splits)

lemma tcp_checksum_seed_bound:
  assumes "length (ia_bytes a) = 16" "length (ia_bytes b) = 16"
  shows "unat (tcp_checksum_seed a b n) \<le> 65535 * 20"
proof -
  have "bsum (pseudo4 (take 4 (ia_bytes a)) (take 4 (ia_bytes b)) 6 (of_nat n)) \<le> 65535 * 20"
    using bsum_bound [of "pseudo4 (take 4 (ia_bytes a)) (take 4 (ia_bytes b)) 6 (of_nat n)"] assms
    by (simp add: pseudo4_def)
  moreover have "bsum (pseudo6 (take 16 (ia_bytes a)) (take 16 (ia_bytes b)) 6 (of_nat n)) \<le> 65535 * 20"
    using bsum_bound [of "pseudo6 (take 16 (ia_bytes a)) (take 16 (ia_bytes b)) 6 (of_nat n)"] assms
    by (simp add: pseudo6_def)
  ultimately show ?thesis
    using assms by (simp add: tcp_checksum_seed_def unat_Ipv4PseudoHeaderSeed unat_Ipv6PseudoHeaderSeed)
qed

text \<open>The TCP part of the output as a window of its own.\<close>

definition built_segment :: "nat \<Rightarrow> bytes \<Rightarrow> TcpResponse \<Rightarrow> bytes \<Rightarrow> bytes" where
  "built_segment hl options response out =
     slice hl (20 + length options + rp_payload_length response) (write_tcp hl options response out)"

lemma built_segment_fields:
  fixes hl :: nat and options out :: bytes and response :: TcpResponse
  assumes "payload_ok response" "hl + 20 + length options + rp_payload_length response \<le> length out"
  defines "w \<equiv> built_segment hl options response out"
  shows "length w = 20 + length options + rp_payload_length response"
    "rd16 w 0 = fl_source_port (rp_flow response)" "rd16 w 2 = fl_destination_port (rp_flow response)"
    "rd32 w 4 = rp_sequence response" "rd32 w 8 = rp_acknowledgment response"
    "w ! 12 = push_bit 4 (of_nat ((20 + length options) div 4))" "w ! 13 = rp_flags response"
    "rd16 w 14 = rp_window response" "rd16 w 16 = 0" "rd16 w 18 = 0"
    "slice 20 (length options) w = options" "drop (20 + length options) w = payload_bytes response"
proof -
  note f = write_tcp_fields [OF assms(1,2)]
  have "drop (20 + length options) w = slice (hl + 20 + length options) (rp_payload_length response)
      (write_tcp hl options response out)"
    by (simp add: w_def built_segment_def slice_def drop_take add.commute add.left_commute)
  then show "drop (20 + length options) w = payload_bytes response" by (simp add: f)
  show "length w = 20 + length options + rp_payload_length response"
    "rd16 w 0 = fl_source_port (rp_flow response)" "rd16 w 2 = fl_destination_port (rp_flow response)"
    "rd32 w 4 = rp_sequence response" "rd32 w 8 = rp_acknowledgment response"
    "w ! 12 = push_bit 4 (of_nat ((20 + length options) div 4))" "w ! 13 = rp_flags response"
    "rd16 w 14 = rp_window response" "rd16 w 16 = 0" "rd16 w 18 = 0"
    "slice 20 (length options) w = options"
    using assms(2) f unfolding w_def built_segment_def by (simp_all add: buffer_simps)
qed

definition response_segment :: "IpAddress \<Rightarrow> IpAddress \<Rightarrow> bytes \<Rightarrow> u8 \<Rightarrow> TcpResponse \<Rightarrow> TcpSegmentView" where
  "response_segment src dst options ecn response =
    \<lparr>sg_flow = \<lparr>fl_source = src, fl_destination = dst, fl_source_port = fl_source_port (rp_flow response),
       fl_destination_port = fl_destination_port (rp_flow response), fl_protocol = 6\<rparr>,
     sg_sequence = rp_sequence response, sg_acknowledgment = rp_acknowledgment response,
     sg_flags = rp_flags response, sg_window = rp_window response, sg_urgent_pointer = 0,
     sg_options = Some options, sg_payload = Some (payload_bytes response), sg_ip_ecn = ecn AND 3\<rparr>"

lemma ParseTcpSegment_built:
  fixes response :: TcpResponse and options out :: bytes and src dst :: IpAddress and hl n :: nat
  assumes n: "n = 20 + length options + rp_payload_length response" "hl + n \<le> length out" "n \<le> 65535"
    and pay: "payload_ok response" and opts: "length options \<le> 40" "length options mod 4 = 0"
    and addr: "length (ia_bytes src) = 16" "length (ia_bytes dst) = 16" "ia_family dst = ia_family src"
  defines "w \<equiv> built_segment hl options response out"
  defines "d \<equiv> memcpy_at 16 (be16_bytes (InternetChecksum w (tcp_checksum_seed src dst n))) w"
  shows "ParseTcpSegment src dst (Some d) ecn =
    \<lparr>tp_error = Tcp_None, tp_segment = response_segment src dst options ecn response\<rparr>"
proof -
  have h: "hl + 20 + length options + rp_payload_length response \<le> length out" using n by simp
  note f = built_segment_fields [OF pay h, folded w_def]
  have lw: "length w = n" using f(1) n(1) by simp
  have "bsum w \<le> 65535 * ((65535 + 1) div 2)" by (rule bsum_bound_mono) (use lw n(3) in simp)
  then have "InternetChecksum d (tcp_checksum_seed src dst n) = 0"
    unfolding d_def
    using f(9) n(1) lw tcp_checksum_seed_bound [OF addr(1,2), of n]
    by (intro checksum_insert) simp_all
  moreover have "length d = n" by (simp add: d_def lw)
  moreover have "rd16 d 0 = rd16 w 0" "rd16 d 2 = rd16 w 2" "rd32 d 4 = rd32 w 4" "rd32 d 8 = rd32 w 8"
    "d ! 12 = w ! 12" "d ! 13 = w ! 13" "rd16 d 14 = rd16 w 14" "rd16 d 18 = rd16 w 18"
    "slice 20 (length options) d = slice 20 (length options) w"
    "drop (20 + length options) d = drop (20 + length options) w"
    using lw n(1) unfolding d_def by (simp_all add: buffer_simps)
  ultimately show ?thesis
    using n addr(3) data_offset [OF opts]
    unfolding f response_segment_def
    by (simp add: ParseTcpSegment_def Let_def TcpSegmentView_init_def)
qed

lemma ParseIpTcpPacket_v4:
  assumes "length p = 20 + n" "20 + n \<le> 65535" "p ! 0 = 0x45" "rd16 p 2 = of_nat (20 + n)" "rd16 p 6 = 0"
    "p ! 9 = 6" "InternetChecksum (take 20 p) 0 = 0"
    and tcp: "ParseTcpSegment (Ipv4_Address_of (slice 12 4 p)) (Ipv4_Address_of (slice 16 4 p))
      (Some (drop 20 p)) (p ! 1 AND 3) = \<lparr>tp_error = Tcp_None, tp_segment = seg\<rparr>"
  shows "in_error (ParseIpTcpPacket (Some p)) = In_None" "in_segment (ParseIpTcpPacket (Some p)) = seg"
proof -
  have total: "unat (rd16 p 2) = 20 + n" unfolding assms(4) using assms(2) by (rule unat_of_nat_u16 [OF le_less_trans]) simp
  have wf: "ipv4_wellformed p" using assms(1,3) total by (simp add: ipv4_wellformed_def)
  note parse = ParseIpv4_wellformed [OF wf]
  have pay: "ip4_payload (ParseIpv4 p) = Some (drop 20 p)"
    using assms(1,3) total by (simp add: parse slice_def)
  have "ParseIpTcpPacket (Some p) =
    finish_tcp \<lparr>tp_error = Tcp_None, tp_segment = seg\<rparr> (classify_ipv4 p TcpInputResult_init)"
    "in_error (classify_ipv4 p TcpInputResult_init) = In_None"
    using assms(1,3,5-7) tcp wf unfolding ParseIpTcpPacket_def classify_ipv4_def
    by (auto simp: Let_def ParseIpv4_error_iff parse(6-11,14) pay TcpInputResult_init_def)
  then show "in_error (ParseIpTcpPacket (Some p)) = In_None" "in_segment (ParseIpTcpPacket (Some p)) = seg"
    by (simp_all add: finish_tcp_def)
qed

lemma ucast_u8_u16_u8: "ucast (ucast (w::u8) :: u16) = w"
  by (rule bit_word_eqI) (auto simp: bit_simps)

lemma ParseIpTcpPacket_v6:
  assumes "length p = 40 + n" "n \<le> 65535" "0 < n" "p ! 0 = 0x60" "rd16 p 4 = of_nat n" "p ! 6 = 6"
    and tcp: "ParseTcpSegment (Ipv6_Address (slice 8 16 p)) (Ipv6_Address (slice 24 16 p))
      (Some (drop 40 p)) (drop_bit 4 (p ! 1) AND 3) = \<lparr>tp_error = Tcp_None, tp_segment = seg\<rparr>"
  shows "in_error (ParseIpTcpPacket (Some p)) = In_None" "in_segment (ParseIpTcpPacket (Some p)) = seg"
proof -
  have total: "unat (rd16 p 4) = n" unfolding assms(5) using assms(2) by (rule unat_of_nat_u16 [OF le_less_trans]) simp
  then have "rd16 p 4 \<noteq> 0" using assms(3) by auto
  then have parse: "ip6_error (ParseIpv6 p) = Ipv6_None" "ip6_header (ParseIpv6 p) = fixed_header p"
    "ip6_final_next_header (ParseIpv6 p) = 6" "ip6_payload (ParseIpv6 p) = Some (drop 40 p)"
    "ip6_fragment_header_present (ParseIpv6 p) = False"
    using ParseIpv6_no_ext [of p] assms(1,4,6) total by (auto simp: IsExtensionHeader_def slice_def)
  have hdr: "ip6_src_ip (fixed_header p) = slice 8 16 p" "ip6_dst_ip (fixed_header p) = slice 24 16 p"
    "ip6_traffic_class (fixed_header p) = drop_bit 4 (p ! 1)"
    using assms(4) by (simp_all add: fixed_header_def read_fixed_header_def ucast_u8_u16_u8)
  have "ParseIpTcpPacket (Some p) =
    finish_tcp \<lparr>tp_error = Tcp_None, tp_segment = seg\<rparr> (classify_ipv6 p TcpInputResult_init)"
    "in_error (classify_ipv6 p TcpInputResult_init) = In_None"
    using assms(1,4) tcp unfolding ParseIpTcpPacket_def classify_ipv6_def
    by (auto simp: Let_def parse hdr TcpInputResult_init_def)
  then show "in_error (ParseIpTcpPacket (Some p)) = In_None" "in_segment (ParseIpTcpPacket (Some p)) = seg"
    by (simp_all add: finish_tcp_def)
qed

lemma Ipv4_Address_of_eq:
  assumes "ia_family a = Fam_Ipv4" "length (ia_bytes a) = 16"
  shows "IpAddress_eq (Ipv4_Address_of (take 4 (ia_bytes a))) a"
    "length (ia_bytes (Ipv4_Address_of (take 4 (ia_bytes a)))) = 16"
proof -
  have "take 4 (ia_bytes a) = [ia_bytes a ! 0, ia_bytes a ! 1, ia_bytes a ! 2, ia_bytes a ! 3]"
    using assms(2) by (intro nth_equalityI) (auto simp: nth_Cons' less_Suc_eq numeral_eq_Suc)
  then show "IpAddress_eq (Ipv4_Address_of (take 4 (ia_bytes a))) a"
    "length (ia_bytes (Ipv4_Address_of (take 4 (ia_bytes a)))) = 16"
    using assms(1)
    by (simp_all add: Ipv4_Address_of_def Ipv4_Address_def IpAddress_eq_def ByteCount_def memcpy_at_front)
qed

lemma Ipv6_Address_eq:
  assumes "ia_family a \<noteq> Fam_Ipv4" "length (ia_bytes a) = 16"
  shows "IpAddress_eq (Ipv6_Address (take 16 (ia_bytes a))) a"
    "length (ia_bytes (Ipv6_Address (take 16 (ia_bytes a)))) = 16"
  using assms by (cases "ia_family a";
      simp add: Ipv6_Address_def IpAddress_eq_def ByteCount_def memcpy_at_front)+

text \<open>What the receiver of a packet for a response sees.\<close>

definition segment_matches :: "TcpSegmentView \<Rightarrow> TcpResponse \<Rightarrow> bool" where
  "segment_matches s response \<longleftrightarrow>
     FlowKey_eq (sg_flow s) (rp_flow response) \<and> sg_sequence s = rp_sequence response \<and>
     sg_acknowledgment s = rp_acknowledgment response \<and> sg_flags s = rp_flags response \<and>
     sg_window s = rp_window response \<and> sg_urgent_pointer s = 0 \<and>
     sg_options s = output_options response \<and> sg_payload s = Some (payload_bytes response) \<and>
     sg_ip_ecn s = rp_ip_ecn response AND 3"

text \<open>The checksum is written into the TCP window after the IP header is in place.\<close>

lemma built_window:
  fixes response :: TcpResponse and options out o2 :: bytes and c :: u16 and hl n :: nat
  assumes n: "n = 20 + length options + rp_payload_length response" and "payload_ok response"
    "hl + n \<le> length out" and o2: "length o2 = length out"
    "drop hl o2 = drop hl (write_tcp hl options response out)"
  defines "o3 \<equiv> Write16 (hl + 16) c o2"
  shows "slice hl n o2 = built_segment hl options response out"
    "drop hl (take (hl + n) o3) = memcpy_at 16 (be16_bytes c) (built_segment hl options response out)"
    "take hl (take (hl + n) o3) = take hl o2" "length (take (hl + n) o3) = hl + n"
    "drop (hl + n) o3 = drop (hl + n) out"
proof -
  let ?o1 = "write_tcp hl options response out"
  have h: "hl + 20 + length options + rp_payload_length response \<le> length out" using assms(3) n by simp
  show w: "slice hl n o2 = built_segment hl options response out"
    by (simp add: built_segment_def slice_def o2 n)
  have o3: "o3 = memcpy_at (hl + 16) (be16_bytes c) o2"
    using assms(3) n o2(1) by (simp add: o3_def Write16_memcpy_at)
  have "drop hl (take (hl + n) o3) = slice hl n o3" by (simp add: slice_def drop_take)
  then show "drop hl (take (hl + n) o3) = memcpy_at 16 (be16_bytes c) (built_segment hl options response out)"
    unfolding o3 using assms(3) n o2(1) w by (simp add: slice_memcpy_at_inside)
  show "take hl (take (hl + n) o3) = take hl o2" unfolding o3 by (simp add: take_memcpy_at_before min_def)
  show "length (take (hl + n) o3) = hl + n" using assms(3) o2(1) by (simp add: o3)
  have "drop (hl + n) o3 = drop (hl + n) o2"
    unfolding o3 using assms(3) n o2(1) by (intro drop_memcpy_at_before) simp_all
  also have "\<dots> = drop (hl + n) ?o1" using arg_cong [OF o2(2), of "drop n"] by (simp add: add.commute)
  finally show "drop (hl + n) o3 = drop (hl + n) out"
    using write_tcp_fields(14) [OF assms(2) h] n by (simp add: add.assoc)
qed

lemma read_prefix:
  assumes "take k xs = take k ys" "k \<le> length xs" "k \<le> length ys"
  shows "i < k \<Longrightarrow> xs ! i = ys ! i" "i + 2 \<le> k \<Longrightarrow> rd16 xs i = rd16 ys i"
    "i + n \<le> k \<Longrightarrow> slice i n xs = slice i n ys"
proof -
  have nth: "xs ! i = ys ! i" if "i < k" for i using that assms(1) by (metis nth_take)
  show "i < k \<Longrightarrow> xs ! i = ys ! i" by (rule nth)
  show "i + 2 \<le> k \<Longrightarrow> rd16 xs i = rd16 ys i" by (simp add: rd16_def nth)
  show "i + n \<le> k \<Longrightarrow> slice i n xs = slice i n ys"
    using assms(2,3) by (intro nth_equalityI) (simp_all add: nth_slice nth)
qed

text \<open>The parts of the two proofs that do not depend on the IP version.\<close>

lemma built_segment_parses:
  fixes response :: TcpResponse and options out o2 :: bytes and hl n :: nat
  defines "src \<equiv> fl_source (rp_flow response)" and "dst \<equiv> fl_destination (rp_flow response)"
  assumes n: "n = 20 + length options + rp_payload_length response" "hl + n \<le> length out" "n \<le> 65535"
    and ok: "payload_ok response" "fl_protocol (rp_flow response) = 6" "output_options response = Some options"
    and o2: "length o2 = length out" "drop hl o2 = drop hl (write_tcp hl options response out)"
    and ab: "IpAddress_eq a src" "IpAddress_eq b dst" "length (ia_bytes a) = 16" "length (ia_bytes b) = 16"
      "ia_family b = ia_family a"
  defines "o3 \<equiv> Write16 (hl + 16) (InternetChecksum (slice hl n o2) (tcp_checksum_seed src dst n)) o2"
  shows "ParseTcpSegment a b (Some (drop hl (take (hl + n) o3))) (rp_ip_ecn response AND 3) =
      \<lparr>tp_error = Tcp_None, tp_segment = response_segment a b options (rp_ip_ecn response AND 3) response\<rparr>"
    "segment_matches (response_segment a b options (rp_ip_ecn response AND 3) response) response"
proof -
  have seed: "tcp_checksum_seed src dst n = tcp_checksum_seed a b n"
    using ab by (intro tcp_checksum_seed_cong [symmetric]) auto
  have ob: "length options \<le> 40" "length options mod 4 = 0"
    using output_options_bound [of response] ok(3) by auto
  note b = built_window [OF n(1) ok(1) n(2) o2]
  show "ParseTcpSegment a b (Some (drop hl (take (hl + n) o3))) (rp_ip_ecn response AND 3) =
      \<lparr>tp_error = Tcp_None, tp_segment = response_segment a b options (rp_ip_ecn response AND 3) response\<rparr>"
    unfolding o3_def b(2) b(1) seed by (rule ParseTcpSegment_built [OF n ok(1) ob ab(3-5)])
  show "segment_matches (response_segment a b options (rp_ip_ecn response AND 3) response) response"
    using ab ok(2,3)
    by (simp add: segment_matches_def response_segment_def FlowKey_eq_def src_def dst_def and.assoc)
qed

lemma built_v4:
  fixes response :: TcpResponse and options out :: bytes and ipv4_id :: u16 and hop_limit :: u8
  defines "src \<equiv> fl_source (rp_flow response)" and "dst \<equiv> fl_destination (rp_flow response)"
    and "n \<equiv> 20 + length options + rp_payload_length response"
  assumes ok: "payload_ok response" "fl_protocol (rp_flow response) = 6" "output_options response = Some options"
    and v4: "flow_ok (rp_flow response)" "IsIpv4 src" and n: "20 + n \<le> length out" "20 + n \<le> 65535"
  defines "o2 \<equiv> write_ipv4 response (20 + n) ipv4_id hop_limit (write_tcp 20 options response out)"
  defines "o3 \<equiv> Write16 (20 + 16) (InternetChecksum (slice 20 n o2) (tcp_checksum_seed src dst n)) o2"
  shows "let i = ParseIpTcpPacket (Some (take (20 + n) o3)) in
    in_error i = In_None \<and> segment_matches (in_segment i) response \<and> drop (20 + n) o3 = drop (20 + n) out"
proof -
  let ?p = "take (20 + n) o3"
  define a b where "a = Ipv4_Address_of (take 4 (ia_bytes src))" and "b = Ipv4_Address_of (take 4 (ia_bytes dst))"
  have h: "20 + 20 + length options + rp_payload_length response \<le> length out" using n n_def by simp
  note t = write_tcp_fields [OF ok(1) h]
  have l: "20 \<le> length (write_tcp 20 options response out)" using t(1) h by simp
  note i = write_ipv4_fields [OF l t(2) v4(1), of "20 + n" ipv4_id hop_limit, folded o2_def]
  have o2: "length o2 = length out" using i(1) t(1) by simp
  note n' = n_def [THEN meta_eq_to_obj_eq]
  note w = built_window(2-5) [OF n' ok(1) n(1) o2 i(2),
      where c = "InternetChecksum (slice 20 n o2) (tcp_checksum_seed src dst n)", folded o3_def]
  have "IpAddress_eq a src" "IpAddress_eq b dst" "length (ia_bytes a) = 16" "length (ia_bytes b) = 16"
    "ia_family b = ia_family a"
    using v4 Ipv4_Address_of_eq
    by (auto simp: a_def b_def flow_ok_def IsIpv4_def src_def dst_def Ipv4_Address_of_def Ipv4_Address_def)
  note core = built_segment_parses [OF n' n(1) _ ok o2 i(2) this [unfolded src_def dst_def],
      folded src_def dst_def, folded o3_def]
  have pre: "take 20 ?p = take 20 o2" "20 \<le> length ?p" "20 \<le> length o2"
    using w(2,3) i(1) l by simp_all
  have r: "?p ! 0 = 0x45" "?p ! 1 AND 3 = rp_ip_ecn response AND 3" "rd16 ?p 2 = of_nat (20 + n)"
    "rd16 ?p 6 = 0" "?p ! 9 = 6" "slice 12 4 ?p = take 4 (ia_bytes src)" "slice 16 4 ?p = take 4 (ia_bytes dst)"
    using i(3-9) by (simp_all add: read_prefix [OF pre] src_def dst_def and.assoc del: of_nat_add nth_take)
  have "InternetChecksum (take 20 ?p) 0 = 0" using i(10) pre(1) by simp
  note packet = ParseIpTcpPacket_v4 [OF w(3) n(2) r(1,3,4,5) this, unfolded r(2,6,7) a_def [symmetric] b_def [symmetric],
      OF core(1)]
  show ?thesis using n packet core(2) w(4) by (simp add: Let_def)
qed

lemma low2_mask: "(3::u8) = mask 2"
  by (simp add: mask_eq_exp_minus_1)

lemma ecn_shifted: "drop_bit 4 (push_bit 4 (w::u8)) AND 3 = w AND 3"
  unfolding low2_mask by (rule bit_word_eqI) (auto simp: bit_simps)

lemma built_v6:
  fixes response :: TcpResponse and options out :: bytes and hop_limit :: u8
  defines "src \<equiv> fl_source (rp_flow response)" and "dst \<equiv> fl_destination (rp_flow response)"
    and "n \<equiv> 20 + length options + rp_payload_length response"
  assumes ok: "payload_ok response" "fl_protocol (rp_flow response) = 6" "output_options response = Some options"
    and v6: "flow_ok (rp_flow response)" "\<not> IsIpv4 src" and n: "40 + n \<le> length out" "n \<le> 65535"
  defines "o2 \<equiv> write_ipv6 response n hop_limit (write_tcp 40 options response out)"
  defines "o3 \<equiv> Write16 (40 + 16) (InternetChecksum (slice 40 n o2) (tcp_checksum_seed src dst n)) o2"
  shows "let i = ParseIpTcpPacket (Some (take (40 + n) o3)) in
    in_error i = In_None \<and> segment_matches (in_segment i) response \<and> drop (40 + n) o3 = drop (40 + n) out"
proof -
  let ?p = "take (40 + n) o3"
  define a b where "a = Ipv6_Address (take 16 (ia_bytes src))" and "b = Ipv6_Address (take 16 (ia_bytes dst))"
  have h: "40 + 20 + length options + rp_payload_length response \<le> length out" using n n_def by simp
  note t = write_tcp_fields [OF ok(1) h]
  have l: "40 \<le> length (write_tcp 40 options response out)" using t(1) h by simp
  note i = write_ipv6_fields [OF l v6(1), of n hop_limit, folded o2_def]
  have o2: "length o2 = length out" using i(1) t(1) by simp
  note n' = n_def [THEN meta_eq_to_obj_eq]
  note w = built_window(2-5) [OF n' ok(1) n(1) o2 i(2),
      where c = "InternetChecksum (slice 40 n o2) (tcp_checksum_seed src dst n)", folded o3_def]
  have "IpAddress_eq a src" "IpAddress_eq b dst" "length (ia_bytes a) = 16" "length (ia_bytes b) = 16"
    "ia_family b = ia_family a"
    using v6 Ipv6_Address_eq
    by (auto simp: a_def b_def flow_ok_def IsIpv4_def src_def dst_def Ipv6_Address_def)
  note core = built_segment_parses [OF n' n ok o2 i(2) this [unfolded src_def dst_def],
      folded src_def dst_def, folded o3_def]
  have pre: "take 40 ?p = take 40 o2" "40 \<le> length ?p" "40 \<le> length o2"
    using w(2,3) i(1) l by simp_all
  have r: "?p ! 0 = 0x60" "drop_bit 4 (?p ! 1) AND 3 = rp_ip_ecn response AND 3" "rd16 ?p 4 = of_nat n"
    "?p ! 6 = 6" "slice 8 16 ?p = take 16 (ia_bytes src)" "slice 24 16 ?p = take 16 (ia_bytes dst)"
    using i(3-8)
    by (simp_all add: read_prefix [OF pre] src_def dst_def ecn_shifted and.assoc del: nth_take)
  have "0 < n" by (simp add: n_def)
  note packet = ParseIpTcpPacket_v6 [OF w(3) n(2) this r(1,3,4), unfolded r(2,5,6) a_def [symmetric] b_def [symmetric],
      OF core(1)]
  show ?thesis using packet core(2) w(4) by (simp add: Let_def)
qed

text \<open>
  What the option parsers read from the options of a received segment: after a SYN the negotiated options,
  after another ACK the SACK blocks that fit, and otherwise there are no options.
\<close>

definition options_read_back :: "bytes option \<Rightarrow> TcpResponse \<Rightarrow> bool" where
  "options_read_back options response \<longleftrightarrow>
     (case options of
        None \<Rightarrow> False
      | Some b \<Rightarrow>
          if rp_flags response AND Flag_Syn \<noteq> 0 then
            syn_options_ok (rp_syn_options response) \<longrightarrow>
              ParseTcpSynOptions (Some b) (length b) = \<lparr>op_error = TcpOpt_None, op_options = rp_syn_options response\<rparr>
          else if rp_flags response AND Flag_Ack \<noteq> 0 then
            ParseTcpSackBlocks (Some b) (length b) =
              take (if rp_timestamp_present response then 3 else 4) (rp_sack_blocks response)
          else b = [])"

lemma output_options_read_back: "options_read_back (output_options response) response"
  using SerializeSynOptions_parses [of "rp_syn_options response"] SerializeSynOptions_length [of "rp_syn_options response"]
    SerializeAckOptions_parses [of response]
  by (auto simp: options_read_back_def output_options_def)

text \<open>
  C7: A packet that \<open>BuildTcpControlPacket\<close> reports as built is accepted by \<open>ParseIpTcpPacket\<close>,
  for both IP versions: all checksums are right, the segment has the flow, sequence and
  acknowledgment numbers, flags, window, ECN bits and payload of the response and the options that the
  serialiser chose for it, and nothing behind the packet is written. The option parsers read from
  these options the SYN options of the response, when it is a SYN with options that a peer may send, and
  the SACK blocks that fit when it is another ACK. The packet has to fit the 16-bit length field of its IP
  header, which the function does not check itself.\<close>

theorem tcp_packet_round_trip:
  assumes "BuildTcpControlPacket response (Some out) ipv4_id hop_limit = (r, Some out')"
    "ou_error r = Out_None" "flow_ok (rp_flow response)" "payload_ok response"
    "ou_packet_length r \<le> 65535 + (if IsIpv4 (fl_source (rp_flow response)) then 0 else 40)"
  shows "let i = ParseIpTcpPacket (Some (take (ou_packet_length r) out')) in
    in_error i = In_None \<and> segment_matches (in_segment i) response \<and>
    options_read_back (sg_options (in_segment i)) response \<and>
    drop (ou_packet_length r) out' = drop (ou_packet_length r) out"
proof -
  obtain options where o: "output_options response = Some options" using output_options_bound [of response] by auto
  have "let i = ParseIpTcpPacket (Some (take (ou_packet_length r) out')) in
    in_error i = In_None \<and> segment_matches (in_segment i) response \<and>
    drop (ou_packet_length r) out' = drop (ou_packet_length r) out"
  proof (cases "IsIpv4 (fl_source (rp_flow response))")
    case True
    with assms o show ?thesis
      using built_v4 [OF assms(4) _ o assms(3) True, of out ipv4_id hop_limit]
      by (auto simp: BuildTcpControlPacket_def Let_def not_less add.assoc split: if_splits)
  next
    case False
    with assms o show ?thesis
      using built_v6 [OF assms(4) _ o assms(3) False, of out hop_limit]
      by (auto simp: BuildTcpControlPacket_def Let_def not_less add.assoc split: if_splits)
  qed
  then show ?thesis using output_options_read_back [of response] by (simp add: Let_def segment_matches_def)
qed

definition sample_response :: TcpResponse where
  "sample_response = TcpResponse_init\<lparr>rp_valid := True, rp_flow := sample_flow, rp_sequence := 7,
     rp_acknowledgment := 9, rp_flags := Flag_Ack, rp_window := 100, rp_payload := Some [1, 2, 3],
     rp_payload_length := 3\<rparr>"

theorem tcp_packet_round_trip_witness:
  "let out' = the (snd (BuildTcpControlPacket sample_response (Some (replicate 50 7)) 1 64));
       i = ParseIpTcpPacket (Some (take 43 out')) in
   in_error i = In_None \<and> sg_sequence (in_segment i) = 7 \<and> sg_payload (in_segment i) = Some [1, 2, 3] \<and>
   drop 43 out' = replicate 7 7"
proof -
  let ?b = "BuildTcpControlPacket sample_response (Some (replicate 50 7)) 1 64"
  have "case ?b of (r, out) \<Rightarrow> r = \<lparr>ou_error = Out_None, ou_packet_length = 43\<rparr> \<and> out \<noteq> None" by code_simp
  then have f: "fst ?b = \<lparr>ou_error = Out_None, ou_packet_length = 43\<rparr>" "snd ?b \<noteq> None" by (simp_all add: case_prod_unfold)
  have g: "flow_ok (rp_flow sample_response)" "payload_ok sample_response"
    "payload_bytes sample_response = [1, 2, 3]" "rp_sequence sample_response = 7"
    by code_simp+
  have "?b = (\<lparr>ou_error = Out_None, ou_packet_length = 43\<rparr>, Some (the (snd ?b)))"
    using f by (metis option.collapse prod.collapse)
  from tcp_packet_round_trip [OF this] f g show ?thesis
    by (simp add: Let_def segment_matches_def)
qed

end
