(* ===== verification/SpscRing.thy ===== *)
theory SpscRing
  imports NetPrelude Machine "HOL-Library.Sublist"
begin

text \<open>
  The inboxes of a shard: the lock-free single-producer single-consumer ring
  (\<open>src/core/inbox_spsc.h\<close>) and the bounded mutex-protected queue for control messages
  (\<open>src/core/inbox_mpsc.h\<close>). Here \<open>std::size_t\<close> is a 64-bit word, because the head and tail
  counters of the ring wrap around. The ring is verified twice: as a sequential object it refines a
  bounded FIFO queue, and for two threads every interleaving of the atomic steps of \<open>Push\<close> and
  \<open>Pop\<close> is covered by a step relation.
\<close>

section \<open>The ring\<close>

text \<open>A moved-from slot is \<open>None\<close>; \<open>sp_slots = None\<close> is the failed allocation.\<close>

record 'a SpscRing =
  sp_mask :: u64
  sp_slots :: "'a option list option"
  sp_head :: u64
  sp_tail :: u64

definition NextPow2Mask :: "u64 \<Rightarrow> u64" where
  "NextPow2Mask capacity =
     (if capacity = 0 then 0
      else
        let c = capacity - 1;
            c = c OR drop_bit 1 c;
            c = c OR drop_bit 2 c;
            c = c OR drop_bit 4 c;
            c = c OR drop_bit 8 c;
            c = c OR drop_bit 16 c;
            c = c OR drop_bit 32 c in
        c)"

definition SpscRing_init :: "bool \<Rightarrow> u64 \<Rightarrow> 'a SpscRing" where
  "SpscRing_init alloc_ok capacity =
     (let mask = NextPow2Mask capacity in
      if alloc_ok then \<lparr>sp_mask = mask, sp_slots = Some (replicate (unat mask + 1) None), sp_head = 0, sp_tail = 0\<rparr>
      else \<lparr>sp_mask = 0, sp_slots = None, sp_head = 0, sp_tail = 0\<rparr>)"

definition Spsc_Push :: "'a \<Rightarrow> 'a SpscRing \<Rightarrow> bool \<times> 'a SpscRing" where
  "Spsc_Push item r =
     (case sp_slots r of
        None \<Rightarrow> (False, r)
      | Some slots \<Rightarrow>
          let head = sp_head r; tail = sp_tail r in
          if head - tail > sp_mask r then (False, r)
          else (True, r\<lparr>sp_slots := Some (slots[unat (head AND sp_mask r) := Some item]), sp_head := head + 1\<rparr>))"

text \<open>\<open>Pop\<close> returns the item that it moves out, or nothing when it returns \<open>false\<close>.\<close>

definition Spsc_Pop :: "'a SpscRing \<Rightarrow> 'a option \<times> 'a SpscRing" where
  "Spsc_Pop r =
     (case sp_slots r of
        None \<Rightarrow> (None, r)
      | Some slots \<Rightarrow>
          let tail = sp_tail r; head = sp_head r in
          if tail = head then (None, r)
          else (slots ! unat (tail AND sp_mask r),
                r\<lparr>sp_slots := Some (slots[unat (tail AND sp_mask r) := None]), sp_tail := tail + 1\<rparr>))"

definition Spsc_Capacity :: "'a SpscRing \<Rightarrow> u64" where
  "Spsc_Capacity r = (if sp_slots r = None then 0 else sp_mask r + 1)"

definition Spsc_Size :: "'a SpscRing \<Rightarrow> u64" where
  "Spsc_Size r = sp_head r - sp_tail r"

definition Spsc_Empty :: "'a SpscRing \<Rightarrow> bool" where
  "Spsc_Empty r \<longleftrightarrow> sp_head r = sp_tail r"

section \<open>Capacities are powers of two\<close>

lemma smear_step:
  fixes x y :: u64
  assumes "\<And>n. bit y n \<longleftrightarrow> (\<exists>j<m. bit x (n + j))"
  shows "bit (y OR drop_bit m y) n \<longleftrightarrow> (\<exists>j<2 * m. bit x (n + j))"
proof -
  have "bit (y OR drop_bit m y) n \<longleftrightarrow> (\<exists>j<m. bit x (n + j)) \<or> (\<exists>j<m. bit x (n + (m + j)))"
    by (auto simp: bit_simps assms ac_simps)
  also have "\<dots> \<longleftrightarrow> (\<exists>j<2 * m. bit x (n + j))"
  proof (intro iffI; elim disjE exE conjE)
    fix j assume "j < 2 * m" "bit x (n + j)"
    then have "j < m \<and> bit x (n + j) \<or> j - m < m \<and> bit x (n + (m + (j - m)))" by auto
    then show "(\<exists>j<m. bit x (n + j)) \<or> (\<exists>j<m. bit x (n + (m + j)))" by blast
  qed (force intro: exI [of _ "m + _"])+
  finally show ?thesis .
qed

lemma bit_smear:
  "capacity \<noteq> 0 \<Longrightarrow> bit (NextPow2Mask capacity) n \<longleftrightarrow> (\<exists>j<64. bit (capacity - 1) (n + j))"
proof -
  assume "capacity \<noteq> 0"
  define x where "x = capacity - 1"
  define c1 where "c1 = x OR drop_bit 1 x"
  define c2 where "c2 = c1 OR drop_bit 2 c1"
  define c3 where "c3 = c2 OR drop_bit 4 c2"
  define c4 where "c4 = c3 OR drop_bit 8 c3"
  define c5 where "c5 = c4 OR drop_bit 16 c4"
  define c6 where "c6 = c5 OR drop_bit 32 c5"
  note s = smear_step [where x = x]
  have 1: "bit c1 n \<longleftrightarrow> (\<exists>j<2. bit x (n + j))" for n
    unfolding c1_def using s [of x 1] by simp
  have 2: "bit c2 n \<longleftrightarrow> (\<exists>j<4. bit x (n + j))" for n unfolding c2_def using s [OF 1] by simp
  have 3: "bit c3 n \<longleftrightarrow> (\<exists>j<8. bit x (n + j))" for n unfolding c3_def using s [OF 2] by simp
  have 4: "bit c4 n \<longleftrightarrow> (\<exists>j<16. bit x (n + j))" for n unfolding c4_def using s [OF 3] by simp
  have 5: "bit c5 n \<longleftrightarrow> (\<exists>j<32. bit x (n + j))" for n unfolding c5_def using s [OF 4] by simp
  have 6: "bit c6 n \<longleftrightarrow> (\<exists>j<64. bit x (n + j))" for n unfolding c6_def using s [OF 5] by simp
  have "NextPow2Mask capacity = c6"
    using \<open>capacity \<noteq> 0\<close>
    by (simp add: NextPow2Mask_def Let_def x_def c1_def c2_def c3_def c4_def c5_def c6_def)
  then show ?thesis using 6 by (simp add: x_def)
qed

lemma NextPow2Mask_mask:
  assumes "capacity \<noteq> 0"
  shows "\<exists>k\<le>64. NextPow2Mask capacity = mask k \<and> capacity - 1 \<le> mask k \<and> (k = 0 \<or> bit (capacity - 1) (k - 1))"
proof (cases "capacity - 1 = 0")
  case True
  then have "NextPow2Mask capacity = 0"
    using bit_smear [OF assms] by (intro bit_word_eqI) simp
  with True show ?thesis by (intro exI [of _ 0]) simp
next
  case False
  let ?x = "capacity - 1"
  define t where "t = Max {n. bit ?x n}"
  have fin: "finite {n. bit ?x n}"
    by (rule finite_subset [of _ "{..<64}"]) (auto dest: bit_imp_le_length)
  have "{n. bit ?x n} \<noteq> {}"
  proof
    assume "{n. bit ?x n} = {}"
    then have "?x = 0" by (intro bit_word_eqI) simp
    with False show False by simp
  qed
  then have t: "bit ?x t" "\<And>n. bit ?x n \<Longrightarrow> n \<le> t"
    using fin Max_in [of "{n. bit ?x n}"] by (auto simp: t_def)
  then have t64: "t < 64" by (auto dest: bit_imp_le_length)
  have "NextPow2Mask capacity = mask (Suc t)"
  proof (rule bit_word_eqI)
    fix n assume n: "n < LENGTH(64)"
    have "(\<exists>j<64. bit ?x (n + j)) \<longleftrightarrow> n \<le> t"
    proof
      assume "n \<le> t"
      then have "t - n < 64" "bit ?x (n + (t - n))" using t t64 by auto
      then show "\<exists>j<64. bit ?x (n + j)" by blast
    qed (use t(2) in force)
    then show "bit (NextPow2Mask capacity) n = bit (mask (Suc t) :: u64) n"
      using bit_smear [OF assms] n by (auto simp: bit_mask_iff)
  qed
  moreover have "?x AND mask (Suc t) = ?x"
    by (rule bit_word_eqI) (auto simp: bit_simps less_Suc_eq_le dest: t(2))
  then have "?x \<le> mask (Suc t)" by (metis word_and_le1)
  ultimately show ?thesis using t64 t(1) by (intro exI [of _ "Suc t"]) simp
qed

section \<open>Indices and counters\<close>

lemma ring_index:
  assumes "k < 64"
  shows "unat ((of_nat n :: u64) AND mask k) = n mod 2 ^ k"
proof -
  have "(of_nat n :: u64) AND mask k = take_bit k (of_nat n)" by (simp add: take_bit_eq_mask)
  then have "unat ((of_nat n :: u64) AND mask k) = take_bit k (take_bit 64 n)"
    by (simp add: unsigned_take_bit_eq unsigned_of_nat)
  also have "\<dots> = take_bit k n" using assms by (simp add: min_def)
  finally show ?thesis by (simp add: take_bit_eq_mod)
qed

lemma unsigned_mask_eq_nat: "k < 64 \<Longrightarrow> unat (mask k :: u64) = 2 ^ k - 1"
proof -
  assume "k < 64"
  then have "(2::nat) ^ k < 2 ^ 64" by (intro power_strict_increasing) auto
  then have "unat (of_nat (2 ^ k - 1) :: u64) = 2 ^ k - 1"
    by (simp only: unsigned_of_nat) (simp add: take_bit_nat_eq_self)
  moreover have "(mask k :: u64) = of_nat (mask k)" by (simp only: of_nat_mask_eq)
  ultimately show ?thesis by (simp only: mask_eq_exp_minus_1 [where 'a = nat])
qed

lemma unat_mask_plus_one: "k < 64 \<Longrightarrow> unat (mask k + 1 :: u64) = 2 ^ k"
proof -
  assume k: "k < 64"
  then have "(2::nat) ^ k < 2 ^ 64" by (intro power_strict_increasing) auto
  moreover have "(mask k + 1 :: u64) = of_nat (2 ^ k)" by (simp add: mask_eq_exp_minus_1)
  ultimately show ?thesis using k by (simp only: unsigned_of_nat) (simp add: take_bit_nat_eq_self)
qed

lemma counter_diff:
  assumes "m \<le> n" "n - m \<le> 2 ^ k" "k < 64"
  shows "unat ((of_nat n :: u64) - of_nat m) = n - m"
    "(of_nat n :: u64) - of_nat m > mask k \<longleftrightarrow> n - m = 2 ^ k"
    "(of_nat m :: u64) = of_nat n \<longleftrightarrow> m = n"
proof -
  have p: "(2::nat) ^ k < 2 ^ 64" using assms(3) by (intro power_strict_increasing) auto
  have "(of_nat n :: u64) - of_nat m = of_nat (n - m)" using assms(1) by (simp add: of_nat_diff)
  then show d: "unat ((of_nat n :: u64) - of_nat m) = n - m"
    using assms(2) p by (simp add: unsigned_of_nat take_bit_nat_eq_self del: of_nat_diff)
  have "unat (mask k :: u64) = 2 ^ k - 1"
    using assms(3) by (simp add: unsigned_mask_eq_nat)
  then show "(of_nat n :: u64) - of_nat m > mask k \<longleftrightarrow> n - m = 2 ^ k"
    using d assms(2) by (auto simp: word_less_nat_alt)
  show "(of_nat m :: u64) = of_nat n \<longleftrightarrow> m = n"
  proof
    assume "(of_nat m :: u64) = of_nat n"
    then have "(of_nat n :: u64) - of_nat m = 0" by simp
    then show "m = n" using d assms(1) by simp
  qed simp
qed

lemma mod_apart: "(i::nat) < j \<Longrightarrow> j < i + 2 ^ k \<Longrightarrow> i mod 2 ^ k \<noteq> j mod 2 ^ k"
proof
  assume "i < j" "j < i + 2 ^ k" "i mod 2 ^ k = j mod 2 ^ k"
  then have "2 ^ k dvd j - i" by (metis less_imp_le mod_eq_dvd_iff_nat)
  with \<open>i < j\<close> \<open>j < i + 2 ^ k\<close> show False by (auto dest: dvd_imp_le)
qed

text \<open>A ring after the items \<open>P\<close> were pushed and the first \<open>T\<close> of them popped.\<close>

definition ring_rep :: "nat \<Rightarrow> 'a list \<Rightarrow> nat \<Rightarrow> 'a SpscRing \<Rightarrow> bool" where
  "ring_rep k P T r \<longleftrightarrow>
     k < 64 \<and> sp_mask r = mask k \<and> sp_head r = of_nat (length P) \<and> sp_tail r = of_nat T \<and>
     T \<le> length P \<and> length P \<le> T + 2 ^ k \<and>
     (\<exists>slots. sp_slots r = Some slots \<and> length slots = 2 ^ k \<and>
        (\<forall>i. T \<le> i \<and> i < length P \<longrightarrow> slots ! (i mod 2 ^ k) = Some (P ! i)))"

lemma Spsc_Push_rep:
  assumes "ring_rep k P T r"
  shows "if length P - T < 2 ^ k then fst (Spsc_Push x r) \<and> ring_rep k (P @ [x]) T (snd (Spsc_Push x r))
    else Spsc_Push x r = (False, r)"
proof -
  obtain slots where r: "k < 64" "sp_mask r = mask k" "sp_head r = of_nat (length P)" "sp_tail r = of_nat T"
    "T \<le> length P" "length P \<le> T + 2 ^ k" "sp_slots r = Some slots" "length slots = 2 ^ k"
    "\<And>i. T \<le> i \<Longrightarrow> i < length P \<Longrightarrow> slots ! (i mod 2 ^ k) = Some (P ! i)"
    using assms by (auto simp: ring_rep_def)
  have full: "sp_head r - sp_tail r > sp_mask r \<longleftrightarrow> length P - T = 2 ^ k"
    unfolding r(2,3,4) using r by (intro counter_diff) auto
  have keep: "slots[length P mod 2 ^ k := Some x] ! (i mod 2 ^ k) = Some ((P @ [x]) ! i)"
    if i: "T \<le> i" "i < Suc (length P)" "length P - T < 2 ^ k" for i
  proof (cases "i = length P")
    case False
    then have "i < length P" "length P < i + 2 ^ k" using i by auto
    then show ?thesis using mod_apart [of i "length P" k] r(9) [OF i(1)] by (simp add: nth_append)
  qed (simp add: r(8))
  show ?thesis
    using r full keep by (auto simp: Spsc_Push_def ring_rep_def Let_def ring_index)
qed

lemma Spsc_Pop_rep:
  assumes "ring_rep k P T r"
  shows "if T < length P then fst (Spsc_Pop r) = Some (P ! T) \<and> ring_rep k P (Suc T) (snd (Spsc_Pop r))
    else Spsc_Pop r = (None, r)"
proof -
  obtain slots where r: "k < 64" "sp_mask r = mask k" "sp_head r = of_nat (length P)" "sp_tail r = of_nat T"
    "T \<le> length P" "length P \<le> T + 2 ^ k" "sp_slots r = Some slots" "length slots = 2 ^ k"
    "\<And>i. T \<le> i \<Longrightarrow> i < length P \<Longrightarrow> slots ! (i mod 2 ^ k) = Some (P ! i)"
    using assms by (auto simp: ring_rep_def)
  have empty: "sp_tail r = sp_head r \<longleftrightarrow> T = length P"
    unfolding r(3,4) using r by (intro counter_diff) auto
  have keep: "slots[T mod 2 ^ k := None] ! (i mod 2 ^ k) = Some (P ! i)" if "Suc T \<le> i" "i < length P" for i
    using that r(6) r(9) [of i] mod_apart [of T i k] by simp
  show ?thesis
    using r empty keep by (auto simp: Spsc_Pop_def ring_rep_def Let_def ring_index)
qed

section \<open>The ring as a bounded queue\<close>

datatype 'a queue_op = PushOp 'a | PopOp
datatype 'a queue_out = Pushed bool | Popped "'a option"

fun spsc_exec :: "'a queue_op \<Rightarrow> 'a SpscRing \<times> 'a queue_out list \<Rightarrow> 'a SpscRing \<times> 'a queue_out list" where
  "spsc_exec (PushOp x) (r, outs) = (let (ok, r) = Spsc_Push x r in (r, outs @ [Pushed ok]))"
| "spsc_exec PopOp (r, outs) = (let (x, r) = Spsc_Pop r in (r, outs @ [Popped x]))"

text \<open>The specification: a list with a bound.\<close>

fun queue_exec :: "nat \<Rightarrow> 'a queue_op \<Rightarrow> 'a list \<times> 'a queue_out list \<Rightarrow> 'a list \<times> 'a queue_out list" where
  "queue_exec cap (PushOp x) (q, outs) =
     (if length q < cap then (q @ [x], outs @ [Pushed True]) else (q, outs @ [Pushed False]))"
| "queue_exec cap PopOp (q, outs) =
     (case q of [] \<Rightarrow> ([], outs @ [Popped None]) | x # q \<Rightarrow> (q, outs @ [Popped (Some x)]))"

definition queue_of :: "'a SpscRing \<Rightarrow> 'a list" where
  "queue_of r =
     map (\<lambda>i. the (the (sp_slots r) ! unat ((sp_tail r + of_nat i) AND sp_mask r))) [0..<unat (sp_head r - sp_tail r)]"

lemma queue_of_rep: "ring_rep k P T r \<Longrightarrow> queue_of r = drop T P"
proof (rule nth_equalityI)
  assume rep: "ring_rep k P T r"
  then have size: "unat (sp_head r - sp_tail r) = length P - T"
    using counter_diff(1) [of T "length P" k] by (auto simp: ring_rep_def)
  then show "length (queue_of r) = length (drop T P)" by (simp add: queue_of_def)
  fix i assume "i < length (queue_of r)"
  with size have i: "i < length P - T" by (simp add: queue_of_def)
  have "(of_nat T :: u64) + of_nat i = of_nat (T + i)" by simp
  then have "unat ((sp_tail r + of_nat i) AND sp_mask r) = (T + i) mod 2 ^ k"
    using rep ring_index [of k "T + i"] unfolding ring_rep_def by metis
  with rep i size show "queue_of r ! i = drop T P ! i"
    by (auto simp: queue_of_def ring_rep_def)
qed

definition spsc_abs :: "'a SpscRing \<times> 'a queue_out list \<Rightarrow> 'a list \<times> 'a queue_out list" where
  "spsc_abs s = (queue_of (fst s), snd s)"

interpretation spsc: simulation spsc_exec "\<lambda>s. \<exists>P T. ring_rep k P T (fst s)" "queue_exec (2 ^ k)" spsc_abs
proof
  fix s :: "'a SpscRing \<times> 'a queue_out list" and op
  assume "\<exists>P T. ring_rep k P T (fst s)"
  then obtain r outs P T where s: "s = (r, outs)" and rep: "ring_rep k P T r" by (cases s) auto
  have T: "T \<le> length P" using rep by (simp add: ring_rep_def)
  show "\<exists>P T. ring_rep k P T (fst (spsc_exec op s))"
    using Spsc_Push_rep [OF rep] Spsc_Pop_rep [OF rep] rep s
    by (cases op) (force simp: Let_def split_beta split: if_splits)+
  show "spsc_abs (spsc_exec op s) = queue_exec (2 ^ k) op (spsc_abs s)"
  proof (cases op)
    case (PushOp x)
    with Spsc_Push_rep [OF rep, of x] T s show ?thesis
      by (auto simp: spsc_abs_def Let_def split_beta queue_of_rep [OF rep] dest!: queue_of_rep split: if_splits)
  next
    case PopOp
    with Spsc_Pop_rep [OF rep] T s show ?thesis
      by (auto simp: spsc_abs_def Let_def split_beta queue_of_rep [OF rep] Cons_nth_drop_Suc [symmetric]
          dest!: queue_of_rep split: if_splits list.splits)
  qed
qed

lemma capacity_power:
  assumes "capacity \<noteq> 0" "unat capacity \<le> 2 ^ 63"
  shows "\<exists>k<64. NextPow2Mask capacity = mask k \<and> unat capacity \<le> 2 ^ k"
proof -
  obtain k where k: "k \<le> 64" "NextPow2Mask capacity = mask k" "capacity - 1 \<le> mask k"
    "k = 0 \<or> bit (capacity - 1) (k - 1)"
    using NextPow2Mask_mask [OF assms(1)] by blast
  have one: "unat (capacity - 1) = unat capacity - 1" using assms(1) by (rule unat_minus_one)
  have pos: "0 < unat capacity" using assms(1) by (simp add: unat_gt_0)
  have "\<not> bit (unat (capacity - 1)) 63"
  proof
    assume b: "bit (unat (capacity - 1)) 63"
    have "unat (capacity - 1) < 2 ^ 63" using one assms(2) pos by linarith
    then have "take_bit 63 (unat (capacity - 1)) = unat (capacity - 1)" by (rule take_bit_nat_eq_self)
    with b show False by (metis bit_take_bit_iff less_irrefl)
  qed
  then have "\<not> bit (capacity - 1) 63" by (simp add: bit_unsigned_iff)
  with k(1,4) have k64: "k < 64" by (cases "k = 64") auto
  have "unat (capacity - 1) \<le> 2 ^ k - 1"
    using k(3) unsigned_mask_eq_nat [OF k64] by (simp add: word_le_nat_alt)
  then have "unat capacity \<le> 2 ^ k" using one pos by (simp add: le_diff_conv2)
  with k(2) k64 show ?thesis by blast
qed

lemma SpscRing_init_rep:
  "NextPow2Mask capacity = mask k \<Longrightarrow> k < 64 \<Longrightarrow> ring_rep k [] 0 (SpscRing_init True capacity)"
  by (simp add: ring_rep_def SpscRing_init_def Let_def unsigned_mask_eq_nat)

lemma spsc_run:
  fixes ops :: "'a queue_op list"
  assumes "NextPow2Mask capacity = mask k" "k < 64"
  shows "snd (run spsc_exec ops (SpscRing_init True capacity, [])) = snd (run (queue_exec (2 ^ k)) ops ([], []))"
proof -
  have rep: "ring_rep k [] 0 (SpscRing_init True capacity :: 'a SpscRing)"
    using assms by (intro SpscRing_init_rep)
  then have "\<exists>P T. ring_rep k P T (fst (SpscRing_init True capacity :: 'a SpscRing, []))" by auto
  from spsc.run_abs [OF this, of ops]
  have "snd (spsc_abs (run spsc_exec ops (SpscRing_init True capacity, []))) =
    snd (run (queue_exec (2 ^ k)) ops (spsc_abs (SpscRing_init True capacity, [])))" by simp
  then show ?thesis using queue_of_rep [OF rep] by (simp add: spsc_abs_def)
qed

text \<open>
  C15: Used by one thread at a time, the lock-free ring is a bounded FIFO queue: for every sequence of
  pushes and pops it gives the same answers as a list of at most \<open>2^k\<close> elements, where \<open>2^k\<close> is at
  least the requested capacity, however often the 64-bit counters wrap around.\<close>

theorem spsc_refines_queue:
  assumes "capacity \<noteq> 0" "unat capacity \<le> 2 ^ 63"
  shows "\<exists>k<64. unat capacity \<le> 2 ^ k \<and>
    snd (run spsc_exec ops (SpscRing_init True capacity, [])) = snd (run (queue_exec (2 ^ k)) ops ([], []))"
proof -
  obtain k where k: "k < 64" "NextPow2Mask capacity = mask k" "unat capacity \<le> 2 ^ k"
    using capacity_power [OF assms] by blast
  then show ?thesis using spsc_run by blast
qed

theorem spsc_refines_queue_witness:
  "\<exists>k<64. unat (3::u64) \<le> 2 ^ k \<and>
    snd (run spsc_exec [PushOp (7::nat), PopOp, PopOp] (SpscRing_init True 3, [])) =
    snd (run (queue_exec (2 ^ k)) [PushOp 7, PopOp, PopOp] ([], []))"
  using spsc_refines_queue [where capacity = 3 and ops = "[PushOp (7::nat), PopOp, PopOp]"] by simp

section \<open>The control inbox\<close>

text \<open>
  Every method holds the mutex from its first to its last access, so each is one atomic operation.
  \<open>Wait\<close> gives the mutex up while it sleeps: \<open>others\<close> is what the other threads do to the inbox in
  the meantime.
\<close>

datatype ShardMessageType =
  kPacketIn | kSessionData | kSessionWritable | kControl | kSessionClosed | kFlowClose | kFlowAbort |
  kUdpSessionData | kUdpSessionClosed | kStop

datatype SessionError = SE_None | SE_RemoteClosed | SE_Reset | SE_Timeout | SE_WouldBlock | SE_Internal

record 'lease ShardMessage =
  sm_type :: ShardMessageType
  sm_flow_id :: u64
  sm_generation :: u64
  sm_data :: "'lease option"
  sm_error :: SessionError

record 'lease InboxMpsc =
  mq_capacity :: nat
  mq_queue :: "'lease ShardMessage list"

definition InboxMpsc_init :: "nat \<Rightarrow> 'lease InboxMpsc" where
  "InboxMpsc_init capacity = \<lparr>mq_capacity = capacity, mq_queue = []\<rparr>"

definition Mpsc_Push :: "'lease ShardMessage \<Rightarrow> 'lease InboxMpsc \<Rightarrow> bool \<times> 'lease InboxMpsc" where
  "Mpsc_Push msg m =
     (if length (mq_queue m) \<ge> mq_capacity m then (False, m)
      else (True, m\<lparr>mq_queue := mq_queue m @ [msg]\<rparr>))"

definition Mpsc_Pop :: "'lease InboxMpsc \<Rightarrow> 'lease ShardMessage option \<times> 'lease InboxMpsc" where
  "Mpsc_Pop m = (case mq_queue m of [] \<Rightarrow> (None, m) | msg # rest \<Rightarrow> (Some msg, m\<lparr>mq_queue := rest\<rparr>))"

definition Mpsc_Wait :: "u64 \<Rightarrow> ('lease InboxMpsc \<Rightarrow> 'lease InboxMpsc) \<Rightarrow> 'lease InboxMpsc \<Rightarrow> bool \<times> 'lease InboxMpsc" where
  "Mpsc_Wait timeout_ms others m =
     (if timeout_ms = 0 then (mq_queue m \<noteq> [], m)
      else if mq_queue m \<noteq> [] then (True, m)
      else (let m = others m in (mq_queue m \<noteq> [], m)))"

definition Mpsc_Size :: "'lease InboxMpsc \<Rightarrow> nat" where
  "Mpsc_Size m = length (mq_queue m)"

definition Mpsc_Capacity :: "'lease InboxMpsc \<Rightarrow> nat" where
  "Mpsc_Capacity m = mq_capacity m"

fun Mpsc_count_loop :: "ShardMessageType \<Rightarrow> 'lease ShardMessage list \<Rightarrow> nat \<Rightarrow> nat" where
  "Mpsc_count_loop type [] count = count"
| "Mpsc_count_loop type (msg # msgs) count =
     Mpsc_count_loop type msgs (if sm_type msg = type then count + 1 else count)"

definition Mpsc_Count :: "ShardMessageType \<Rightarrow> 'lease InboxMpsc \<Rightarrow> nat" where
  "Mpsc_Count type m = Mpsc_count_loop type (mq_queue m) 0"

fun mpsc_exec :: "'lease ShardMessage queue_op \<Rightarrow> 'lease InboxMpsc \<times> 'lease ShardMessage queue_out list \<Rightarrow>
    'lease InboxMpsc \<times> 'lease ShardMessage queue_out list" where
  "mpsc_exec (PushOp x) (m, outs) = (let (ok, m) = Mpsc_Push x m in (m, outs @ [Pushed ok]))"
| "mpsc_exec PopOp (m, outs) = (let (x, m) = Mpsc_Pop m in (m, outs @ [Popped x]))"

definition mpsc_abs :: "'lease InboxMpsc \<times> 'b \<Rightarrow> 'lease ShardMessage list \<times> 'b" where
  "mpsc_abs s = (mq_queue (fst s), snd s)"

interpretation mpsc: simulation mpsc_exec "\<lambda>s. mq_capacity (fst s) = cap" "queue_exec cap" mpsc_abs
proof
  fix s :: "'lease InboxMpsc \<times> 'lease ShardMessage queue_out list" and op
  assume "mq_capacity (fst s) = cap"
  then show "mq_capacity (fst (mpsc_exec op s)) = cap"
    by (cases s; cases op) (auto simp: Mpsc_Push_def Mpsc_Pop_def Let_def split: list.splits)
next
  fix s :: "'lease InboxMpsc \<times> 'lease ShardMessage queue_out list" and op
  assume "mq_capacity (fst s) = cap"
  then show "mpsc_abs (mpsc_exec op s) = queue_exec cap op (mpsc_abs s)"
    by (cases s; cases op) (auto simp: mpsc_abs_def Mpsc_Push_def Mpsc_Pop_def Let_def split: list.splits)
qed

lemma mpsc_run: "snd (run mpsc_exec ops (InboxMpsc_init cap, [])) = snd (run (queue_exec cap) ops ([], []))"
  using mpsc.run_abs [where s = "(InboxMpsc_init cap, [])" and ops = ops and cap = cap]
  by (simp add: mpsc_abs_def InboxMpsc_init_def) (metis snd_conv)

lemma Mpsc_Count_filter: "Mpsc_Count type m = length (filter (\<lambda>msg. sm_type msg = type) (mq_queue m))"
proof -
  have "Mpsc_count_loop type msgs n = n + length (filter (\<lambda>msg. sm_type msg = type) msgs)"
    for msgs :: "'a ShardMessage list" and n
    by (induction msgs arbitrary: n) auto
  then show ?thesis by (simp add: Mpsc_Count_def)
qed

text \<open>The two inboxes of a shard honour one contract.\<close>

lemma inboxes_agree:
  assumes "k < 64"
  shows "snd (run spsc_exec ops (SpscRing_init True (2 ^ k), [])) = snd (run mpsc_exec ops (InboxMpsc_init (2 ^ k), []))"
proof -
  have size: "unat (2 ^ k :: u64) = 2 ^ k" using unat_mask_plus_one [OF assms] by (simp add: mask_eq_exp_minus_1)
  have "(2::nat) ^ k \<le> 2 ^ 63" using assms by (intro power_increasing) auto
  then have ne: "(2 ^ k :: u64) \<noteq> 0" "unat (2 ^ k :: u64) \<le> 2 ^ 63" using size by (auto simp: unat_eq_zero [symmetric])
  obtain j where j: "j \<le> 64" "NextPow2Mask (2 ^ k) = mask j" "2 ^ k - 1 \<le> (mask j :: u64)"
    "j = 0 \<or> bit (2 ^ k - 1 :: u64) (j - 1)"
    using NextPow2Mask_mask [OF ne(1)] by blast
  have "k \<le> j"
  proof (rule ccontr)
    assume "\<not> k \<le> j"
    then have "(2::nat) ^ j < 2 ^ k" by (intro power_strict_increasing) auto
    then have "unat (mask j :: u64) < unat (mask k :: u64)"
      using \<open>\<not> k \<le> j\<close> assms by (simp add: unsigned_mask_eq_nat diff_less_mono)
    with j(3) show False by (simp add: mask_eq_exp_minus_1 word_le_nat_alt)
  qed
  moreover have "j \<le> k" using j(4) by (cases j) (auto simp: bit_mask_iff mask_eq_exp_minus_1 [symmetric])
  ultimately have "NextPow2Mask (2 ^ k) = mask k" using j(2) by simp
  from spsc_run [OF this assms] show ?thesis by (simp add: mpsc_run)
qed

section \<open>Two threads\<close>

text \<open>
  The producer and the consumer, cut at every access to shared memory. The slot write of \<open>Push\<close> is
  ordered before the release store of \<open>head_\<close>, and the acquire load of \<open>head_\<close> in \<open>Pop\<close> before its
  read of the slot (likewise for \<open>tail_\<close>), so that the accesses of the two threads interleave in one
  order. \<open>sy_pushed\<close> and \<open>sy_popped\<close> record the completed operations.
\<close>

datatype 'a producer = PIdle | PHead 'a u64 | PTail 'a u64 u64 | PWritten 'a u64
datatype 'a consumer = CIdle | CTail u64 | CHead u64 u64 | CMoved "'a option" u64

record 'a spsc_sys =
  sy_ring :: "'a SpscRing"
  sy_prod :: "'a producer"
  sy_cons :: "'a consumer"
  sy_pushed :: "'a list"
  sy_popped :: "'a option list"

inductive spsc_step :: "'a spsc_sys \<Rightarrow> 'a spsc_sys \<Rightarrow> bool" where
  push_load_head: "sy_prod s = PIdle \<Longrightarrow> sp_slots (sy_ring s) \<noteq> None \<Longrightarrow>
    spsc_step s (s\<lparr>sy_prod := PHead item (sp_head (sy_ring s))\<rparr>)"
| push_load_tail: "sy_prod s = PHead item head \<Longrightarrow>
    spsc_step s (s\<lparr>sy_prod := PTail item head (sp_tail (sy_ring s))\<rparr>)"
| push_full: "sy_prod s = PTail item head tail \<Longrightarrow> head - tail > sp_mask (sy_ring s) \<Longrightarrow>
    spsc_step s (s\<lparr>sy_prod := PIdle\<rparr>)"
| push_write: "sy_prod s = PTail item head tail \<Longrightarrow> \<not> head - tail > sp_mask (sy_ring s) \<Longrightarrow>
    sp_slots (sy_ring s) = Some slots \<Longrightarrow>
    spsc_step s (s\<lparr>sy_prod := PWritten item head,
      sy_ring := (sy_ring s)\<lparr>sp_slots := Some (slots[unat (head AND sp_mask (sy_ring s)) := Some item])\<rparr>\<rparr>)"
| push_publish: "sy_prod s = PWritten item head \<Longrightarrow>
    spsc_step s (s\<lparr>sy_prod := PIdle, sy_ring := (sy_ring s)\<lparr>sp_head := head + 1\<rparr>,
      sy_pushed := sy_pushed s @ [item]\<rparr>)"
| pop_load_tail: "sy_cons s = CIdle \<Longrightarrow> sp_slots (sy_ring s) \<noteq> None \<Longrightarrow>
    spsc_step s (s\<lparr>sy_cons := CTail (sp_tail (sy_ring s))\<rparr>)"
| pop_load_head: "sy_cons s = CTail tail \<Longrightarrow>
    spsc_step s (s\<lparr>sy_cons := CHead tail (sp_head (sy_ring s))\<rparr>)"
| pop_empty: "sy_cons s = CHead tail head \<Longrightarrow> tail = head \<Longrightarrow> spsc_step s (s\<lparr>sy_cons := CIdle\<rparr>)"
| pop_move: "sy_cons s = CHead tail head \<Longrightarrow> tail \<noteq> head \<Longrightarrow> sp_slots (sy_ring s) = Some slots \<Longrightarrow>
    spsc_step s (s\<lparr>sy_cons := CMoved (slots ! unat (tail AND sp_mask (sy_ring s))) tail,
      sy_ring := (sy_ring s)\<lparr>sp_slots := Some (slots[unat (tail AND sp_mask (sy_ring s)) := None])\<rparr>\<rparr>)"
| pop_publish: "sy_cons s = CMoved out tail \<Longrightarrow>
    spsc_step s (s\<lparr>sy_cons := CIdle, sy_ring := (sy_ring s)\<lparr>sp_tail := tail + 1\<rparr>,
      sy_popped := sy_popped s @ [out]\<rparr>)"

definition spsc_start :: "u64 \<Rightarrow> 'a spsc_sys" where
  "spsc_start capacity = \<lparr>sy_ring = SpscRing_init True capacity, sy_prod = PIdle, sy_cons = CIdle,
     sy_pushed = [], sy_popped = []\<rparr>"

text \<open>The number of items that have left their slot.\<close>

definition moved :: "'a spsc_sys \<Rightarrow> nat" where
  "moved s = (case sy_cons s of CMoved _ _ \<Rightarrow> Suc (length (sy_popped s)) | _ \<Rightarrow> length (sy_popped s))"

definition prod_ok :: "nat \<Rightarrow> 'a option list \<Rightarrow> nat \<Rightarrow> nat \<Rightarrow> 'a producer \<Rightarrow> bool" where
  "prod_ok k slots H T p =
     (case p of
        PIdle \<Rightarrow> True
      | PHead item head \<Rightarrow> head = of_nat H
      | PTail item head tail \<Rightarrow> head = of_nat H \<and> (\<exists>t. tail = of_nat t \<and> t \<le> T \<and> t \<le> H \<and> H \<le> t + 2 ^ k)
      | PWritten item head \<Rightarrow> head = of_nat H \<and> H < T + 2 ^ k \<and> slots ! (H mod 2 ^ k) = Some item)"

definition cons_ok :: "'a list \<Rightarrow> nat \<Rightarrow> 'a consumer \<Rightarrow> bool" where
  "cons_ok P T c =
     (case c of
        CIdle \<Rightarrow> True
      | CTail tail \<Rightarrow> tail = of_nat T
      | CHead tail head \<Rightarrow> tail = of_nat T \<and> (\<exists>h. head = of_nat h \<and> T \<le> h \<and> h \<le> length P)
      | CMoved out tail \<Rightarrow> tail = of_nat T \<and> T < length P \<and> out = Some (P ! T))"

text \<open>
  \<open>H\<close> items published, \<open>T\<close> of them popped, the first \<open>c\<close> of them gone from the slots.
\<close>

definition slots_ok :: "nat \<Rightarrow> 'a list \<Rightarrow> nat \<Rightarrow> 'a option list \<Rightarrow> bool" where
  "slots_ok k P c slots \<longleftrightarrow>
     length slots = 2 ^ k \<and> (\<forall>i. c \<le> i \<and> i < length P \<longrightarrow> slots ! (i mod 2 ^ k) = Some (P ! i))"

definition sys_inv :: "nat \<Rightarrow> 'a spsc_sys \<Rightarrow> bool" where
  "sys_inv k s \<longleftrightarrow>
     (let P = sy_pushed s; H = length P; T = length (sy_popped s); r = sy_ring s in
      k < 64 \<and> sp_mask r = mask k \<and> sp_head r = of_nat H \<and> sp_tail r = of_nat T \<and> T \<le> H \<and> H \<le> T + 2 ^ k \<and>
      sy_popped s = map Some (take T P) \<and> cons_ok P T (sy_cons s) \<and>
      (\<exists>slots. sp_slots r = Some slots \<and> prod_ok k slots H T (sy_prod s) \<and> slots_ok k P (moved s) slots))"

lemma sys_inv_start:
  "NextPow2Mask capacity = mask k \<Longrightarrow> k < 64 \<Longrightarrow> sys_inv k (spsc_start capacity)"
  by (simp add: sys_inv_def spsc_start_def SpscRing_init_def Let_def unsigned_mask_eq_nat cons_ok_def prod_ok_def
      slots_ok_def moved_def)

lemma slots_ok_write:
  assumes "slots_ok k P c slots" "length P < c + 2 ^ k"
  shows "slots_ok k P c (slots[length P mod 2 ^ k := v])"
  unfolding slots_ok_def
proof (intro conjI allI impI)
  fix i assume i: "c \<le> i \<and> i < length P"
  then have "i mod 2 ^ k \<noteq> length P mod 2 ^ k" using assms(2) by (intro mod_apart) auto
  with i assms(1) show "slots[length P mod 2 ^ k := v] ! (i mod 2 ^ k) = Some (P ! i)"
    by (simp add: slots_ok_def)
qed (use assms in \<open>simp add: slots_ok_def\<close>)

lemma slots_ok_publish:
  "slots_ok k P c slots \<Longrightarrow> slots ! (length P mod 2 ^ k) = Some x \<Longrightarrow> slots_ok k (P @ [x]) c slots"
  by (auto simp: slots_ok_def nth_append less_Suc_eq)

lemma slots_ok_move:
  assumes "slots_ok k P c slots" "length P \<le> c + 2 ^ k"
  shows "slots_ok k P (Suc c) (slots[c mod 2 ^ k := None])"
  unfolding slots_ok_def
proof (intro conjI allI impI)
  fix i assume i: "Suc c \<le> i \<and> i < length P"
  then have "c mod 2 ^ k \<noteq> i mod 2 ^ k" using assms(2) by (intro mod_apart) auto
  with i assms(1) show "slots[c mod 2 ^ k := None] ! (i mod 2 ^ k) = Some (P ! i)"
    by (simp add: slots_ok_def)
qed (use assms in \<open>simp add: slots_ok_def\<close>)

text \<open>Both threads past their checks: the producer has room and the consumer an item.\<close>

lemma push_room:
  assumes "sys_inv k s" "sy_prod s = PTail item head tail" "\<not> head - tail > sp_mask (sy_ring s)"
  shows "length (sy_pushed s) < length (sy_popped s) + 2 ^ k"
    "unat (head AND sp_mask (sy_ring s)) = length (sy_pushed s) mod 2 ^ k"
proof -
  let ?H = "length (sy_pushed s)" and ?T = "length (sy_popped s)"
  obtain t where t: "head = of_nat ?H" "tail = of_nat t" "t \<le> ?T" "t \<le> ?H" "?H \<le> t + 2 ^ k"
    and k: "k < 64" "sp_mask (sy_ring s) = mask k"
    using assms(1,2) by (auto simp: sys_inv_def Let_def prod_ok_def)
  have "?H - t \<noteq> 2 ^ k"
    using counter_diff(2) [of t ?H k] t k assms(3) by auto
  with t show "?H < ?T + 2 ^ k" by linarith
  show "unat (head AND sp_mask (sy_ring s)) = ?H mod 2 ^ k" using t k by (simp add: ring_index)
qed

lemma pop_item:
  assumes "sys_inv k s" "sy_cons s = CHead tail head" "tail \<noteq> head"
  shows "length (sy_popped s) < length (sy_pushed s)" "tail = of_nat (length (sy_popped s))"
    "unat (tail AND sp_mask (sy_ring s)) = length (sy_popped s) mod 2 ^ k"
proof -
  obtain h where h: "tail = of_nat (length (sy_popped s))" "head = of_nat h" "length (sy_popped s) \<le> h"
    "h \<le> length (sy_pushed s)" and k: "k < 64" "sp_mask (sy_ring s) = mask k"
    using assms(1,2) by (auto simp: sys_inv_def Let_def cons_ok_def)
  show "length (sy_popped s) < length (sy_pushed s)" using h assms(3) by (cases "length (sy_popped s) = h") auto
  show "tail = of_nat (length (sy_popped s))" by (rule h(1))
  show "unat (tail AND sp_mask (sy_ring s)) = length (sy_popped s) mod 2 ^ k" using h k by (simp add: ring_index)
qed

lemma moved_simps [simp]:
  "moved (s\<lparr>sy_prod := p\<rparr>) = moved s" "moved (s\<lparr>sy_ring := r\<rparr>) = moved s"
  "moved (s\<lparr>sy_pushed := P\<rparr>) = moved s"
  by (simp_all add: moved_def split: consumer.split)

lemma moved_cons:
  "moved (s\<lparr>sy_cons := c\<rparr>) = (case c of CMoved _ _ \<Rightarrow> Suc (length (sy_popped s)) | _ \<Rightarrow> length (sy_popped s))"
  "sy_cons s = CIdle \<Longrightarrow> moved s = length (sy_popped s)" "sy_cons s = CTail t \<Longrightarrow> moved s = length (sy_popped s)"
  "sy_cons s = CHead t h \<Longrightarrow> moved s = length (sy_popped s)"
  by (simp_all add: moved_def split: consumer.split)

lemma sys_inv_slots:
  "sys_inv k s \<Longrightarrow> sp_slots (sy_ring s) = Some slots \<Longrightarrow>
    slots_ok k (sy_pushed s) (moved s) slots \<and> length slots = 2 ^ k"
  by (auto simp: sys_inv_def Let_def slots_ok_def)

lemma prod_ok_advance: "prod_ok k slots H T p \<Longrightarrow> prod_ok k slots H (Suc T) p"
  by (auto simp: prod_ok_def le_SucI split: producer.splits)

lemma sys_inv_step: "spsc_step s s' \<Longrightarrow> sys_inv k s \<Longrightarrow> sys_inv k s'"
proof (induction rule: spsc_step.induct)
  case (push_write s item head tail slots)
  note room = push_room [OF push_write(4,1,2)] and slots = sys_inv_slots [OF push_write(4,3)]
  have "length (sy_pushed s) < moved s + 2 ^ k"
    using room(1) by (auto simp: moved_def split: consumer.splits)
  with slots have "slots_ok k (sy_pushed s) (moved s) (slots[length (sy_pushed s) mod 2 ^ k := Some item])"
    by (intro slots_ok_write) auto
  with push_write room slots show ?case by (auto simp: sys_inv_def Let_def prod_ok_def)
next
  case (push_publish s item head)
  then show ?case
    by (auto simp: sys_inv_def Let_def prod_ok_def cons_ok_def nth_append intro: slots_ok_publish
        split: consumer.splits)
next
  case (pop_move s tail head slots)
  note item = pop_item [OF pop_move(4,1,2)] and slots = sys_inv_slots [OF pop_move(4,3)]
  have moved: "moved s = length (sy_popped s)" using pop_move(1) by (simp add: moved_def)
  let ?slots = "slots[length (sy_popped s) mod 2 ^ k := None]"
  have "slots_ok k (sy_pushed s) (Suc (length (sy_popped s))) ?slots"
    using slots moved pop_move(4) by (intro slots_ok_move) (auto simp: sys_inv_def Let_def)
  moreover have "prod_ok k ?slots (length (sy_pushed s)) (length (sy_popped s)) (sy_prod s)"
    using pop_move item mod_apart [OF item(1)]
    by (auto simp: sys_inv_def Let_def prod_ok_def split: producer.splits)
  moreover have "slots ! (length (sy_popped s) mod 2 ^ k) = Some (sy_pushed s ! length (sy_popped s))"
    using slots item(1) moved by (auto simp: slots_ok_def)
  ultimately show ?case
    using pop_move item by (auto simp: sys_inv_def Let_def cons_ok_def moved_def)
next
  case (pop_publish s out tail)
  then show ?case
    by (auto simp: sys_inv_def Let_def cons_ok_def moved_def take_Suc_conv_app_nth intro: prod_ok_advance)
qed (auto simp: sys_inv_def Let_def prod_ok_def cons_ok_def moved_cons)

interpretation two_threads: reachable spsc_step "sys_inv k"
  by unfold_locales (rule sys_inv_step)

text \<open>A schedule: one item is pushed, popped, and both threads then stand before a slot.\<close>

abbreviation sample_ring :: "nat option list \<Rightarrow> u64 \<Rightarrow> u64 \<Rightarrow> nat SpscRing" where
  "sample_ring slots head tail \<equiv> \<lparr>sp_mask = 1, sp_slots = Some slots, sp_head = head, sp_tail = tail\<rparr>"

lemma sample_start:
  "spsc_start 2 = \<lparr>sy_ring = sample_ring [None, None] 0 0, sy_prod = PIdle, sy_cons = CIdle, sy_pushed = [], sy_popped = []\<rparr>"
  by (simp add: spsc_start_def SpscRing_init_def NextPow2Mask_def numeral_2_eq_2 Let_def)

lemma sample_push:
  "spsc_step\<^sup>*\<^sup>* (spsc_start 2)
    \<lparr>sy_ring = sample_ring [Some 7, None] 1 0, sy_prod = PIdle, sy_cons = CIdle, sy_pushed = [7], sy_popped = []\<rparr>"
  unfolding sample_start
  apply (rule converse_rtranclp_into_rtranclp, rule push_load_head [where item = 7], simp, simp)
  apply (rule converse_rtranclp_into_rtranclp, rule push_load_tail, simp)
  apply (rule converse_rtranclp_into_rtranclp, rule push_write, simp, simp, simp)
  apply (rule converse_rtranclp_into_rtranclp, rule push_publish, simp)
  apply (simp add: numeral_2_eq_2)
  done

lemma sample_pop:
  "spsc_step\<^sup>*\<^sup>* (spsc_start 2)
    \<lparr>sy_ring = sample_ring [None, None] 1 1, sy_prod = PIdle, sy_cons = CIdle, sy_pushed = [7], sy_popped = [Some 7]\<rparr>"
  apply (rule rtranclp_trans [OF sample_push])
  apply (rule converse_rtranclp_into_rtranclp, rule pop_load_tail, simp, simp)
  apply (rule converse_rtranclp_into_rtranclp, rule pop_load_head, simp)
  apply (rule converse_rtranclp_into_rtranclp, rule pop_move, simp, simp, simp)
  apply (rule converse_rtranclp_into_rtranclp, rule pop_publish, simp)
  apply simp
  done

text \<open>
  C5: With one producer and one consumer running concurrently, under every interleaving of their
  shared-memory accesses, the sequence of items popped is a prefix of the sequence of items pushed:
  nothing is lost, duplicated, reordered or read half-written, and the ring never holds more than its
  capacity.\<close>

theorem spsc_concurrent_fifo:
  assumes "capacity \<noteq> 0" "unat capacity \<le> 2 ^ 63" "spsc_step\<^sup>*\<^sup>* (spsc_start capacity) s"
  shows "prefix (sy_popped s) (map Some (sy_pushed s)) \<and>
    length (sy_pushed s) \<le> length (sy_popped s) + unat (Spsc_Capacity (sy_ring s))"
proof -
  obtain k where k: "k < 64" "NextPow2Mask capacity = mask k"
    using capacity_power [OF assms(1,2)] by blast
  have inv: "sys_inv k s" using two_threads.reaches_inv [OF assms(3) sys_inv_start [OF k(2,1)]] .
  have "prefix (map Some (take n (sy_pushed s))) (map Some (sy_pushed s))" for n
    by (metis append_take_drop_id map_append prefixI)
  moreover have "unat (mask k + 1 :: u64) = 2 ^ k"
    using unat_mask_plus_one [OF k(1)] .
  ultimately show ?thesis
    using inv by (auto simp: sys_inv_def Let_def Spsc_Capacity_def) metis
qed

theorem spsc_concurrent_fifo_witness:
  "\<exists>s :: nat spsc_sys. spsc_step\<^sup>*\<^sup>* (spsc_start 2) s \<and> sy_popped s = [Some 7] \<and>
    prefix (sy_popped s) (map Some (sy_pushed s)) \<and>
    length (sy_pushed s) \<le> length (sy_popped s) + unat (Spsc_Capacity (sy_ring s))"
  by (intro exI conjI, rule sample_pop) (use spsc_concurrent_fifo [where capacity = 2, OF _ _ sample_pop] in simp_all)

text \<open>
  The threads never race on a slot: whenever the producer has passed its fullness check and is about
  to write a slot while the consumer has passed its emptiness check and is about to move one out, the
  two slots are different.\<close>

theorem spsc_no_slot_race:
  assumes "capacity \<noteq> 0" "unat capacity \<le> 2 ^ 63" "spsc_step\<^sup>*\<^sup>* (spsc_start capacity) s"
    "sy_prod s = PTail item h t" "\<not> h - t > sp_mask (sy_ring s)" "sy_cons s = CHead t' h'" "t' \<noteq> h'"
  shows "h AND sp_mask (sy_ring s) \<noteq> t' AND sp_mask (sy_ring s)"
proof -
  obtain k where k: "k < 64" "NextPow2Mask capacity = mask k"
    using capacity_power [OF assms(1,2)] by blast
  have inv: "sys_inv k s" using two_threads.reaches_inv [OF assms(3) sys_inv_start [OF k(2,1)]] .
  note p = push_room [OF inv assms(4,5)] and c = pop_item [OF inv assms(6,7)]
  from mod_apart [OF c(1) p(1)] p(2) c(3) show ?thesis by metis
qed

end
