(* ===== verification/TimerWheel.thy ===== *)
theory TimerWheel
  imports NetPrelude Machine "HOL-Library.Multiset"
begin

text \<open>
  The timer wheel (\<open>src/core/timer_wheel.h\<close>, \<open>timer_wheel.cpp\<close>): entries hashed by absolute deadline into
  slots, an index from timer tid to slot, and a sweep that collects the due entries before it fires
  them. A callback may itself schedule and cancel; it is a parameter acting on a world that contains
  the wheel. The abstract wheel is a finite map from ids to deadlines and callbacks.
\<close>

section \<open>The wheel\<close>

record 'cb Entry =
  te_id :: u64
  te_deadline_ms :: u64
  te_cb :: "'cb option"

text \<open>
  The iterator of a \<open>SlotPos\<close> points at the entry with the tid under which it is indexed, so that the
  slot number is all that has to be stored.
\<close>

record 'cb TimerWheel =
  tw_slot_count :: nat
  tw_slots :: "'cb Entry list list"
  tw_by_id :: "u64 \<Rightarrow> nat option"
  tw_next_id :: u64
  tw_cursor_ms :: u64
  tw_pending :: nat

datatype ScheduleResult = Scheduled u64 | CursorExhausted | BadAlloc | IdSpaceExhausted

definition TimerWheel_init :: "nat \<Rightarrow> 'cb TimerWheel" where
  "TimerWheel_init slot_count =
     (let count = (if slot_count = 0 then 1 else slot_count) in
      \<lparr>tw_slot_count = count, tw_slots = replicate count [], tw_by_id = Map.empty, tw_next_id = 1,
       tw_cursor_ms = 0, tw_pending = 0\<rparr>)"

definition next_after :: "u64 \<Rightarrow> u64" where
  "next_after next = (if next + 1 = 0 then 1 else next + 1)"

text \<open>The search for an id that is not in use: it does not return when there is none.\<close>

partial_function (option) find_id :: "(u64 \<Rightarrow> nat option) \<Rightarrow> u64 \<Rightarrow> u64 \<Rightarrow> (u64 \<times> u64) option" where
  "find_id by_id tid next =
     (if tid = 0 \<or> by_id tid \<noteq> None then find_id by_id next (next_after next) else Some (tid, next))"

text \<open>
  \<open>entry_ok\<close> and \<open>index_ok\<close> say whether the allocations of the list node and of the map node succeed.
\<close>

definition Schedule :: "bool \<Rightarrow> bool \<Rightarrow> u64 \<Rightarrow> 'cb option \<Rightarrow> 'cb TimerWheel \<Rightarrow> (ScheduleResult \<times> 'cb TimerWheel) option" where
  "Schedule entry_ok index_ok deadline_ms cb w =
     (if deadline_ms \<le> tw_cursor_ms w \<and> tw_cursor_ms w = 0xFFFFFFFFFFFFFFFF then Some (CursorExhausted, w)
      else
        let deadline_ms = (if deadline_ms \<le> tw_cursor_ms w then tw_cursor_ms w + 1 else deadline_ms) in
        case find_id (tw_by_id w) (tw_next_id w) (next_after (tw_next_id w)) of
          None \<Rightarrow> None
        | Some (tid, next) \<Rightarrow>
            let w = w\<lparr>tw_next_id := next\<rparr>;
                slot = unat deadline_ms mod tw_slot_count w in
            if \<not> entry_ok then Some (BadAlloc, w)
            else
              let entry = \<lparr>te_id = tid, te_deadline_ms = deadline_ms, te_cb = cb\<rparr>;
                  pushed = w\<lparr>tw_slots := (tw_slots w)[slot := tw_slots w ! slot @ [entry]]\<rparr>;
                  erased = pushed\<lparr>tw_slots := (tw_slots pushed)[slot := butlast (tw_slots pushed ! slot)]\<rparr> in
              if \<not> index_ok then Some (BadAlloc, erased)
              else if tw_by_id w tid \<noteq> None then Some (IdSpaceExhausted, erased)
              else Some (Scheduled tid, pushed\<lparr>tw_by_id := (tw_by_id w)(tid \<mapsto> slot), tw_pending := tw_pending w + 1\<rparr>))"

definition Cancel :: "u64 \<Rightarrow> 'cb TimerWheel \<Rightarrow> bool \<times> 'cb TimerWheel" where
  "Cancel tid w =
     (case tw_by_id w tid of
        None \<Rightarrow> (False, w)
      | Some slot \<Rightarrow>
          (True, w\<lparr>tw_slots := (tw_slots w)[slot := filter (\<lambda>e. te_id e \<noteq> tid) (tw_slots w ! slot)],
                   tw_by_id := (tw_by_id w)(tid := None), tw_pending := tw_pending w - 1\<rparr>))"

text \<open>The sweep over one list and over the slots: the entries kept, the index, the entries due.\<close>

fun sweep_list :: "u64 \<Rightarrow> 'cb Entry list \<Rightarrow> (u64 \<Rightarrow> nat option) \<times> 'cb Entry list \<times> nat \<Rightarrow>
    'cb Entry list \<times> (u64 \<Rightarrow> nat option) \<times> 'cb Entry list \<times> nat" where
  "sweep_list now [] s = ([], s)"
| "sweep_list now (e # es) (by_id, due, pending) =
     (if te_deadline_ms e \<le> now then sweep_list now es (by_id(te_id e := None), due @ [e], pending - 1)
      else let (kept, s) = sweep_list now es (by_id, due, pending) in (e # kept, s))"

fun sweep_slots :: "u64 \<Rightarrow> 'cb Entry list list \<Rightarrow> (u64 \<Rightarrow> nat option) \<times> 'cb Entry list \<times> nat \<Rightarrow>
    'cb Entry list list \<times> (u64 \<Rightarrow> nat option) \<times> 'cb Entry list \<times> nat" where
  "sweep_slots now [] s = ([], s)"
| "sweep_slots now (l # ls) s =
     (let (l, s) = sweep_list now l s; (ls, s) = sweep_slots now ls s in (l # ls, s))"

text \<open>A callback that throws, which is \<open>None\<close>, ends the loop.\<close>

fun fire_loop :: "('cb \<Rightarrow> 'w \<Rightarrow> 'w option) \<Rightarrow> 'cb Entry list \<Rightarrow> 'w \<Rightarrow> 'w option" where
  "fire_loop call [] s = Some s"
| "fire_loop call (e # es) s =
     (case te_cb e of
        None \<Rightarrow> fire_loop call es s
      | Some cb \<Rightarrow> (case call cb s of None \<Rightarrow> None | Some s \<Rightarrow> fire_loop call es s))"

definition collect_due :: "u64 \<Rightarrow> 'cb TimerWheel \<Rightarrow> 'cb Entry list \<times> 'cb TimerWheel" where
  "collect_due now_ms w =
     (let (slots, by_id, due, pending) = sweep_slots now_ms (tw_slots w) (tw_by_id w, [], tw_pending w) in
      (due, w\<lparr>tw_slots := slots, tw_by_id := by_id, tw_pending := pending\<rparr>))"

text \<open>
  \<open>reserve_ok\<close> says whether the vector of due entries can be allocated. When it cannot, the exception
  leaves the wheel with the new time and all its timers; an exception of a callback leaves \<open>AdvanceTo\<close>
  as well.
\<close>

datatype 's AdvanceResult = Advanced nat 's | ReserveFailed 's | CallbackThrew

definition AdvanceTo :: "bool \<Rightarrow> ('cb \<Rightarrow> 'w \<times> 'cb TimerWheel \<Rightarrow> ('w \<times> 'cb TimerWheel) option) \<Rightarrow> u64 \<Rightarrow>
    'w \<times> 'cb TimerWheel \<Rightarrow> ('w \<times> 'cb TimerWheel) AdvanceResult" where
  "AdvanceTo reserve_ok call now_ms s =
     (let (world, w) = s in
      if now_ms \<le> tw_cursor_ms w then Advanced 0 (world, w)
      else
        let w = w\<lparr>tw_cursor_ms := now_ms\<rparr> in
        if tw_pending w = 0 then Advanced 0 (world, w)
        else if \<not> reserve_ok then ReserveFailed (world, w)
        else
          let (due, w) = collect_due now_ms w in
          case fire_loop call due (world, w) of
            None \<Rightarrow> CallbackThrew
          | Some s \<Rightarrow> Advanced (length due) s)"

definition Timer_Now :: "'cb TimerWheel \<Rightarrow> u64" where
  "Timer_Now w = tw_cursor_ms w"

definition PendingCount :: "'cb TimerWheel \<Rightarrow> nat" where
  "PendingCount w = tw_pending w"

section \<open>The tid search\<close>

text \<open>Ids that are tried before \<open>free\<close>, walking upwards and around past zero.\<close>

definition id_distance :: "u64 \<Rightarrow> u64 \<Rightarrow> nat" where
  "id_distance free tid = (if tid \<le> free then unat free - unat tid else 2 ^ 64 - 1 - unat tid + unat free)"

lemma next_after_nonzero: "next_after n \<noteq> 0"
  by (simp add: next_after_def)

lemma id_distance_step:
  assumes "tid \<noteq> free" "free \<noteq> 0"
  shows "id_distance free (next_after tid) < id_distance free tid"
proof (cases "tid + 1 = 0")
  case True
  then have "tid = - 1" by (metis add_diff_cancel diff_0)
  then have top: "unat tid = 2 ^ 64 - 1" by (simp add: unsigned_minus_1_eq_mask mask_eq_exp_minus_1)
  have f: "0 < unat free" "unat free < 2 ^ 64" using assms(2) unsigned_less [of free] by (auto simp: unat_gt_0)
  have "\<not> tid \<le> free" using assms(1) top f by (auto simp: word_le_nat_alt word_unat_eq_iff)
  moreover have "(1 :: u64) \<le> free" using f by (simp add: word_le_nat_alt)
  ultimately show ?thesis using True top f by (simp add: id_distance_def next_after_def)
next
  case False
  then have s: "unat (tid + 1) = unat tid + 1" by (simp add: unatSuc add.commute)
  have f: "unat free < 2 ^ 64" "unat tid < 2 ^ 64" "unat tid \<noteq> unat free"
    using assms(1) unsigned_less [of free] unsigned_less [of tid] by (auto simp: word_unat_eq_iff)
  moreover have "unat (tid + 1) < 2 ^ 64" using unsigned_less [where 'a = nat, of "tid + 1"] by simp
  ultimately show ?thesis
    using False s by (auto simp: id_distance_def next_after_def word_le_nat_alt)
qed

lemma find_id_free: "tid \<noteq> 0 \<Longrightarrow> by_id tid = None \<Longrightarrow> find_id by_id tid n = Some (tid, n)"
  by (subst find_id.simps) simp

lemma find_id_returns:
  assumes "free \<noteq> 0" "by_id free = None" "tid \<noteq> 0"
  shows "\<exists>r next. find_id by_id tid (next_after tid) = Some (r, next) \<and> r \<noteq> 0 \<and> by_id r = None \<and> next \<noteq> 0"
  using assms(3)
proof (induction "id_distance free tid" arbitrary: tid rule: less_induct)
  case less
  show ?case
  proof (cases "by_id tid = None")
    case True
    with less.prems show ?thesis by (subst find_id.simps) (simp add: next_after_nonzero)
  next
    case False
    then have "id_distance free (next_after tid) < id_distance free tid"
      using assms by (intro id_distance_step) auto
    from less.hyps [OF this next_after_nonzero] False show ?thesis
      by (subst find_id.simps) simp
  qed
qed

lemma find_id_sound:
  assumes "find_id by_id tid n = Some (r, n')" "n \<noteq> 0"
  shows "r \<noteq> 0 \<and> by_id r = None \<and> n' \<noteq> 0"
proof -
  have "n \<noteq> 0 \<longrightarrow> fst y \<noteq> 0 \<and> by_id (fst y) = None \<and> snd y \<noteq> 0" if "find_id by_id tid n = Some y" for y
    using that
  proof (rule find_id.raw_induct [where P = "\<lambda>by_id tid n y. n \<noteq> 0 \<longrightarrow> fst y \<noteq> 0 \<and> by_id (fst y) = None \<and> snd y \<noteq> 0", rotated])
    fix find_id and by_id :: "u64 \<Rightarrow> nat option" and tid n y
    assume "\<And>by_id tid n y. find_id by_id tid n = Some y \<Longrightarrow> n \<noteq> 0 \<longrightarrow> fst y \<noteq> 0 \<and> by_id (fst y) = None \<and> snd y \<noteq> 0"
      and "(if tid = 0 \<or> by_id tid \<noteq> None then find_id by_id n (next_after n) else Some (tid, n)) = Some y"
    then show "n \<noteq> 0 \<longrightarrow> fst y \<noteq> 0 \<and> by_id (fst y) = None \<and> snd y \<noteq> 0"
      using next_after_nonzero [of n] by (auto split: if_splits)
  qed
  with assms show ?thesis by fastforce
qed

lemma free_id_exists:
  assumes "finite (dom (by_id :: u64 \<Rightarrow> nat option))" "card (dom by_id) < 2 ^ 64 - 1"
  shows "\<exists>free. free \<noteq> 0 \<and> by_id free = None"
proof (rule ccontr)
  assume "\<not> ?thesis"
  then have "UNIV - {0} \<subseteq> dom by_id" by auto
  then have "card (UNIV - {0 :: u64}) \<le> card (dom by_id)" using assms(1) by (rule card_mono [rotated])
  then show False using assms(2) by (simp add: card_Diff_singleton card_word)
qed

section \<open>The wheel invariant\<close>

definition entries :: "'cb TimerWheel \<Rightarrow> 'cb Entry list" where
  "entries w = concat (tw_slots w)"

definition wheel_ok :: "'cb TimerWheel \<Rightarrow> bool" where
  "wheel_ok w \<longleftrightarrow>
     0 < tw_slot_count w \<and> length (tw_slots w) = tw_slot_count w \<and> tw_next_id w \<noteq> 0 \<and>
     tw_pending w = length (entries w) \<and> distinct (map te_id (entries w)) \<and>
     dom (tw_by_id w) = te_id ` set (entries w) \<and>
     (\<forall>slot < tw_slot_count w. \<forall>e \<in> set (tw_slots w ! slot).
        te_id e \<noteq> 0 \<and> tw_by_id w (te_id e) = Some slot \<and> unat (te_deadline_ms e) mod tw_slot_count w = slot \<and>
        tw_cursor_ms w < te_deadline_ms e)"

lemma entries_slot: "e \<in> set (entries w) \<longleftrightarrow> (\<exists>slot < length (tw_slots w). e \<in> set (tw_slots w ! slot))"
proof -
  have "(\<exists>l \<in> set ls. e \<in> set l) \<longleftrightarrow> (\<exists>i < length ls. e \<in> set (ls ! i))" for ls :: "'a Entry list list"
    by (auto simp: in_set_conv_nth [of _ ls] intro: bexI [OF _ nth_mem])
  then show ?thesis by (simp add: entries_def)
qed

lemma TimerWheel_init_ok: "wheel_ok (TimerWheel_init n)"
  by (simp add: wheel_ok_def TimerWheel_init_def Let_def entries_def)

lemma mset_push: "slot < length ls \<Longrightarrow> mset (concat (ls[slot := ls ! slot @ [e]])) = add_mset e (mset (concat ls))"
  by (induction ls arbitrary: slot) (auto simp: less_Suc_eq_0_disj)

lemma filter_single:
  "e \<in> set es \<Longrightarrow> inj_on f (set es) \<Longrightarrow> distinct es \<Longrightarrow> f e = v \<Longrightarrow> filter (\<lambda>x. f x = v) es = [e]"
proof (induction es)
  case (Cons x xs)
  then show ?case by (cases "x = e") (auto simp: inj_on_def filter_empty_conv)
qed simp

lemma sweep_list_filter:
  "sweep_list now es (by_id, due, pending) =
     (filter (\<lambda>e. \<not> te_deadline_ms e \<le> now) es, by_id |` (- te_id ` {e \<in> set es. te_deadline_ms e \<le> now}),
      due @ filter (\<lambda>e. te_deadline_ms e \<le> now) es, pending - length (filter (\<lambda>e. te_deadline_ms e \<le> now) es))"
  by (induction es arbitrary: by_id due pending)
    (auto simp: restrict_map_def Let_def fun_eq_iff)

lemma sweep_slots_filter:
  "sweep_slots now ls (by_id, due, pending) =
     (map (filter (\<lambda>e. \<not> te_deadline_ms e \<le> now)) ls,
      by_id |` (- te_id ` {e \<in> set (concat ls). te_deadline_ms e \<le> now}),
      due @ filter (\<lambda>e. te_deadline_ms e \<le> now) (concat ls),
      pending - length (filter (\<lambda>e. te_deadline_ms e \<le> now) (concat ls)))"
proof (induction ls arbitrary: by_id due pending)
  case (Cons l ls)
  show ?case
    by (auto simp: Cons sweep_list_filter Let_def restrict_map_def fun_eq_iff)
qed (auto simp: restrict_map_def)

text \<open>Dropping entries by a test on the entry alone, from the slots and from the index together.\<close>

definition keep_entries :: "('cb Entry \<Rightarrow> bool) \<Rightarrow> 'cb TimerWheel \<Rightarrow> 'cb TimerWheel" where
  "keep_entries P w = w\<lparr>tw_slots := map (filter P) (tw_slots w),
     tw_by_id := tw_by_id w |` (- te_id ` {e \<in> set (entries w). \<not> P e}),
     tw_pending := tw_pending w - length (filter (\<lambda>e. \<not> P e) (entries w))\<rparr>"

lemma entries_keep: "entries (keep_entries P w) = filter P (entries w)"
  by (simp add: entries_def keep_entries_def filter_concat)

lemma keep_entries_fields:
  "tw_slot_count (keep_entries P w) = tw_slot_count w" "tw_slots (keep_entries P w) = map (filter P) (tw_slots w)"
  "tw_by_id (keep_entries P w) = tw_by_id w |` (- te_id ` {e \<in> set (entries w). \<not> P e})"
  "tw_next_id (keep_entries P w) = tw_next_id w" "tw_cursor_ms (keep_entries P w) = tw_cursor_ms w"
  "tw_pending (keep_entries P w) = tw_pending w - length (filter (\<lambda>e. \<not> P e) (entries w))"
  by (simp_all add: keep_entries_def)

lemma keep_entries_ok:
  assumes "wheel_ok w"
  shows "wheel_ok (keep_entries P w)"
proof -
  note ok = assms [unfolded wheel_ok_def]
  have dist: "inj_on te_id (set (entries w))" using ok by (simp add: distinct_map)
  have dom: "dom (tw_by_id (keep_entries P w)) = te_id ` set (entries (keep_entries P w))"
    using ok dist by (auto simp: entries_keep keep_entries_fields inj_on_def)
  have idx: "tw_by_id (keep_entries P w) (te_id e) = tw_by_id w (te_id e)" if "e \<in> set (entries w)" "P e" for e
    using that dist by (auto simp: keep_entries_fields restrict_map_def inj_on_def)
  have "tw_pending (keep_entries P w) = length (entries (keep_entries P w))"
    using ok sum_length_filter_compl [of P "entries w"] by (simp add: entries_keep keep_entries_fields)
  moreover have "distinct (map te_id (entries (keep_entries P w)))"
    using ok by (simp add: entries_keep distinct_map_filter)
  moreover have "te_id e \<noteq> 0 \<and> tw_by_id (keep_entries P w) (te_id e) = Some slot \<and>
      unat (te_deadline_ms e) mod tw_slot_count w = slot \<and> tw_cursor_ms w < te_deadline_ms e"
    if "slot < tw_slot_count w" "e \<in> set (tw_slots w ! slot)" "P e" for slot e
    using that ok idx [of e] by (auto simp: entries_slot)
  ultimately show ?thesis
    using ok dom unfolding wheel_ok_def by (simp add: keep_entries_fields(1,2,4,5))
qed

lemma wheel_ok_slot:
  "wheel_ok w \<Longrightarrow> e \<in> set (entries w) \<Longrightarrow>
     \<exists>slot < tw_slot_count w. tw_by_id w (te_id e) = Some slot \<and> e \<in> set (tw_slots w ! slot)"
  by (auto simp: wheel_ok_def entries_slot)

lemma Cancel_keep:
  assumes "wheel_ok w" "tw_by_id w tid = Some slot"
  shows "Cancel tid w = (True, keep_entries (\<lambda>e. te_id e \<noteq> tid) w)"
proof -
  note ok = assms(1) [unfolded wheel_ok_def]
  have "tid \<in> te_id ` set (entries w)" using assms ok by auto
  then obtain e where e: "e \<in> set (entries w)" "te_id e = tid" by auto
  have "e \<in> set (tw_slots w ! slot)" "slot < tw_slot_count w" using wheel_ok_slot [OF assms(1) e(1)] e(2) assms(2) by auto
  have "(tw_slots w)[slot := filter (\<lambda>e. te_id e \<noteq> tid) (tw_slots w ! slot)] =
      map (filter (\<lambda>e. te_id e \<noteq> tid)) (tw_slots w)"
  proof (rule nth_equalityI)
    fix i assume i: "i < length ((tw_slots w)[slot := filter (\<lambda>e. te_id e \<noteq> tid) (tw_slots w ! slot)])"
    show "(tw_slots w)[slot := filter (\<lambda>e. te_id e \<noteq> tid) (tw_slots w ! slot)] ! i =
        map (filter (\<lambda>e. te_id e \<noteq> tid)) (tw_slots w) ! i"
    proof (cases "i = slot")
      case False
      then have "filter (\<lambda>e. te_id e \<noteq> tid) (tw_slots w ! i) = tw_slots w ! i"
        using i ok assms(2) by (intro filter_True) auto
      with False i show ?thesis by simp
    qed (use i in simp)
  qed simp
  moreover have "filter (\<lambda>e. te_id e = tid) (entries w) = [e]"
    using ok e by (intro filter_single) (auto simp: distinct_map)
  moreover have "{e \<in> set (entries w). te_id e = tid} = {e}"
    using e ok by (auto simp: distinct_map inj_on_def)
  ultimately show ?thesis
    using assms(2) e by (simp add: Cancel_def keep_entries_def restrict_map_def fun_eq_iff)
qed

lemma collect_due_keep:
  "collect_due now w = (filter (\<lambda>e. te_deadline_ms e \<le> now) (entries w), keep_entries (\<lambda>e. \<not> te_deadline_ms e \<le> now) w)"
  by (simp add: collect_due_def sweep_slots_filter keep_entries_def entries_def)

section \<open>The abstract wheel\<close>

definition timers_of :: "'cb TimerWheel \<Rightarrow> u64 \<Rightarrow> (u64 \<times> 'cb option) option" where
  "timers_of w = map_of (map (\<lambda>e. (te_id e, te_deadline_ms e, te_cb e)) (entries w))"

abbreviation timer :: "u64 \<Rightarrow> u64 \<Rightarrow> 'cb option \<Rightarrow> 'cb Entry" where
  "timer tid d cb \<equiv> \<lparr>te_id = tid, te_deadline_ms = d, te_cb = cb\<rparr>"

lemma timers_of_Some:
  assumes "wheel_ok w"
  shows "timers_of w tid = Some (d, cb) \<longleftrightarrow> timer tid d cb \<in> set (entries w)"
proof -
  have "map fst (map (\<lambda>e. (te_id e, te_deadline_ms e, te_cb e)) (entries w)) = map te_id (entries w)"
    by (simp add: comp_def)
  then have "distinct (map fst (map (\<lambda>e. (te_id e, te_deadline_ms e, te_cb e)) (entries w)))"
    using assms unfolding wheel_ok_def by metis
  then have "timers_of w tid = Some (d, cb) \<longleftrightarrow> (tid, d, cb) \<in> (\<lambda>e. (te_id e, te_deadline_ms e, te_cb e)) ` set (entries w)"
    by (simp add: timers_of_def map_of_eq_Some_iff [symmetric] del: map_map)
  also have "\<dots> \<longleftrightarrow> timer tid d cb \<in> set (entries w)"
  proof
    assume "(tid, d, cb) \<in> (\<lambda>e. (te_id e, te_deadline_ms e, te_cb e)) ` set (entries w)"
    then obtain e where e: "e \<in> set (entries w)" "te_id e = tid" "te_deadline_ms e = d" "te_cb e = cb" by auto
    have "e = timer tid d cb" using e(2-4) by (intro Entry.equality) simp_all
    with e(1) show "timer tid d cb \<in> set (entries w)" by simp
  qed (force intro: rev_image_eqI)
  finally show ?thesis .
qed

lemma timers_of_None: "wheel_ok w \<Longrightarrow> timers_of w tid = None \<longleftrightarrow> tw_by_id w tid = None"
proof -
  assume "wheel_ok w"
  then have "dom (tw_by_id w) = te_id ` set (entries w)" by (simp add: wheel_ok_def)
  then show ?thesis by (force simp: timers_of_def map_of_eq_None_iff)
qed

lemma timers_of_eqI:
  assumes "wheel_ok w" "\<And>tid d cb. timer tid d cb \<in> set (entries w) \<longleftrightarrow> m tid = Some (d, cb)"
  shows "timers_of w = m"
proof
  fix tid
  have "timers_of w tid = Some v \<longleftrightarrow> m tid = Some v" for v
    using assms(2) [of tid "fst v" "snd v"] timers_of_Some [OF assms(1), of tid "fst v" "snd v"] by simp
  then show "timers_of w tid = m tid" by (metis not_None_eq)
qed

lemma timers_of_keep:
  assumes "wheel_ok w"
  shows "timers_of (keep_entries P w) tid =
    (case timers_of w tid of None \<Rightarrow> None | Some (d, cb) \<Rightarrow> if P (timer tid d cb) then Some (d, cb) else None)"
proof -
  have "timers_of (keep_entries P w) = (\<lambda>tid. case timers_of w tid of None \<Rightarrow> None
     | Some (d, cb) \<Rightarrow> if P (timer tid d cb) then Some (d, cb) else None)"
    by (rule timers_of_eqI [OF keep_entries_ok [OF assms]])
      (auto simp: entries_keep timers_of_Some [OF assms, symmetric] split: option.splits)
  then show ?thesis by simp
qed

lemma clamp_deadline:
  fixes d c :: u64
  assumes "\<not> (d \<le> c \<and> c = 0xFFFFFFFFFFFFFFFF)"
  shows "c < (if d \<le> c then c + 1 else d)" "(if d \<le> c then c + 1 else d) = max d (c + 1)"
proof -
  have "c \<noteq> - 1 \<Longrightarrow> unat (c + 1) = unat c + 1" by (metis add.commute add_eq_0_iff unatSuc Suc_eq_plus1)
  moreover have "(- 1 :: u64) = 0xFFFFFFFFFFFFFFFF" by simp
  moreover have "unat (c + 1) \<le> unat d" if "c < d"
    using that by (metis inc_le word_le_nat_alt)
  ultimately show "c < (if d \<le> c then c + 1 else d)" "(if d \<le> c then c + 1 else d) = max d (c + 1)"
    using assms by (auto simp: max_def word_le_nat_alt word_less_nat_alt) (auto simp: word_unat_eq_iff)
qed

section \<open>Scheduling\<close>

text \<open>What the successful path of \<open>Schedule\<close> does to the wheel.\<close>

definition add_entry :: "'cb Entry \<Rightarrow> u64 \<Rightarrow> 'cb TimerWheel \<Rightarrow> 'cb TimerWheel" where
  "add_entry e next w =
     (let slot = unat (te_deadline_ms e) mod tw_slot_count w in
      w\<lparr>tw_next_id := next, tw_slots := (tw_slots w)[slot := tw_slots w ! slot @ [e]],
        tw_by_id := (tw_by_id w)(te_id e \<mapsto> slot), tw_pending := tw_pending w + 1\<rparr>)"

lemma add_entry_fields:
  "tw_slot_count (add_entry e n w) = tw_slot_count w" "length (tw_slots (add_entry e n w)) = length (tw_slots w)"
  "tw_next_id (add_entry e n w) = n" "tw_cursor_ms (add_entry e n w) = tw_cursor_ms w"
  "tw_pending (add_entry e n w) = tw_pending w + 1"
  by (simp_all add: add_entry_def Let_def)

lemma add_entry_ok:
  assumes "wheel_ok w" "te_id e \<noteq> 0" "tw_by_id w (te_id e) = None" "tw_cursor_ms w < te_deadline_ms e" "next \<noteq> 0"
  shows "wheel_ok (add_entry e next w)" "set (entries (add_entry e next w)) = insert e (set (entries w))"
proof -
  note ok = assms(1) [unfolded wheel_ok_def]
  let ?slot = "unat (te_deadline_ms e) mod tw_slot_count w"
  have slot: "?slot < length (tw_slots w)" using ok by simp
  have m: "mset (entries (add_entry e next w)) = add_mset e (mset (entries w))"
    using mset_push [OF slot, of e] by (simp add: entries_def add_entry_def Let_def)
  then show set: "set (entries (add_entry e next w)) = insert e (set (entries w))"
    by (metis set_mset_add_mset_insert set_mset_mset)
  have len: "length (entries (add_entry e next w)) = length (entries w) + 1" using m by (metis size_mset size_add_mset Suc_eq_plus1)
  have new: "te_id e \<notin> te_id ` set (entries w)" using assms(1,3) by (auto simp: wheel_ok_def)
  have "mset (map te_id (entries (add_entry e next w))) = mset (te_id e # map te_id (entries w))" using m by simp
  then have dist: "distinct (map te_id (entries (add_entry e next w)))"
    using ok new by (metis distinct.simps(2) list.set_map mset_eq_imp_distinct_iff)
  have "te_id x \<noteq> 0 \<and> tw_by_id (add_entry e next w) (te_id x) = Some s \<and>
      unat (te_deadline_ms x) mod tw_slot_count w = s \<and> tw_cursor_ms w < te_deadline_ms x"
    if "s < tw_slot_count w" "x \<in> set (tw_slots (add_entry e next w) ! s)" for s x
  proof (cases "x = e")
    case True
    have "e \<notin> set (tw_slots w ! s)" using new that(1) ok entries_slot [of e w] by auto
    then have "s = ?slot" using that slot ok True by (auto simp: add_entry_def Let_def nth_list_update split: if_splits)
    then show ?thesis using True assms by (simp add: add_entry_def Let_def)
  next
    case False
    then have x: "x \<in> set (tw_slots w ! s)"
      using that slot ok by (auto simp: add_entry_def Let_def nth_list_update split: if_splits)
    then have "x \<in> set (entries w)" using that(1) ok entries_slot [of x w] by auto
    then have "te_id x \<noteq> te_id e" using new by (metis imageI)
    then show ?thesis using x that(1) ok by (simp add: add_entry_def Let_def)
  qed
  moreover have "dom (tw_by_id (add_entry e next w)) = te_id ` set (entries (add_entry e next w))"
    unfolding set using ok by (auto simp: add_entry_def Let_def)
  ultimately show "wheel_ok (add_entry e next w)"
    using ok len dist assms(5) unfolding wheel_ok_def by (simp add: add_entry_fields)
qed

text \<open>
  C18: \<open>Schedule\<close> always returns while fewer than \<open>2^64 - 1\<close> timers are pending, although its id search
  is an unbounded loop: it gives a nonzero id that no pending timer has and adds exactly the requested
  timer (its deadline clamped past the current time), or it reports that the clock is exhausted or an
  allocation failed and changes no timer. The wheel stays consistent in every case.\<close>

theorem schedule_returns:
  assumes "wheel_ok w" "PendingCount w < 2 ^ 64 - 1"
  shows "\<exists>r w'. Schedule entry_ok index_ok deadline_ms cb w = Some (r, w') \<and> wheel_ok w' \<and>
    tw_cursor_ms w' = tw_cursor_ms w \<and>
    (case r of
       Scheduled tid \<Rightarrow> tid \<noteq> 0 \<and> timers_of w tid = None \<and> entry_ok \<and> index_ok \<and>
         timers_of w' = (timers_of w)(tid \<mapsto> (max deadline_ms (tw_cursor_ms w + 1), cb))
     | CursorExhausted \<Rightarrow> deadline_ms \<le> tw_cursor_ms w \<and> tw_cursor_ms w + 1 = 0 \<and> w' = w
     | BadAlloc \<Rightarrow> \<not> (entry_ok \<and> index_ok) \<and> timers_of w' = timers_of w
     | IdSpaceExhausted \<Rightarrow> False)"
proof (cases "deadline_ms \<le> tw_cursor_ms w \<and> tw_cursor_ms w = 0xFFFFFFFFFFFFFFFF")
  case False
  note ok = assms(1) [unfolded wheel_ok_def]
  have "card (dom (tw_by_id w)) = length (entries w)"
    using ok by (metis distinct_card length_map list.set_map)
  then have "\<exists>free. free \<noteq> 0 \<and> tw_by_id w free = None"
    using assms ok by (intro free_id_exists) (auto simp: PendingCount_def)
  then obtain tid "next" where f: "find_id (tw_by_id w) (tw_next_id w) (next_after (tw_next_id w)) = Some (tid, next)"
    "tid \<noteq> 0" "tw_by_id w tid = None" "next \<noteq> 0"
    using find_id_returns [of _ "tw_by_id w" "tw_next_id w"] ok by metis
  define d where "d = (if deadline_ms \<le> tw_cursor_ms w then tw_cursor_ms w + 1 else deadline_ms)"
  have d: "tw_cursor_ms w < d" "d = max deadline_ms (tw_cursor_ms w + 1)"
    using False clamp_deadline [of deadline_ms "tw_cursor_ms w"] by (simp_all add: d_def)
  let ?e = "timer tid d cb"
  note add = add_entry_ok [of w ?e "next", OF assms(1)]
  have new: "timers_of (add_entry ?e next w) = (timers_of w)(tid \<mapsto> (d, cb))"
    using add f d timers_of_None [OF assms(1), of tid]
    by (intro timers_of_eqI) (auto simp: timers_of_Some [OF assms(1), symmetric])
  have next_ok: "wheel_ok (w\<lparr>tw_next_id := next\<rparr>)" using ok f(4) by (simp add: wheel_ok_def entries_def)
  have same: "timers_of (w\<lparr>tw_next_id := next\<rparr>) = timers_of w" by (simp add: timers_of_def entries_def)
  have slot: "unat d mod tw_slot_count w < length (tw_slots w)" using ok by simp
  have "Schedule entry_ok index_ok deadline_ms cb w =
    Some (if entry_ok \<and> index_ok then (Scheduled tid, add_entry ?e next w) else (BadAlloc, w\<lparr>tw_next_id := next\<rparr>))"
    unfolding Schedule_def if_not_P [OF False] d_def [symmetric] Let_def f(1)
    using f(3) slot by (simp add: add_entry_def Let_def)
  then show ?thesis
    using f d new next_ok same add by (cases "entry_ok \<and> index_ok")
      (auto simp: timers_of_None assms(1) add_entry_fields)
qed (use assms in \<open>auto simp: Schedule_def\<close>)

theorem schedule_returns_witness:
  "\<exists>r w'. Schedule True True 5 (Some ()) (TimerWheel_init 4) = Some (r, w') \<and> wheel_ok w'"
  using schedule_returns [where w = "TimerWheel_init 4" and deadline_ms = 5 and entry_ok = True and index_ok = True
      and cb = "Some ()"] TimerWheel_init_ok [of 4]
  by (force simp: PendingCount_def TimerWheel_init_def)

section \<open>Cancelling and firing\<close>

lemma entries_cursor: "entries (w\<lparr>tw_cursor_ms := t\<rparr>) = entries w"
  by (simp add: entries_def)

lemma keep_cursor: "keep_entries P (w\<lparr>tw_cursor_ms := t\<rparr>) = (keep_entries P w)\<lparr>tw_cursor_ms := t\<rparr>"
  by (simp add: keep_entries_def entries_cursor)

lemma keep_later_ok:
  assumes "wheel_ok w"
  shows "wheel_ok ((keep_entries (\<lambda>e. \<not> te_deadline_ms e \<le> t) w)\<lparr>tw_cursor_ms := t\<rparr>)"
  using keep_entries_ok [OF assms, of "\<lambda>e. \<not> te_deadline_ms e \<le> t"]
  by (auto simp: wheel_ok_def entries_cursor keep_entries_fields(1,2))

text \<open>With no timer pending the sweep would find nothing, so skipping it is the same.\<close>

lemma advance_empty:
  assumes "wheel_ok w" "tw_pending w = 0"
  shows "entries w = []" "keep_entries P w = w"
proof -
  show e: "entries w = []" using assms by (simp add: wheel_ok_def)
  then have "map (filter P) (tw_slots w) = tw_slots w"
    by (intro map_idI) (auto simp: entries_def)
  then show "keep_entries P w = w" using e by (simp add: keep_entries_def restrict_map_def)
qed

lemma Cancel_refines:
  assumes "wheel_ok w"
  shows "fst (Cancel tid w) = (timers_of w tid \<noteq> None)" "timers_of (snd (Cancel tid w)) = (timers_of w)(tid := None)"
    "wheel_ok (snd (Cancel tid w))"
proof -
  have none: "Cancel tid w = (False, w)" if "tw_by_id w tid = None" using that by (simp add: Cancel_def)
  show "fst (Cancel tid w) = (timers_of w tid \<noteq> None)" "wheel_ok (snd (Cancel tid w))"
    using none Cancel_keep [OF assms, of tid] assms keep_entries_ok
    by (cases "tw_by_id w tid"; auto simp: timers_of_None)+
  show "timers_of (snd (Cancel tid w)) = (timers_of w)(tid := None)"
  proof (cases "tw_by_id w tid")
    case None
    then show ?thesis using none timers_of_None [OF assms, of tid] by (simp add: fun_upd_idem)
  next
    case (Some slot)
    then show ?thesis
      using Cancel_keep [OF assms] by (auto simp: timers_of_keep [OF assms] fun_eq_iff split: option.splits)
  qed
qed

lemma AdvanceTo_fires:
  assumes "wheel_ok w" "tw_cursor_ms w < now_ms"
  defines "due \<equiv> filter (\<lambda>e. te_deadline_ms e \<le> now_ms) (entries w)"
    and "w' \<equiv> (keep_entries (\<lambda>e. \<not> te_deadline_ms e \<le> now_ms) w)\<lparr>tw_cursor_ms := now_ms\<rparr>"
  shows "AdvanceTo True call now_ms (world, w) =
      (case fire_loop call due (world, w') of None \<Rightarrow> CallbackThrew | Some s \<Rightarrow> Advanced (length due) s)"
    "AdvanceTo False call now_ms (world, w) =
      (if tw_pending w = 0 then Advanced 0 (world, w') else ReserveFailed (world, w\<lparr>tw_cursor_ms := now_ms\<rparr>))"
  using assms(2) advance_empty [OF assms(1)]
  by (auto simp: AdvanceTo_def Let_def collect_due_keep keep_cursor entries_cursor due_def w'_def split: option.split)

text \<open>The calls of a sequence of callbacks, one after the other, each on the world that the previous one left.\<close>

inductive calls :: "('cb \<Rightarrow> 's \<Rightarrow> 's option) \<Rightarrow> 'cb list \<Rightarrow> 's \<Rightarrow> 's \<Rightarrow> bool" for call where
  rest: "calls call [] s s"
| call: "call cb s = Some s1 \<Longrightarrow> calls call cbs s1 s' \<Longrightarrow> calls call (cb # cbs) s s'"

inductive_simps calls_Nil: "calls call [] s s'"
inductive_simps calls_Cons: "calls call (cb # cbs) s s'"

lemma calls_fire_loop: "calls call (List.map_filter te_cb es) s s' \<longleftrightarrow> fire_loop call es s = Some s'"
proof (induction es arbitrary: s)
  case (Cons e es)
  then show ?case by (cases "te_cb e") (simp_all add: calls_Cons map_filter_simps split: option.split)
qed (auto simp: calls_Nil map_filter_simps)

lemma entry_timer: "e = timer (te_id e) (te_deadline_ms e) (te_cb e)"
  by (rule Entry.equality) simp_all

lemma due_timers:
  assumes "wheel_ok w"
  shows "set (filter (\<lambda>e. te_deadline_ms e \<le> t) (entries w)) =
    {timer tid d cb |tid d cb. timers_of w tid = Some (d, cb) \<and> d \<le> t}"
proof -
  have "e \<in> {timer tid d cb |tid d cb. timers_of w tid = Some (d, cb) \<and> d \<le> t}"
    if "e \<in> set (entries w)" "te_deadline_ms e \<le> t" for e
  proof -
    have "timers_of w (te_id e) = Some (te_deadline_ms e, te_cb e)"
      using that(1) by (simp add: timers_of_Some [OF assms] entry_timer [symmetric])
    with that(2) entry_timer [of e] show ?thesis by blast
  qed
  then show ?thesis by (auto simp: timers_of_Some [OF assms])
qed

lemma no_timers: "wheel_ok w \<Longrightarrow> tw_pending w = 0 \<Longrightarrow> timers_of w = Map.empty"
  by (auto simp: timers_of_def wheel_ok_def)

text \<open>
  C16: \<open>Cancel\<close> and \<open>AdvanceTo\<close> implement the abstract wheel, a map from ids to deadlines and callbacks.
  \<open>Cancel\<close> answers whether the timer is pending and removes exactly it. Advancing the clock takes
  exactly the timers whose deadline is reached out of the wheel, leaves exactly the later ones, and then
  calls the callback of each due timer once, one after the other, and no other callback: it returns
  their number and the world that these calls lead to, and an exception leaves it exactly when
  these calls cannot be completed. When the vector of due timers cannot be allocated the clock has
  advanced but no timer is lost or fired.\<close>

theorem wheel_refines_timer_map:
  assumes "wheel_ok w" "tw_cursor_ms w < now_ms"
  shows "fst (Cancel tid w) = (timers_of w tid \<noteq> None) \<and>
    timers_of (snd (Cancel tid w)) = (timers_of w)(tid := None) \<and>
    (\<exists>due w'. distinct (map te_id due) \<and> set due = {timer t d cb |t d cb. timers_of w t = Some (d, cb) \<and> d \<le> now_ms} \<and>
       wheel_ok w' \<and> Timer_Now w' = now_ms \<and>
       timers_of w' = (\<lambda>t. case timers_of w t of Some (d, cb) \<Rightarrow> if d \<le> now_ms then None else Some (d, cb) | None \<Rightarrow> None) \<and>
       (case AdvanceTo True call now_ms (world, w) of
          Advanced n s \<Rightarrow> n = length due \<and> calls call (List.map_filter te_cb due) (world, w') s
        | CallbackThrew \<Rightarrow> \<not> (\<exists>s. calls call (List.map_filter te_cb due) (world, w') s)
        | ReserveFailed s \<Rightarrow> False)) \<and>
    (case AdvanceTo False call now_ms (world, w) of
       Advanced n s \<Rightarrow> n = 0 \<and> (\<exists>w'. s = (world, w') \<and> wheel_ok w' \<and> timers_of w = Map.empty \<and> timers_of w' = Map.empty)
     | CallbackThrew \<Rightarrow> False
     | ReserveFailed s \<Rightarrow> \<exists>w'. s = (world, w') \<and> Timer_Now w' = now_ms \<and> timers_of w' = timers_of w)"
proof -
  let ?due = "filter (\<lambda>e. te_deadline_ms e \<le> now_ms) (entries w)"
  let ?keep = "keep_entries (\<lambda>e. \<not> te_deadline_ms e \<le> now_ms) w"
  let ?w' = "?keep\<lparr>tw_cursor_ms := now_ms\<rparr>"
  have t: "timers_of (v\<lparr>tw_cursor_ms := now_ms\<rparr>) = timers_of v" for v :: "'a TimerWheel"
    by (simp add: timers_of_def entries_cursor)
  have later: "timers_of ?w' =
      (\<lambda>t. case timers_of w t of Some (d, cb) \<Rightarrow> if d \<le> now_ms then None else Some (d, cb) | None \<Rightarrow> None)"
    unfolding t by (auto simp: timers_of_keep [OF assms(1)] fun_eq_iff split: option.splits)
  have "distinct (map te_id ?due)" using assms(1) by (simp add: wheel_ok_def distinct_map_filter)
  moreover have "case AdvanceTo True call now_ms (world, w) of
      Advanced n s \<Rightarrow> n = length ?due \<and> calls call (List.map_filter te_cb ?due) (world, ?w') s
    | CallbackThrew \<Rightarrow> \<not> (\<exists>s. calls call (List.map_filter te_cb ?due) (world, ?w') s) | ReserveFailed s \<Rightarrow> False"
    by (simp add: AdvanceTo_fires(1) [OF assms] calls_fire_loop split: option.split)
  moreover have "case AdvanceTo False call now_ms (world, w) of
      Advanced n s \<Rightarrow> n = 0 \<and> (\<exists>w'. s = (world, w') \<and> wheel_ok w' \<and> timers_of w = Map.empty \<and> timers_of w' = Map.empty)
    | CallbackThrew \<Rightarrow> False
    | ReserveFailed s \<Rightarrow> \<exists>w'. s = (world, w') \<and> Timer_Now w' = now_ms \<and> timers_of w' = timers_of w"
    using keep_later_ok [OF assms(1)] later no_timers [OF assms(1)]
    by (simp add: AdvanceTo_fires(2) [OF assms] t Timer_Now_def)
  ultimately show ?thesis
    using Cancel_refines [OF assms(1)] due_timers [OF assms(1)] keep_later_ok [OF assms(1)] later
    by (intro conjI exI [of _ ?due] exI [of _ ?w']) (simp_all add: Timer_Now_def)
qed

definition sample_wheel :: "nat TimerWheel" where
  "sample_wheel = add_entry (timer 2 9 (Some 20)) 3 (add_entry (timer 1 5 (Some 10)) 2 (TimerWheel_init 4))"

lemma sample_wheel_ok: "wheel_ok sample_wheel"
proof -
  have "wheel_ok (add_entry (timer 1 5 (Some 10)) 2 (TimerWheel_init 4 :: nat TimerWheel))"
    by (intro add_entry_ok TimerWheel_init_ok) (simp_all add: TimerWheel_init_def Let_def)
  note add = add_entry_ok(1) [OF this]
  show ?thesis
    unfolding sample_wheel_def by (rule add) (simp_all add: add_entry_def TimerWheel_init_def Let_def)
qed

theorem wheel_refines_timer_map_witness:
  "fst (Cancel 2 sample_wheel) = (timers_of sample_wheel 2 \<noteq> None) \<and>
   (\<exists>due w'. set due = {timer t d cb |t d cb. timers_of sample_wheel t = Some (d, cb) \<and> d \<le> 6} \<and>
      wheel_ok w' \<and> Timer_Now w' = 6 \<and>
      (case AdvanceTo True (\<lambda>cb (fired, w). Some (fired @ [cb], w)) 6 ([], sample_wheel) of
         Advanced n s \<Rightarrow> n = length due \<and>
           calls (\<lambda>cb (fired, w). Some (fired @ [cb], w)) (List.map_filter te_cb due) ([], w') s
       | CallbackThrew \<Rightarrow> \<not> (\<exists>s. calls (\<lambda>cb (fired, w). Some (fired @ [cb], w)) (List.map_filter te_cb due) ([], w') s)
       | ReserveFailed s \<Rightarrow> False))"
proof -
  have "tw_cursor_ms sample_wheel < 6" by (simp add: sample_wheel_def add_entry_fields TimerWheel_init_def Let_def)
  from wheel_refines_timer_map [OF sample_wheel_ok this, of 2 "\<lambda>cb (fired, w). Some (fired @ [cb], w)" "[]"]
  show ?thesis by blast
qed

section \<open>Histories\<close>

text \<open>
  The operations of the owner of a wheel. A callback may use the wheel as it likes through its public
  operations; what is asked of it is that it keeps the wheel consistent. A \<open>Schedule\<close> that does not
  return and an \<open>AdvanceTo\<close> that an exception leaves end the history.
\<close>

datatype ('w, 'cb) wheel_op =
  OpSchedule bool bool u64 "'cb option"
| OpCancel u64
| OpAdvance bool "'cb \<Rightarrow> 'w \<times> 'cb TimerWheel \<Rightarrow> ('w \<times> 'cb TimerWheel) option" u64

fun wheel_step :: "('w, 'cb) wheel_op \<Rightarrow> ('w \<times> 'cb TimerWheel) option \<Rightarrow> ('w \<times> 'cb TimerWheel) option" where
  "wheel_step _ None = None"
| "wheel_step (OpSchedule e i d cb) (Some (world, w)) = map_option (\<lambda>(r, w). (world, w)) (Schedule e i d cb w)"
| "wheel_step (OpCancel tid) (Some (world, w)) = Some (world, snd (Cancel tid w))"
| "wheel_step (OpAdvance ok call now) (Some s) = (case AdvanceTo ok call now s of Advanced n s \<Rightarrow> Some s | _ \<Rightarrow> None)"

definition keeps_wheel :: "('cb \<Rightarrow> 'w \<times> 'cb TimerWheel \<Rightarrow> ('w \<times> 'cb TimerWheel) option) \<Rightarrow> bool" where
  "keeps_wheel call \<longleftrightarrow> (\<forall>cb s s'. wheel_ok (snd s) \<longrightarrow> call cb s = Some s' \<longrightarrow> wheel_ok (snd s'))"

fun wheel_good :: "('w, 'cb) wheel_op \<Rightarrow> bool" where
  "wheel_good (OpAdvance ok call now) = keeps_wheel call"
| "wheel_good _ = True"

definition live_ok :: "('w \<times> 'cb TimerWheel) option \<Rightarrow> bool" where
  "live_ok s = (case s of None \<Rightarrow> True | Some (world, w) \<Rightarrow> wheel_ok w)"

lemma fire_loop_keeps:
  "keeps_wheel call \<Longrightarrow> wheel_ok (snd s) \<Longrightarrow> fire_loop call es s = Some s' \<Longrightarrow> wheel_ok (snd s')"
  by (induction es arbitrary: s) (auto simp: keeps_wheel_def split: option.splits, metis+)

lemma Schedule_keeps:
  assumes "wheel_ok w" "Schedule e i d cb w = Some (r, w')"
  shows "wheel_ok w'"
proof -
  have ok: "wheel_ok (w\<lparr>tw_next_id := n\<rparr>)" if "n \<noteq> 0" for n
    using assms(1) that by (simp add: wheel_ok_def entries_def)
  show ?thesis
  proof (cases "find_id (tw_by_id w) (tw_next_id w) (next_after (tw_next_id w))")
    case None
    with assms show ?thesis by (auto simp: Schedule_def Let_def split: if_splits)
  next
    case (Some p)
    obtain tid n where p: "p = (tid, n)" by (cases p)
    note f = find_id_sound [OF Some [unfolded p] next_after_nonzero]
    have slot: "x mod tw_slot_count w < length (tw_slots w)" for x using assms(1) by (simp add: wheel_ok_def)
    show ?thesis
    proof (cases "d \<le> tw_cursor_ms w \<and> tw_cursor_ms w = 0xFFFFFFFFFFFFFFFF")
      case False
      let ?d = "if d \<le> tw_cursor_ms w then tw_cursor_ms w + 1 else d"
      have "wheel_ok (add_entry (timer tid ?d cb) n w)"
        using f clamp_deadline(1) [OF False] by (intro add_entry_ok [OF assms(1)]) auto
      then show ?thesis
        using assms(2) f ok slot unfolding Schedule_def if_not_P [OF False] Some p
        by (auto simp: Let_def add_entry_def split: if_splits)
    qed (use assms in \<open>auto simp: Schedule_def\<close>)
  qed
qed

lemma AdvanceTo_keeps:
  assumes "keeps_wheel call" "wheel_ok w" "AdvanceTo ok call now (world, w) = Advanced n s"
  shows "wheel_ok (snd s)"
proof (cases "tw_cursor_ms w < now")
  case True
  let ?w' = "(keep_entries (\<lambda>e. \<not> te_deadline_ms e \<le> now) w)\<lparr>tw_cursor_ms := now\<rparr>"
  have w': "wheel_ok ?w'" using assms(2) by (rule keep_later_ok)
  show ?thesis
  proof (cases ok)
    case True
    with assms(3) w' fire_loop_keeps [OF assms(1), of "(world, ?w')"] show ?thesis
      by (auto simp: AdvanceTo_fires(1) [OF assms(2) \<open>tw_cursor_ms w < now\<close>] split: option.splits)
  next
    case False
    with assms(3) w' show ?thesis
      by (auto simp: AdvanceTo_fires(2) [OF assms(2) \<open>tw_cursor_ms w < now\<close>] split: if_splits)
  qed
next
  case False
  with assms show ?thesis by (auto simp: AdvanceTo_def not_less)
qed

lemma wheel_step_ok: "wheel_good op \<Longrightarrow> live_ok s \<Longrightarrow> live_ok (wheel_step op s)"
  by (cases "(op, s)" rule: wheel_step.cases)
    (auto simp: live_ok_def Cancel_refines split: option.splits AdvanceResult.splits dest: Schedule_keeps AdvanceTo_keeps)

interpretation wheel: guarded_machine wheel_step wheel_good live_ok
  by unfold_locales (rule wheel_step_ok)

text \<open>
  C17: In every history of scheduling, cancelling and advancing, with callbacks that schedule and cancel
  while the due timers are being fired, the wheel stays consistent: every pending timer lies in the slot
  its deadline hashes to, is indexed there under a unique nonzero id, has a deadline after the current
  time, and \<open>PendingCount\<close> is the number of pending timers.\<close>

theorem timer_wheel_invariant:
  assumes "list_all wheel_good ops" "run wheel_step ops (Some (world, TimerWheel_init n)) = Some (world', w)"
  shows "wheel_ok w \<and> PendingCount w = card (dom (timers_of w))"
proof -
  have "live_ok (run wheel_step ops (Some (world, TimerWheel_init n)))"
    using assms(1) by (rule wheel.good_run_inv) (simp add: live_ok_def TimerWheel_init_ok)
  then have ok: "wheel_ok w" by (simp add: assms(2) live_ok_def)
  have "dom (timers_of w) = dom (tw_by_id w)" by (simp add: dom_def timers_of_None [OF ok] del: not_None_eq)
  also have "\<dots> = te_id ` set (entries w)" using ok by (simp add: wheel_ok_def)
  finally have "card (dom (timers_of w)) = length (entries w)"
    using ok by (metis wheel_ok_def distinct_card length_map list.set_map)
  with ok show ?thesis by (simp add: PendingCount_def wheel_ok_def)
qed

text \<open>A callback that cancels timer 2 and schedules its own successor.\<close>

definition sample_call :: "nat \<Rightarrow> unit \<times> nat TimerWheel \<Rightarrow> (unit \<times> nat TimerWheel) option" where
  "sample_call cb s = map_option (\<lambda>(r, w). ((), w)) (Schedule True True 0 (Some cb) (snd (Cancel 2 (snd s))))"

lemma sample_call_keeps: "keeps_wheel sample_call"
  by (auto simp: keeps_wheel_def sample_call_def dest: Schedule_keeps [OF Cancel_refines(3)])

theorem timer_wheel_invariant_witness:
  "\<exists>w. run wheel_step [OpSchedule True True 5 (Some 1), OpAdvance True sample_call 6] (Some ((), TimerWheel_init 1)) = Some ((), w) \<and>
     wheel_ok w \<and> PendingCount w = card (dom (timers_of w))"
proof -
  have r: "run wheel_step [OpSchedule True True 5 (Some 1), OpAdvance True sample_call 6] (Some ((), TimerWheel_init 1)) =
    Some ((), \<lparr>tw_slot_count = 1, tw_slots = [[timer 2 7 (Some 1)]], tw_by_id = [2 \<mapsto> 0], tw_next_id = 3,
      tw_cursor_ms = 6, tw_pending = 1\<rparr>)"
    by (simp add: TimerWheel_init_def Schedule_def find_id_free next_after_def AdvanceTo_def collect_due_def
        sample_call_def Cancel_def)
  show ?thesis
    by (rule exI, rule conjI, rule r, rule timer_wheel_invariant [OF _ r]) (simp add: sample_call_keeps)
qed

end
