(* ===== verification/TcpReceive.thy ===== *)
theory TcpReceive
  imports TcpSegment
begin

text \<open>
  The receive ring of a connection (\<open>src/tcp/receive.h\<close>, \<open>src/tcp/receive.cpp\<close>): a circular byte
  buffer with an occupancy bitmap, sequence numbers that wrap at 32 bits, selective
  acknowledgments and the delayed-ACK decision. \<open>std::int64_t\<close> offsets are \<open>int\<close>: they are sums of
  two values below 2^32 and do not overflow.
\<close>

section \<open>Data\<close>

definition kMaximumCapacity :: nat where
  "kMaximumCapacity = 0x7fffffff"

definition kHalfSequenceSpace :: u32 where
  "kHalfSequenceSpace = 0x80000000"

datatype ReceiveDisposition = Recv_Accepted | Recv_Duplicate | Recv_OutOfWindow | Recv_Invalid

datatype AckDecision = Ack_None | Ack_Delayed | Ack_Immediate

record TcpReceiveResult =
  rr_disposition :: ReceiveDisposition
  rr_ack_decision :: AckDecision
  rr_accepted_bytes :: nat
  rr_left_trimmed :: nat
  rr_right_trimmed :: nat
  rr_duplicate_bytes :: nat

definition TcpReceiveResult_init :: TcpReceiveResult where
  "TcpReceiveResult_init = \<lparr>rr_disposition = Recv_Invalid, rr_ack_decision = Ack_None, rr_accepted_bytes = 0,
     rr_left_trimmed = 0, rr_right_trimmed = 0, rr_duplicate_bytes = 0\<rparr>"

record TcpReceiveBuffer =
  rb_capacity :: nat
  rb_storage :: bytes
  rb_occupancy :: "u64 list"
  rb_first_undelivered :: u32
  rb_rcv_nxt :: u32
  rb_rcv_adv :: u32
  rb_first_index :: nat
  rb_bytes_held :: nat
  rb_ready_bytes :: nat
  rb_blocked :: bool
  rb_delayed_ack_pending :: bool
  rb_recent_sack :: TcpSackBlock
  rb_recent_sack_valid :: bool
  rb_fin_received :: bool

text \<open>The constructor; \<open>None\<close> is the exception of \<open>ValidateCapacity\<close>.\<close>

definition ValidateCapacity :: "nat \<Rightarrow> nat option" where
  "ValidateCapacity capacity = (if capacity = 0 \<or> capacity > kMaximumCapacity then None else Some capacity)"

definition TcpReceiveBuffer_init :: "nat \<Rightarrow> u32 \<Rightarrow> nat \<Rightarrow> TcpReceiveBuffer option" where
  "TcpReceiveBuffer_init capacity initial_sequence initial_advertised_window =
     (case ValidateCapacity capacity of
        None \<Rightarrow> None
      | Some cap \<Rightarrow> Some
          \<lparr>rb_capacity = cap, rb_storage = replicate cap 0, rb_occupancy = replicate ((cap + 63) div 64) 0,
           rb_first_undelivered = initial_sequence, rb_rcv_nxt = initial_sequence,
           rb_rcv_adv = initial_sequence + of_nat (if initial_advertised_window = 0 then cap
             else min initial_advertised_window cap),
           rb_first_index = 0, rb_bytes_held = 0, rb_ready_bytes = 0, rb_blocked = False,
           rb_delayed_ack_pending = False, rb_recent_sack = \<lparr>sb_left_edge = 0, sb_right_edge = 0\<rparr>,
           rb_recent_sack_valid = False, rb_fin_received = False\<rparr>)"

section \<open>Operations\<close>

text \<open>\<open>None\<close> is \<open>return false\<close>: the two numbers are half the sequence space apart.\<close>

definition SequenceOffset :: "u32 \<Rightarrow> u32 \<Rightarrow> int option" where
  "SequenceOffset sequence base =
     (let forward = sequence - base in
      if forward = kHalfSequenceSpace then None
      else if forward < kHalfSequenceSpace then Some (int (unat forward))
      else Some (- int (unat (base - sequence))))"

definition PhysicalIndex :: "TcpReceiveBuffer \<Rightarrow> nat \<Rightarrow> nat" where
  "PhysicalIndex b logical_offset =
     (let until_end = rb_capacity b - rb_first_index b in
      if logical_offset < until_end then rb_first_index b + logical_offset else logical_offset - until_end)"

definition Occupied :: "TcpReceiveBuffer \<Rightarrow> nat \<Rightarrow> bool" where
  "Occupied b physical_index \<longleftrightarrow>
     (rb_occupancy b ! (physical_index div 64)) AND push_bit (physical_index mod 64) 1 \<noteq> 0"

definition SetOccupied :: "nat \<Rightarrow> bool \<Rightarrow> TcpReceiveBuffer \<Rightarrow> TcpReceiveBuffer" where
  "SetOccupied physical_index occupied b =
     (let mask = push_bit (physical_index mod 64) 1;
          word = rb_occupancy b ! (physical_index div 64) in
      b\<lparr>rb_occupancy := (rb_occupancy b)[physical_index div 64 :=
          (if occupied then word OR mask else word AND NOT mask)]\<rparr>)"

definition AcceptableWindow :: "TcpReceiveBuffer \<Rightarrow> nat" where
  "AcceptableWindow b =
     (let forward = rb_rcv_adv b - rb_rcv_nxt b in
      if forward < kHalfSequenceSpace then min (unat forward) (rb_capacity b - rb_ready_bytes b) else 0)"

definition AdvertisedWindow :: "TcpReceiveBuffer \<Rightarrow> nat" where
  "AdvertisedWindow b = (if rb_blocked b then 0 else rb_capacity b - rb_bytes_held b)"

definition OutOfOrderBytes :: "TcpReceiveBuffer \<Rightarrow> nat" where
  "OutOfOrderBytes b = rb_bytes_held b - rb_ready_bytes b"

definition SetBlocked :: "bool \<Rightarrow> TcpReceiveBuffer \<Rightarrow> TcpReceiveBuffer" where
  "SetBlocked blocked b = b\<lparr>rb_blocked := blocked\<rparr>"

definition AckSent :: "TcpReceiveBuffer \<Rightarrow> TcpReceiveBuffer" where
  "AckSent b = b\<lparr>rb_delayed_ack_pending := False\<rparr>"

definition RecordAdvertisedWindow :: "nat \<Rightarrow> TcpReceiveBuffer \<Rightarrow> TcpReceiveBuffer" where
  "RecordAdvertisedWindow window b =
     (let bounded = min window (rb_capacity b - rb_ready_bytes b);
          candidate = rb_rcv_nxt b + of_nat bounded in
      case SequenceOffset candidate (rb_rcv_adv b) of
        None \<Rightarrow> b
      | Some advance \<Rightarrow> if advance > 0 then b\<lparr>rb_rcv_adv := candidate\<rparr> else b)"

definition IsSequenceAcceptable :: "u32 \<Rightarrow> nat \<Rightarrow> TcpReceiveBuffer \<Rightarrow> bool" where
  "IsSequenceAcceptable sequence segment_length b \<longleftrightarrow>
     (if segment_length > kMaximumCapacity then False
      else case SequenceOffset sequence (rb_rcv_nxt b) of
        None \<Rightarrow> False
      | Some begin_offset \<Rightarrow>
          let window = AcceptableWindow b in
          if window = 0 then segment_length = 0 \<and> begin_offset = 0
          else if segment_length = 0 then begin_offset \<ge> 0 \<and> nat begin_offset < window
          else
            let end_offset = begin_offset + int segment_length - 1 in
            begin_offset \<ge> 0 \<and> nat begin_offset < window \<or> end_offset \<ge> 0 \<and> nat end_offset < window)"

text \<open>
  The loop that stores the accepted bytes. \<open>seq\<close> is \<open>sequence + left_trimmed + i\<close> and \<open>logical\<close> is
  \<open>logical_offset + i\<close>; \<open>st_first_new\<close> is \<open>first_new_sequence\<close> once it is set.
\<close>

record store_state =
  st_buffer :: TcpReceiveBuffer
  st_duplicate_bytes :: nat
  st_accepted_bytes :: nat
  st_first_new :: "u32 option"

definition store_byte :: "u32 \<Rightarrow> nat \<Rightarrow> u8 \<Rightarrow> store_state \<Rightarrow> store_state" where
  "store_byte seq logical x st =
     (let b = st_buffer st; physical = PhysicalIndex b logical in
      if Occupied b physical then st\<lparr>st_duplicate_bytes := st_duplicate_bytes st + 1\<rparr>
      else
        let b = SetOccupied physical True (b\<lparr>rb_storage := (rb_storage b)[physical := x]\<rparr>) in
        st\<lparr>st_buffer := b\<lparr>rb_bytes_held := rb_bytes_held b + 1\<rparr>,
           st_accepted_bytes := st_accepted_bytes st + 1,
           st_first_new := (case st_first_new st of None \<Rightarrow> Some seq | Some s \<Rightarrow> Some s)\<rparr>)"

fun store_loop :: "u32 \<Rightarrow> nat \<Rightarrow> bytes \<Rightarrow> store_state \<Rightarrow> store_state" where
  "store_loop seq logical [] st = st"
| "store_loop seq logical (x # xs) st = store_loop (seq + 1) (logical + 1) xs (store_byte seq logical x st)"

function scan_up :: "TcpReceiveBuffer \<Rightarrow> nat \<Rightarrow> nat" where
  "scan_up b i = (if i < rb_capacity b \<and> Occupied b (PhysicalIndex b i) then scan_up b (i + 1) else i)"
  by pat_completeness auto
termination
  by (relation "measure (\<lambda>(b, i). rb_capacity b - i)") auto

declare scan_up.simps [simp del]

function scan_down :: "TcpReceiveBuffer \<Rightarrow> nat \<Rightarrow> nat" where
  "scan_down b i =
     (if i > rb_ready_bytes b \<and> Occupied b (PhysicalIndex b (i - 1)) then scan_down b (i - 1) else i)"
  by pat_completeness auto
termination
  by (relation "measure (\<lambda>(b, i). i)") auto

declare scan_down.simps [simp del]

definition advance_ready :: "TcpReceiveBuffer \<Rightarrow> TcpReceiveBuffer" where
  "advance_ready b =
     (let ready = scan_up b (rb_ready_bytes b) in
      b\<lparr>rb_ready_bytes := ready, rb_rcv_nxt := rb_rcv_nxt b + of_nat (ready - rb_ready_bytes b)\<rparr>)"

definition note_recent_sack :: "u32 \<Rightarrow> TcpReceiveBuffer \<Rightarrow> TcpReceiveBuffer" where
  "note_recent_sack trigger_sequence b =
     (let trigger_offset = trigger_sequence - rb_rcv_nxt b in
      if trigger_offset \<noteq> 0 \<and> trigger_offset < kHalfSequenceSpace then
        let block_begin = scan_down b (rb_ready_bytes b + unat trigger_offset);
            block_end = scan_up b (rb_ready_bytes b + unat trigger_offset + 1) in
        b\<lparr>rb_recent_sack :=
            \<lparr>sb_left_edge = rb_rcv_nxt b + of_nat (block_begin - rb_ready_bytes b),
             sb_right_edge = rb_rcv_nxt b + of_nat (block_end - rb_ready_bytes b)\<rparr>,
          rb_recent_sack_valid := True\<rparr>
      else b)"

definition store_segment ::
  "u32 \<Rightarrow> nat \<Rightarrow> bytes \<Rightarrow> bool \<Rightarrow> TcpReceiveResult \<Rightarrow> TcpReceiveBuffer \<Rightarrow> TcpReceiveResult \<times> TcpReceiveBuffer" where
  "store_segment sequence window_offset candidate psh result b =
     (let left_trimmed = rr_left_trimmed result;
          first_sequence = sequence + of_nat left_trimmed;
          st = store_loop first_sequence (rb_ready_bytes b + window_offset) candidate
                 \<lparr>st_buffer = b, st_duplicate_bytes = 0, st_accepted_bytes = 0, st_first_new = None\<rparr>;
          result = result\<lparr>rr_duplicate_bytes := st_duplicate_bytes st, rr_accepted_bytes := st_accepted_bytes st,
                     rr_disposition := (if st_accepted_bytes st = 0 then Recv_Duplicate else Recv_Accepted)\<rparr>;
          b1 = advance_ready (st_buffer st);
          advanced = rb_ready_bytes b1 - rb_ready_bytes b;
          b2 = (if window_offset > 0
                then note_recent_sack (case st_first_new st of Some s \<Rightarrow> s | None \<Rightarrow> first_sequence) b1
                else b1);
          out_of_order = window_offset > 0;
          overlap = (left_trimmed \<noteq> 0 \<or> rr_duplicate_bytes result \<noteq> 0);
          gap_fill = advanced > rr_accepted_bytes result;
          immediate = (rb_blocked b \<or> out_of_order \<or> overlap \<or> rr_right_trimmed result \<noteq> 0 \<or> gap_fill \<or> psh \<or>
                       rr_accepted_bytes result = 0) in
      if immediate \<or> rb_delayed_ack_pending b2
      then (result\<lparr>rr_ack_decision := Ack_Immediate\<rparr>, b2\<lparr>rb_delayed_ack_pending := False\<rparr>)
      else (result\<lparr>rr_ack_decision := Ack_Delayed\<rparr>, b2\<lparr>rb_delayed_ack_pending := True\<rparr>))"

text \<open>A segment that is not stored is acknowledged immediately.\<close>

definition reject_segment ::
  "bool \<Rightarrow> nat \<Rightarrow> nat \<Rightarrow> TcpReceiveBuffer \<Rightarrow> TcpReceiveResult \<times> TcpReceiveBuffer" where
  "reject_segment duplicate left right b =
     (TcpReceiveResult_init\<lparr>rr_disposition := (if duplicate then Recv_Duplicate else Recv_OutOfWindow),
        rr_ack_decision := Ack_Immediate, rr_left_trimmed := left, rr_right_trimmed := right\<rparr>,
      b\<lparr>rb_delayed_ack_pending := False\<rparr>)"

definition trim_segment ::
  "u32 \<Rightarrow> int \<Rightarrow> bytes \<Rightarrow> bool \<Rightarrow> TcpReceiveBuffer \<Rightarrow> TcpReceiveResult \<times> TcpReceiveBuffer" where
  "trim_segment sequence segment_begin d psh b =
     (let len = length d;
          segment_end = segment_begin + int len;
          window_end = int (AcceptableWindow b);
          left_trimmed = (if segment_begin < 0 then min len (nat (- segment_begin)) else 0);
          accepted_begin = max 0 segment_begin;
          accepted_end = min segment_end window_end;
          candidate_bytes = (if accepted_end > accepted_begin then nat (accepted_end - accepted_begin) else 0);
          right_trimmed = len - left_trimmed - candidate_bytes in
      if candidate_bytes = 0 then reject_segment (segment_end \<le> 0) left_trimmed right_trimmed b
      else store_segment sequence (nat accepted_begin) (slice left_trimmed candidate_bytes d) psh
             (TcpReceiveResult_init\<lparr>rr_left_trimmed := left_trimmed, rr_right_trimmed := right_trimmed\<rparr>) b)"

definition OnSegment ::
  "u32 \<Rightarrow> bytes option \<Rightarrow> bool \<Rightarrow> TcpReceiveBuffer \<Rightarrow> TcpReceiveResult \<times> TcpReceiveBuffer" where
  "OnSegment sequence data psh b =
     (case data of
        None \<Rightarrow> (TcpReceiveResult_init, b)
      | Some d \<Rightarrow>
          let len = length d in
          if len = 0 \<or> len > kMaximumCapacity then (TcpReceiveResult_init, b)
          else case SequenceOffset sequence (rb_rcv_nxt b) of
            None \<Rightarrow> reject_segment False 0 len b
          | Some segment_begin \<Rightarrow>
              if \<not> IsSequenceAcceptable sequence len b then
                (if segment_begin + int len \<le> 0 then reject_segment True len 0 b
                 else reject_segment False 0 len b)
              else trim_segment sequence segment_begin d psh b)"

definition ReadyView :: "TcpReceiveBuffer \<Rightarrow> bytes" where
  "ReadyView b =
     (if rb_ready_bytes b = 0 then []
      else slice (rb_first_index b) (min (rb_ready_bytes b) (rb_capacity b - rb_first_index b)) (rb_storage b))"

fun release_loop :: "nat \<Rightarrow> nat \<Rightarrow> TcpReceiveBuffer \<Rightarrow> TcpReceiveBuffer" where
  "release_loop i 0 b = b"
| "release_loop i (Suc n) b = release_loop (i + 1) n (SetOccupied (PhysicalIndex b i) False b)"

definition ConsumeReady :: "nat \<Rightarrow> TcpReceiveBuffer \<Rightarrow> nat \<times> TcpReceiveBuffer" where
  "ConsumeReady len b =
     (let consumed = min len (rb_ready_bytes b);
          b' = release_loop 0 consumed b in
      (consumed, b'\<lparr>rb_first_undelivered := rb_first_undelivered b' + of_nat consumed,
                    rb_first_index := PhysicalIndex b' consumed,
                    rb_bytes_held := rb_bytes_held b' - consumed,
                    rb_ready_bytes := rb_ready_bytes b' - consumed\<rparr>))"

definition ConsumeFin :: "TcpReceiveBuffer \<Rightarrow> TcpReceiveBuffer" where
  "ConsumeFin b = b\<lparr>rb_rcv_nxt := rb_rcv_nxt b + 1, rb_fin_received := True\<rparr>"

text \<open>The SACK list: the most recent block if it is still complete, then a scan of the ring.\<close>

definition recent_complete :: "TcpReceiveBuffer \<Rightarrow> bool" where
  "recent_complete b \<longleftrightarrow>
     (let width = sb_right_edge (rb_recent_sack b) - sb_left_edge (rb_recent_sack b);
          offset = sb_left_edge (rb_recent_sack b) - rb_rcv_nxt b;
          logical_begin = rb_ready_bytes b + unat offset in
      rb_recent_sack_valid b \<and> offset < kHalfSequenceSpace \<and> width \<noteq> 0 \<and>
      list_all (\<lambda>i. logical_begin + i < rb_capacity b \<and> Occupied b (PhysicalIndex b (logical_begin + i)))
        [0..<unat width])"

function scan_gap :: "TcpReceiveBuffer \<Rightarrow> nat \<Rightarrow> nat" where
  "scan_gap b i = (if i < rb_capacity b \<and> \<not> Occupied b (PhysicalIndex b i) then scan_gap b (i + 1) else i)"
  by pat_completeness auto
termination
  by (relation "measure (\<lambda>(b, i). rb_capacity b - i)") auto

declare scan_gap.simps [simp del]

lemma scan_ge: "i \<le> scan_up b i" "i \<le> scan_gap b i"
proof -
  show "i \<le> scan_up b i"
    by (induction b i rule: scan_up.induct) (subst scan_up.simps, force)
  show "i \<le> scan_gap b i"
    by (induction b i rule: scan_gap.induct) (subst scan_gap.simps, force)
qed

lemma scan_gap_hit: "scan_gap b i < rb_capacity b \<Longrightarrow> Occupied b (PhysicalIndex b (scan_gap b i))"
  by (induction b i rule: scan_gap.induct) (metis scan_gap.simps)

lemma scan_up_step: "i < rb_capacity b \<Longrightarrow> Occupied b (PhysicalIndex b i) \<Longrightarrow> i < scan_up b i"
  using scan_ge(1) [of "i + 1" b] by (subst scan_up.simps) simp

function sack_scan :: "TcpReceiveBuffer \<Rightarrow> nat \<Rightarrow> nat \<Rightarrow> nat \<Rightarrow> TcpSackBlockList \<Rightarrow> TcpSackBlockList" where
  "sack_scan b limit logical remaining result =
     (if logical < rb_capacity b \<and> length result < limit \<and> remaining \<noteq> 0 then
        let block_begin = scan_gap b logical in
        if block_begin \<ge> rb_capacity b then result
        else
          let block_end = scan_up b block_begin;
              block = \<lparr>sb_left_edge = rb_rcv_nxt b + of_nat (block_begin - rb_ready_bytes b),
                       sb_right_edge = rb_rcv_nxt b + of_nat (block_end - rb_ready_bytes b)\<rparr> in
          sack_scan b limit block_end (remaining - (block_end - block_begin))
            (if result \<noteq> [] \<and> block = result ! 0 then result else result @ [block])
      else result)"
  by pat_completeness auto
termination
proof (relation "measure (\<lambda>(b, limit, logical, remaining, result). rb_capacity b - logical)", goal_cases)
  case (2 b limit logical remaining result x xa xb)
  then show ?case using scan_ge(2) [of logical b] scan_gap_hit [of b logical] scan_up_step [of x b] by fastforce
qed simp

declare sack_scan.simps [simp del]

definition SackBlocks :: "nat \<Rightarrow> TcpReceiveBuffer \<Rightarrow> TcpSackBlockList" where
  "SackBlocks max_blocks b =
     (let limit = min max_blocks 4 in
      if limit = 0 then []
      else sack_scan b limit (rb_ready_bytes b) (OutOfOrderBytes b)
             (if recent_complete b then [rb_recent_sack b] else []))"

end
