(* ===== verification/TcpReceiveCorrect.thy ===== *)
theory TcpReceiveCorrect
  imports TcpReceive Machine
begin

text \<open>
  Correctness of the receive ring. The ring is read through \<open>content\<close>, a partial function from the
  offsets of the window to bytes: storing fills the holes of a range, consuming shifts the window.
  On top of it stand the invariant of the ring for arbitrary segments and the stream theorem: what
  the ring hands out is the byte stream of the peer, in order and without gaps, across wrap-around
  of the sequence numbers.
\<close>

section \<open>The occupancy bitmap\<close>

text \<open>The contract of a set of flags that is updated one flag at a time, and its use for ranges.\<close>

locale flag_array =
  fixes test :: "'s \<Rightarrow> nat \<Rightarrow> bool" and assign :: "nat \<Rightarrow> bool \<Rightarrow> 's \<Rightarrow> 's" and ok :: "nat \<Rightarrow> 's \<Rightarrow> bool"
  assumes assign_ok: "ok n s \<Longrightarrow> ok n (assign i v s)"
    and test_assign: "ok n s \<Longrightarrow> i < n \<Longrightarrow> j < n \<Longrightarrow> test (assign i v s) j = (if i = j then v else test s j)"
begin

lemma fold_assign:
  "ok n s \<Longrightarrow> set is \<subseteq> {..<n} \<Longrightarrow> j < n \<Longrightarrow>
     ok n (fold (\<lambda>i. assign i v) is s) \<and>
     test (fold (\<lambda>i. assign i v) is s) j = (if j \<in> set is then v else test s j)"
  by (induction "is" arbitrary: s) (auto simp: assign_ok test_assign)

end

definition bitmap_ok :: "nat \<Rightarrow> TcpReceiveBuffer \<Rightarrow> bool" where
  "bitmap_ok n b \<longleftrightarrow> length (rb_occupancy b) = (n + 63) div 64"

lemma Occupied_bit: "Occupied b i \<longleftrightarrow> bit (rb_occupancy b ! (i div 64)) (i mod 64)"
  by (simp add: Occupied_def bit_iff_and_push_bit_not_eq_0)

lemma bit_set_word:
  assumes "k < 64" "m < 64"
  shows "bit ((w::u64) OR push_bit k 1) m \<longleftrightarrow> m = k \<or> bit w m"
    "bit (w AND NOT (push_bit k 1)) m \<longleftrightarrow> m \<noteq> k \<and> bit w m"
  using assms by (auto simp: bit_simps)

interpretation bitmap: flag_array Occupied SetOccupied bitmap_ok
proof
  fix n i j v b
  show "bitmap_ok n b \<Longrightarrow> bitmap_ok n (SetOccupied i v b)"
    by (simp add: bitmap_ok_def SetOccupied_def Let_def)
  assume ok: "bitmap_ok n b" and ij: "i < n" "j < n"
  have len: "i div 64 < length (rb_occupancy b)"
    using ok ij by (simp add: bitmap_ok_def)
  show "Occupied (SetOccupied i v b) j = (if i = j then v else Occupied b j)"
  proof (cases "i div 64 = j div 64")
    case True
    then have "i = j \<longleftrightarrow> j mod 64 = i mod 64" by (metis div_mult_mod_eq)
    then show ?thesis
      using True len bit_set_word [of "i mod 64" "j mod 64" "rb_occupancy b ! (i div 64)"]
      by (auto simp: Occupied_bit SetOccupied_def Let_def)
  next
    case False
    then have "i \<noteq> j" by auto
    with False show ?thesis by (simp add: Occupied_bit SetOccupied_def Let_def)
  qed
qed

section \<open>The ring\<close>

definition ring_ok :: "TcpReceiveBuffer \<Rightarrow> bool" where
  "ring_ok b \<longleftrightarrow> 0 < rb_capacity b \<and> rb_capacity b \<le> kMaximumCapacity \<and>
     length (rb_storage b) = rb_capacity b \<and> bitmap_ok (rb_capacity b) b \<and>
     rb_first_index b < rb_capacity b"

lemma PhysicalIndex_less: "ring_ok b \<Longrightarrow> l < rb_capacity b \<Longrightarrow> PhysicalIndex b l < rb_capacity b"
  by (auto simp: ring_ok_def PhysicalIndex_def Let_def)

lemma PhysicalIndex_inj:
  "ring_ok b \<Longrightarrow> l < rb_capacity b \<Longrightarrow> m < rb_capacity b \<Longrightarrow> PhysicalIndex b l = PhysicalIndex b m \<longleftrightarrow> l = m"
  by (auto simp: ring_ok_def PhysicalIndex_def Let_def split: if_splits)

lemma PhysicalIndex_cong:
  "rb_capacity b' = rb_capacity b \<Longrightarrow> rb_first_index b' = rb_first_index b \<Longrightarrow> PhysicalIndex b' = PhysicalIndex b"
  by (simp add: PhysicalIndex_def fun_eq_iff Let_def)

text \<open>The window as a partial function: the byte at an offset from the first undelivered byte.\<close>

definition content :: "TcpReceiveBuffer \<Rightarrow> nat \<Rightarrow> u8 option" where
  "content b l =
     (if l < rb_capacity b \<and> Occupied b (PhysicalIndex b l) then Some (rb_storage b ! PhysicalIndex b l) else None)"

lemma content_None: "l < rb_capacity b \<Longrightarrow> content b l = None \<longleftrightarrow> \<not> Occupied b (PhysicalIndex b l)"
  by (simp add: content_def)

text \<open>What storing bytes leaves alone.\<close>

definition same_frame :: "TcpReceiveBuffer \<Rightarrow> TcpReceiveBuffer \<Rightarrow> bool" where
  "same_frame b b' \<longleftrightarrow> (\<exists>s oc h. b' = b\<lparr>rb_storage := s, rb_occupancy := oc, rb_bytes_held := h\<rparr>)"

lemma same_frame_fields:
  assumes "same_frame b b'"
  shows "rb_capacity b' = rb_capacity b" "rb_first_index b' = rb_first_index b"
    "rb_ready_bytes b' = rb_ready_bytes b" "rb_rcv_nxt b' = rb_rcv_nxt b" "rb_rcv_adv b' = rb_rcv_adv b"
    "rb_first_undelivered b' = rb_first_undelivered b" "rb_blocked b' = rb_blocked b"
    "rb_delayed_ack_pending b' = rb_delayed_ack_pending b" "rb_fin_received b' = rb_fin_received b"
  using assms by (auto simp: same_frame_def)

lemma same_frame_trans: "same_frame a b \<Longrightarrow> same_frame b c \<Longrightarrow> same_frame a c"
  by (fastforce simp: same_frame_def)

lemma same_frame_refl: "same_frame b b"
  unfolding same_frame_def by (intro exI [of _ "rb_storage b"] exI [of _ "rb_occupancy b"] exI [of _ "rb_bytes_held b"]) simp

text \<open>The number of bytes in the window.\<close>

definition held :: "TcpReceiveBuffer \<Rightarrow> nat set" where
  "held b = {l. l < rb_capacity b \<and> Occupied b (PhysicalIndex b l)}"

lemma finite_held [simp]: "finite (held b)"
  by (simp add: held_def)

definition recv_inv :: "TcpReceiveBuffer \<Rightarrow> bool" where
  "recv_inv b \<longleftrightarrow> ring_ok b \<and> rb_ready_bytes b \<le> rb_capacity b \<and> {..<rb_ready_bytes b} \<subseteq> held b \<and>
     rb_ready_bytes b \<notin> held b \<and> rb_bytes_held b = card (held b)"

section \<open>Storing\<close>

lemma store_byte_new:
  fixes seq :: u32 and l :: nat and x :: u8 and st :: store_state
  assumes "ring_ok (st_buffer st)" "l < rb_capacity (st_buffer st)"
    "\<not> Occupied (st_buffer st) (PhysicalIndex (st_buffer st) l)"
  defines "b \<equiv> st_buffer st" and "b' \<equiv> st_buffer (store_byte seq l x st)"
  shows "ring_ok b'" "same_frame b b'" "content b' = (content b)(l \<mapsto> x)" "held b' = insert l (held b)"
    "rb_bytes_held b' = rb_bytes_held b + 1"
proof -
  let ?p = "PhysicalIndex b l"
  have p: "?p < rb_capacity b" using assms(1,2) PhysicalIndex_less b_def by blast
  have b': "b' = (SetOccupied ?p True (b\<lparr>rb_storage := (rb_storage b)[?p := x]\<rparr>))\<lparr>rb_bytes_held := rb_bytes_held b + 1\<rparr>"
    using assms(3) by (simp add: b'_def b_def store_byte_def Let_def SetOccupied_def)
  then show frame: "same_frame b b'" by (auto simp: same_frame_def SetOccupied_def Let_def)
  show "rb_bytes_held b' = rb_bytes_held b + 1" by (simp add: b')
  have ring: "ring_ok b" using assms(1) b_def by simp
  then show "ring_ok b'"
    by (simp add: b' ring_ok_def bitmap_ok_def SetOccupied_def Let_def)
  have occ: "Occupied b' j = (j = ?p \<or> Occupied b j)" if "j < rb_capacity b" for j
  proof -
    let ?s = "b\<lparr>rb_storage := (rb_storage b)[?p := x]\<rparr>"
    have "bitmap_ok (rb_capacity b) ?s" using ring by (simp add: ring_ok_def bitmap_ok_def)
    from bitmap.test_assign [OF this p that, of True] show ?thesis
      by (auto simp: b' Occupied_def SetOccupied_def Let_def)
  qed
  have idx: "PhysicalIndex b' = PhysicalIndex b" using frame by (intro PhysicalIndex_cong) (simp_all add: same_frame_fields)
  have cap: "rb_capacity b' = rb_capacity b" using frame by (simp add: same_frame_fields)
  have st: "rb_storage b' = (rb_storage b)[?p := x]" by (simp add: b' SetOccupied_def Let_def)
  show "held b' = insert l (held b)"
    using ring assms(2) by (auto simp: held_def cap idx occ PhysicalIndex_less PhysicalIndex_inj b_def)
  show "content b' = (content b)(l \<mapsto> x)"
  proof
    fix m
    show "content b' m = ((content b)(l \<mapsto> x)) m"
      using ring assms(2) p PhysicalIndex_less [OF ring, of m] PhysicalIndex_inj [OF ring, of m l]
      by (auto simp: content_def cap idx occ st ring_ok_def b_def nth_list_update)
  qed
qed

text \<open>Filling the holes of a range.\<close>

definition fill :: "nat \<Rightarrow> bytes \<Rightarrow> (nat \<Rightarrow> u8 option) \<Rightarrow> nat \<Rightarrow> u8 option" where
  "fill l xs c m =
     (case c m of Some y \<Rightarrow> Some y | None \<Rightarrow> if l \<le> m \<and> m < l + length xs then Some (xs ! (m - l)) else None)"

lemma fill_Cons:
  "fill l (x # xs) c = fill (l + 1) xs (case c l of None \<Rightarrow> c(l \<mapsto> x) | Some y \<Rightarrow> c)"
proof
  fix m
  show "fill l (x # xs) c m = fill (l + 1) xs (case c l of None \<Rightarrow> c(l \<mapsto> x) | Some y \<Rightarrow> c) m"
    by (cases "m = l"; cases "c l") (auto simp: fill_def nth_Cons' split: option.splits)
qed

definition stored_ok :: "store_state \<Rightarrow> nat \<Rightarrow> bytes \<Rightarrow> store_state \<Rightarrow> bool" where
  "stored_ok st l xs st' \<longleftrightarrow>
     ring_ok (st_buffer st') \<and> same_frame (st_buffer st) (st_buffer st') \<and>
     content (st_buffer st') = fill l xs (content (st_buffer st)) \<and>
     held (st_buffer st') = held (st_buffer st) \<union> {l..<l + length xs} \<and>
     rb_bytes_held (st_buffer st') + st_accepted_bytes st = rb_bytes_held (st_buffer st) + st_accepted_bytes st' \<and>
     card (held (st_buffer st')) + st_accepted_bytes st = card (held (st_buffer st)) + st_accepted_bytes st' \<and>
     st_accepted_bytes st' + st_duplicate_bytes st' = st_accepted_bytes st + st_duplicate_bytes st + length xs"

lemma store_loop_ok:
  "ring_ok (st_buffer st) \<Longrightarrow> l + length xs \<le> rb_capacity (st_buffer st) \<Longrightarrow>
     stored_ok st l xs (store_loop seq l xs st)"
proof (induction xs arbitrary: st l seq)
  case Nil
  then show ?case by (auto simp: stored_ok_def same_frame_refl fill_def fun_eq_iff split: option.splits)
next
  case (Cons x xs)
  let ?b = "st_buffer st" and ?st = "store_byte seq l x st"
  have l: "l < rb_capacity ?b" using Cons.prems by simp
  have un: "H \<union> {l..<l + length (x # xs)} = insert l H \<union> {l + 1..<l + 1 + length xs}" for H by auto
  show ?case
  proof (cases "Occupied ?b (PhysicalIndex ?b l)")
    case True
    then have st: "st_buffer ?st = ?b" "st_accepted_bytes ?st = st_accepted_bytes st"
      "st_duplicate_bytes ?st = st_duplicate_bytes st + 1"
      by (simp_all add: store_byte_def Let_def)
    have "stored_ok ?st (l + 1) xs (store_loop (seq + 1) (l + 1) xs ?st)"
      using Cons.prems st by (intro Cons.IH) simp_all
    moreover have "l \<in> held ?b" "content ?b l \<noteq> None" using True l by (auto simp: held_def content_def)
    ultimately show ?thesis unfolding stored_ok_def un by (auto simp: st fill_Cons insert_absorb)
  next
    case False
    note new = store_byte_new [OF Cons.prems(1) l False, of seq x]
    have st: "st_accepted_bytes ?st = st_accepted_bytes st + 1" "st_duplicate_bytes ?st = st_duplicate_bytes st"
      using False by (simp_all add: store_byte_def Let_def)
    have "stored_ok ?st (l + 1) xs (store_loop (seq + 1) (l + 1) xs ?st)"
      using Cons.prems new(1) same_frame_fields(1) [OF new(2)] by (intro Cons.IH) simp_all
    moreover have "l \<notin> held ?b" "content ?b l = None" using False by (auto simp: held_def content_def)
    ultimately show ?thesis
      using same_frame_trans [OF new(2)] unfolding stored_ok_def un by (auto simp: st new fill_Cons)
  qed
qed

section \<open>The effect of a segment\<close>

lemma window_cong:
  assumes "rb_capacity b' = rb_capacity b" "rb_first_index b' = rb_first_index b"
    "rb_occupancy b' = rb_occupancy b" "rb_storage b' = rb_storage b"
  shows "held b' = held b" "content b' = content b" "ring_ok b' = ring_ok b"
proof -
  have "PhysicalIndex b' = PhysicalIndex b" using assms(1,2) by (rule PhysicalIndex_cong)
  moreover have "\<And>i. Occupied b' i = Occupied b i" using assms(3) by (simp add: Occupied_def)
  ultimately show "held b' = held b" "content b' = content b" "ring_ok b' = ring_ok b"
    using assms by (simp_all add: held_def content_def fun_eq_iff ring_ok_def bitmap_ok_def)
qed

lemma scan_up_spec:
  "(\<forall>j. i \<le> j \<and> j < scan_up b i \<longrightarrow> j \<in> held b) \<and> scan_up b i \<notin> held b \<and>
   (i \<le> rb_capacity b \<longrightarrow> scan_up b i \<le> rb_capacity b)"
proof (induction b i rule: scan_up.induct)
  case (1 b i)
  show ?case
  proof (cases "i \<in> held b")
    case True
    then have "i < rb_capacity b" "Occupied b (PhysicalIndex b i)" by (simp_all add: held_def)
    with 1 True show ?thesis
      by (simp add: scan_up.simps [of b i]) (metis Suc_leI le_neq_implies_less)
  next
    case False
    then show ?thesis by (auto simp: scan_up.simps [of b i] held_def)
  qed
qed

lemma advance_ready_inv:
  assumes "ring_ok b" "rb_ready_bytes b \<le> rb_capacity b" "{..<rb_ready_bytes b} \<subseteq> held b"
    "rb_bytes_held b = card (held b)"
  shows "recv_inv (advance_ready b)"
proof -
  have w: "held (advance_ready b) = held b" "ring_ok (advance_ready b) = ring_ok b"
    by (rule window_cong; simp add: advance_ready_def Let_def)+
  have f: "rb_ready_bytes (advance_ready b) = scan_up b (rb_ready_bytes b)"
    "rb_capacity (advance_ready b) = rb_capacity b" "rb_bytes_held (advance_ready b) = rb_bytes_held b"
    by (simp_all add: advance_ready_def Let_def)
  have "{..<scan_up b (rb_ready_bytes b)} \<subseteq> held b"
    using assms(3) scan_up_spec [of "rb_ready_bytes b" b] by (metis lessThan_iff not_le subset_iff)
  then show ?thesis
    using assms scan_up_spec [of "rb_ready_bytes b" b] by (simp add: recv_inv_def w f)
qed

text \<open>What the ring does with bytes \<open>xs\<close> for the window offset \<open>l\<close>.\<close>

definition seg_effect :: "TcpReceiveBuffer \<Rightarrow> nat \<Rightarrow> bytes \<Rightarrow> TcpReceiveBuffer \<Rightarrow> bool" where
  "seg_effect b l xs b' \<longleftrightarrow>
     recv_inv b' \<and> content b' = fill l xs (content b) \<and> rb_capacity b' = rb_capacity b \<and>
     rb_first_index b' = rb_first_index b \<and> rb_first_undelivered b' = rb_first_undelivered b \<and>
     rb_rcv_adv b' = rb_rcv_adv b \<and> rb_ready_bytes b \<le> rb_ready_bytes b' \<and>
     rb_rcv_nxt b' = rb_rcv_nxt b + of_nat (rb_ready_bytes b' - rb_ready_bytes b) \<and>
     rb_fin_received b' = rb_fin_received b"

lemma fill_Nil [simp]: "fill l [] c = c"
  by (auto simp: fill_def fun_eq_iff split: option.splits)

lemma recv_inv_cong:
  assumes "rb_capacity b' = rb_capacity b" "rb_first_index b' = rb_first_index b"
    "rb_occupancy b' = rb_occupancy b" "rb_storage b' = rb_storage b"
    "rb_ready_bytes b' = rb_ready_bytes b" "rb_bytes_held b' = rb_bytes_held b"
  shows "recv_inv b' = recv_inv b"
  using window_cong [OF assms(1-4)] assms(5,6,1) by (simp add: recv_inv_def)

lemma seg_effect_flags:
  "seg_effect b l xs b' \<Longrightarrow>
     seg_effect b l xs (b'\<lparr>rb_delayed_ack_pending := v\<rparr>) \<and>
     seg_effect b l xs (b'\<lparr>rb_recent_sack := k, rb_recent_sack_valid := w\<rparr>)"
  using window_cong(2) [of "b'\<lparr>rb_delayed_ack_pending := v\<rparr>" b']
    window_cong(2) [of "b'\<lparr>rb_recent_sack := k, rb_recent_sack_valid := w\<rparr>" b']
    recv_inv_cong [of "b'\<lparr>rb_delayed_ack_pending := v\<rparr>" b']
    recv_inv_cong [of "b'\<lparr>rb_recent_sack := k, rb_recent_sack_valid := w\<rparr>" b']
  by (simp add: seg_effect_def)

lemma note_recent_sack_effect: "seg_effect b l xs b' \<Longrightarrow> seg_effect b l xs (note_recent_sack t b')"
  using seg_effect_flags by (simp add: note_recent_sack_def Let_def)

lemma reject_segment_effect: "recv_inv b \<Longrightarrow> seg_effect b l [] (snd (reject_segment dup left right b))"
  using seg_effect_flags [of b l "[]" b False] by (simp add: reject_segment_def seg_effect_def)

lemma store_segment_effect:
  assumes "recv_inv b" "rb_ready_bytes b + w + length xs \<le> rb_capacity b"
  shows "seg_effect b (rb_ready_bytes b + w) xs (snd (store_segment seq w xs psh r b))"
    "rr_accepted_bytes (fst (store_segment seq w xs psh r b)) +
       rr_duplicate_bytes (fst (store_segment seq w xs psh r b)) = length xs"
    "rr_left_trimmed (fst (store_segment seq w xs psh r b)) = rr_left_trimmed r"
    "rr_right_trimmed (fst (store_segment seq w xs psh r b)) = rr_right_trimmed r"
    "rb_bytes_held (snd (store_segment seq w xs psh r b)) =
       rb_bytes_held b + rr_accepted_bytes (fst (store_segment seq w xs psh r b))"
    "rr_disposition (fst (store_segment seq w xs psh r b)) =
       (if rr_accepted_bytes (fst (store_segment seq w xs psh r b)) = 0 then Recv_Duplicate else Recv_Accepted)"
proof -
  let ?st0 = "\<lparr>st_buffer = b, st_duplicate_bytes = 0, st_accepted_bytes = 0, st_first_new = None\<rparr>"
  define st where "st = store_loop (seq + of_nat (rr_left_trimmed r)) (rb_ready_bytes b + w) xs ?st0"
  have ok: "stored_ok ?st0 (rb_ready_bytes b + w) xs st"
    unfolding st_def using assms by (intro store_loop_ok) (simp_all add: recv_inv_def)
  define b0 where "b0 = st_buffer st"
  have frame: "same_frame b b0" using ok by (simp add: stored_ok_def b0_def)
  have inv: "recv_inv (advance_ready b0)"
    using ok assms(1) same_frame_fields [OF frame] unfolding b0_def
    by (intro advance_ready_inv) (auto simp: stored_ok_def recv_inv_def)
  have c: "content (advance_ready b0) = content b0" by (rule window_cong) (simp_all add: advance_ready_def Let_def)
  have "seg_effect b (rb_ready_bytes b + w) xs (advance_ready b0)"
    using ok inv same_frame_fields [OF frame] scan_ge(1) [of "rb_ready_bytes b" b0] unfolding seg_effect_def c
    by (simp add: stored_ok_def b0_def [symmetric] advance_ready_def Let_def)
  then show "seg_effect b (rb_ready_bytes b + w) xs (snd (store_segment seq w xs psh r b))"
    unfolding store_segment_def Let_def st_def [symmetric] b0_def [symmetric]
    by (auto intro!: seg_effect_flags [THEN conjunct1] note_recent_sack_effect)
  have held: "rb_bytes_held (note_recent_sack t (advance_ready b0)) = rb_bytes_held b0"
    "rb_bytes_held (advance_ready b0) = rb_bytes_held b0" for t
    by (simp_all add: note_recent_sack_def advance_ready_def Let_def)
  have count: "rb_bytes_held b0 = rb_bytes_held b + st_accepted_bytes st"
    using ok by (simp add: stored_ok_def b0_def)
  show "rb_bytes_held (snd (store_segment seq w xs psh r b)) =
       rb_bytes_held b + rr_accepted_bytes (fst (store_segment seq w xs psh r b))"
    unfolding store_segment_def Let_def st_def [symmetric] b0_def [symmetric] by (simp add: held count)
  show "rr_disposition (fst (store_segment seq w xs psh r b)) =
       (if rr_accepted_bytes (fst (store_segment seq w xs psh r b)) = 0 then Recv_Duplicate else Recv_Accepted)"
    unfolding store_segment_def Let_def by simp
  show "rr_accepted_bytes (fst (store_segment seq w xs psh r b)) +
       rr_duplicate_bytes (fst (store_segment seq w xs psh r b)) = length xs"
    "rr_left_trimmed (fst (store_segment seq w xs psh r b)) = rr_left_trimmed r"
    "rr_right_trimmed (fst (store_segment seq w xs psh r b)) = rr_right_trimmed r"
    using ok unfolding store_segment_def Let_def st_def [symmetric] by (simp_all add: stored_ok_def)
qed

text \<open>The bytes that are stored are bytes of the segment, at the offset of their sequence number.\<close>

definition carries :: "TcpReceiveBuffer \<Rightarrow> u32 \<Rightarrow> bytes \<Rightarrow> nat \<Rightarrow> bytes \<Rightarrow> bool" where
  "carries b sequence d l xs \<longleftrightarrow>
     (\<exists>begin_offset k. SequenceOffset sequence (rb_rcv_nxt b) = Some begin_offset \<and>
        k + length xs \<le> length d \<and> xs = slice k (length xs) d \<and>
        int l = int (rb_ready_bytes b) + begin_offset + int k)"

lemma AcceptableWindow_le: "AcceptableWindow b \<le> rb_capacity b - rb_ready_bytes b"
  by (simp add: AcceptableWindow_def Let_def)

definition accounted :: "TcpReceiveResult \<Rightarrow> nat \<Rightarrow> bool" where
  "accounted r n \<longleftrightarrow> rr_left_trimmed r + rr_accepted_bytes r + rr_duplicate_bytes r + rr_right_trimmed r = n"

lemma trim_segment_effect:
  assumes "recv_inv b" "SequenceOffset sequence (rb_rcv_nxt b) = Some sb"
  shows "\<exists>l xs. seg_effect b l xs (snd (trim_segment sequence sb d psh b)) \<and>
      (xs = [] \<or> carries b sequence d l xs)"
    "accounted (fst (trim_segment sequence sb d psh b)) (length d)"
proof -
  define k where "k = (if sb < 0 then min (length d) (nat (- sb)) else 0)"
  define acc_end where "acc_end = min (sb + int (length d)) (int (AcceptableWindow b))"
  define cand where "cand = (if acc_end > max 0 sb then nat (acc_end - max 0 sb) else 0)"
  define r where "r = TcpReceiveResult_init\<lparr>rr_left_trimmed := k, rr_right_trimmed := length d - k - cand\<rparr>"
  let ?xs = "slice k cand d" and ?w = "nat (max 0 sb)"
  have trim: "trim_segment sequence sb d psh b =
    (if cand = 0 then reject_segment (sb + int (length d) \<le> 0) k (length d - k - cand) b
     else store_segment sequence ?w ?xs psh r b)"
    unfolding trim_segment_def Let_def k_def [symmetric] acc_end_def [symmetric] cand_def [symmetric] r_def ..
  have k: "k \<le> length d" by (simp add: k_def)
  show "\<exists>l xs. seg_effect b l xs (snd (trim_segment sequence sb d psh b)) \<and>
      (xs = [] \<or> carries b sequence d l xs)"
  proof (cases "cand = 0")
    case True
    then show ?thesis
      using reject_segment_effect [OF assms(1)] by (intro exI [of _ 0] exI [of _ "[]"]) (simp add: trim)
  next
    case False
    then have fit: "k + cand \<le> length d" "rb_ready_bytes b + ?w + cand \<le> rb_capacity b"
      "int (rb_ready_bytes b + ?w) = int (rb_ready_bytes b) + sb + int k"
      using AcceptableWindow_le [of b] assms(1)
      by (auto simp: k_def cand_def acc_end_def recv_inv_def min_def max_def split: if_splits)
    then have "length ?xs = cand" by simp
    then show ?thesis
      using False fit assms store_segment_effect(1) [of b ?w ?xs sequence psh r]
      by (intro exI [of _ "rb_ready_bytes b + ?w"] exI [of _ ?xs]) (auto simp: trim carries_def)
  qed
  show "accounted (fst (trim_segment sequence sb d psh b)) (length d)"
  proof (cases "cand = 0")
    case True
    then show ?thesis using k by (simp add: trim reject_segment_def accounted_def TcpReceiveResult_init_def)
  next
    case False
    then have fit: "k + cand \<le> length d" "rb_ready_bytes b + ?w + cand \<le> rb_capacity b"
      using AcceptableWindow_le [of b] assms(1)
      by (auto simp: k_def cand_def acc_end_def recv_inv_def min_def max_def split: if_splits)
    then have len: "length ?xs = cand" by simp
    with fit have fit': "rb_ready_bytes b + ?w + length ?xs \<le> rb_capacity b" by simp
    have "rr_left_trimmed r = k" "rr_right_trimmed r = length d - k - cand" by (simp_all add: r_def)
    then show ?thesis
      using store_segment_effect(2-4) [OF assms(1) fit', of sequence psh r] fit(1)
      unfolding trim accounted_def if_not_P [OF False] len by linarith
  qed
qed

lemma OnSegment_effect:
  assumes "recv_inv b"
  shows "\<exists>l xs. seg_effect b l xs (snd (OnSegment sequence data psh b)) \<and>
      (xs = [] \<or> (\<exists>d. data = Some d \<and> carries b sequence d l xs))"
proof -
  have refl: "seg_effect b 0 [] b" using assms by (simp add: seg_effect_def)
  show ?thesis
    using refl trim_segment_effect(1) [OF assms] reject_segment_effect [OF assms, of 0]
    by (fastforce simp: OnSegment_def Let_def split: option.splits)
qed

section \<open>Consuming\<close>

lemma release_loop_fold:
  "release_loop i n b = fold (\<lambda>j. SetOccupied j False) (map (PhysicalIndex b) [i..<i + n]) b"
proof (induction n arbitrary: i b)
  case (Suc n)
  have "PhysicalIndex (SetOccupied j v b) = PhysicalIndex b" for j v
    by (rule PhysicalIndex_cong) (simp_all add: SetOccupied_def Let_def)
  then show ?case using Suc by (simp add: upt_conv_Cons del: upt_Suc)
qed simp

lemma fold_SetOccupied_frame:
  "\<exists>oc. fold (\<lambda>j. SetOccupied j v) js b = b\<lparr>rb_occupancy := oc\<rparr>"
proof (induction js arbitrary: b)
  case Nil
  show ?case by (rule exI [of _ "rb_occupancy b"]) simp
next
  case (Cons j js)
  from Cons [of "SetOccupied j v b"] show ?case by (auto simp: SetOccupied_def Let_def)
qed

lemma ConsumeReady_content:
  fixes n :: nat and b :: TcpReceiveBuffer
  assumes inv: "recv_inv b" and n: "n \<le> rb_ready_bytes b"
  defines "b' \<equiv> snd (ConsumeReady n b)"
  shows "content b' l = (if l + n < rb_capacity b then content b (l + n) else None)"
    "held b' = {l. l + n \<in> held b}" "ring_ok b'"
proof -
  let ?cap = "rb_capacity b"
  define c where "c = release_loop 0 n b"
  have nc: "n \<le> ?cap" using inv n by (simp add: recv_inv_def)
  have ring: "ring_ok b" using inv by (simp add: recv_inv_def)
  obtain oc where c: "c = b\<lparr>rb_occupancy := oc\<rparr>"
    using fold_SetOccupied_frame unfolding c_def release_loop_fold by blast
  have sub: "set (map (PhysicalIndex b) [0..<0 + n]) \<subseteq> {..<?cap}"
    using PhysicalIndex_less [OF ring] nc by auto
  have occ: "Occupied c j = (j \<notin> PhysicalIndex b ` {..<n} \<and> Occupied b j)" "bitmap_ok ?cap c" if "j < ?cap" for j
    using bitmap.fold_assign [OF _ sub that, of b False] ring
    by (auto simp: c_def release_loop_fold ring_ok_def atLeast0LessThan)
  have b': "b' = c\<lparr>rb_first_undelivered := rb_first_undelivered c + of_nat n, rb_first_index := PhysicalIndex c n,
      rb_bytes_held := rb_bytes_held c - n, rb_ready_bytes := rb_ready_bytes c - n\<rparr>"
    using n by (simp add: b'_def ConsumeReady_def Let_def c_def min_def)
  have idx: "PhysicalIndex b' m = (if m + n < ?cap then PhysicalIndex b (m + n) else PhysicalIndex b (m + n - ?cap))"
    if "m < ?cap" for m
    using that nc ring by (auto simp: b' c PhysicalIndex_def Let_def ring_ok_def)
  have cap: "rb_capacity b' = ?cap" by (simp add: b' c)
  have "0 < ?cap" using ring by (simp add: ring_ok_def)
  from occ(2) [OF this] show "ring_ok b'"
    using ring nc by (auto simp: b' c ring_ok_def bitmap_ok_def PhysicalIndex_def Let_def)
  have occ': "Occupied b' (PhysicalIndex b' m) = (m + n < ?cap \<and> Occupied b (PhysicalIndex b (m + n)))" if "m < ?cap" for m
  proof (cases "m + n < ?cap")
    case True
    then have "PhysicalIndex b (m + n) \<notin> PhysicalIndex b ` {..<n}"
      using nc by (auto simp: PhysicalIndex_inj [OF ring])
    with True show ?thesis
      using that occ(1) [OF PhysicalIndex_less [OF ring True]] by (simp add: idx) (simp add: b' Occupied_def)
  next
    case False
    then have "m + n - ?cap < n" "m + n - ?cap < ?cap" using that nc by auto
    with False show ?thesis
      using that occ(1) [OF PhysicalIndex_less [OF ring, of "m + n - ?cap"]] by (simp add: idx) (simp add: b' Occupied_def)
  qed
  show "held b' = {l. l + n \<in> held b}" using occ' by (auto simp: held_def cap)
  show "content b' l = (if l + n < ?cap then content b (l + n) else None)"
    using occ' [of l] idx [of l] by (auto simp: content_def cap) (simp_all add: b' c)
qed

lemma ConsumeReady_fields:
  fixes n :: nat and b :: TcpReceiveBuffer
  defines "b' \<equiv> snd (ConsumeReady n b)" and "k \<equiv> min n (rb_ready_bytes b)"
  shows "b' = snd (ConsumeReady k b)" "rb_ready_bytes b' = rb_ready_bytes b - k"
    "rb_bytes_held b' = rb_bytes_held b - k" "rb_rcv_nxt b' = rb_rcv_nxt b"
    "rb_first_undelivered b' = rb_first_undelivered b + of_nat k" "rb_capacity b' = rb_capacity b"
    "fst (ConsumeReady n b) = k"
proof -
  obtain oc where "release_loop 0 k b = b\<lparr>rb_occupancy := oc\<rparr>"
    using fold_SetOccupied_frame unfolding release_loop_fold by blast
  then show "b' = snd (ConsumeReady k b)" "rb_ready_bytes b' = rb_ready_bytes b - k"
    "rb_bytes_held b' = rb_bytes_held b - k" "rb_rcv_nxt b' = rb_rcv_nxt b"
    "rb_first_undelivered b' = rb_first_undelivered b + of_nat k" "rb_capacity b' = rb_capacity b"
    "fst (ConsumeReady n b) = k"
    by (simp_all add: b'_def k_def ConsumeReady_def Let_def)
qed

lemma ConsumeReady_inv:
  assumes "recv_inv b"
  shows "recv_inv (snd (ConsumeReady n b))"
proof -
  define k where "k = min n (rb_ready_bytes b)"
  let ?b = "snd (ConsumeReady n b)"
  note f = ConsumeReady_fields [of n b, folded k_def]
  have k: "k \<le> rb_ready_bytes b" by (simp add: k_def)
  note c = ConsumeReady_content [OF assms k, folded f(1)]
  have "held b = {..<k} \<union> (\<lambda>l. l + k) ` held ?b"
  proof (intro set_eqI iffI)
    fix l assume "l \<in> held b"
    then show "l \<in> {..<k} \<union> (\<lambda>l. l + k) ` held ?b"
      by (cases "l < k") (auto simp: c(2) image_iff intro!: exI [of _ "l - k"])
  next
    fix l assume "l \<in> {..<k} \<union> (\<lambda>l. l + k) ` held ?b"
    then show "l \<in> held b" using assms k by (auto simp: c(2) recv_inv_def)
  qed
  then have "card (held b) = k + card (held ?b)"
    using card_Un_disjoint [of "{..<k}" "(\<lambda>l. l + k) ` held ?b"]
      card_image [of "\<lambda>l. l + k" "held ?b"]
    by (auto simp: disjoint_iff inj_on_def)
  with assms k show ?thesis
    by (auto simp: recv_inv_def c f(2-7) less_diff_conv subset_iff)
qed

section \<open>Reachable rings\<close>

datatype recv_op =
    SegmentOp u32 "bytes option" bool
  | ConsumeOp nat
  | BlockedOp bool
  | AckSentOp
  | AdvertiseOp nat
  | FinOp

fun recv_step :: "recv_op \<Rightarrow> TcpReceiveBuffer \<Rightarrow> TcpReceiveBuffer" where
  "recv_step (SegmentOp seq d psh) b = snd (OnSegment seq d psh b)"
| "recv_step (ConsumeOp n) b = snd (ConsumeReady n b)"
| "recv_step (BlockedOp v) b = SetBlocked v b"
| "recv_step AckSentOp b = AckSent b"
| "recv_step (AdvertiseOp n) b = RecordAdvertisedWindow n b"
| "recv_step FinOp b = ConsumeFin b"

definition recv_good :: "nat \<Rightarrow> TcpReceiveBuffer \<Rightarrow> bool" where
  "recv_good cap b \<longleftrightarrow> recv_inv b \<and> rb_capacity b = cap"

lemma recv_inv_setters [simp]:
  "recv_inv (b\<lparr>rb_rcv_adv := a\<rparr>) = recv_inv b" "recv_inv (b\<lparr>rb_blocked := v\<rparr>) = recv_inv b"
  "recv_inv (b\<lparr>rb_delayed_ack_pending := v\<rparr>) = recv_inv b"
  "recv_inv (b\<lparr>rb_rcv_nxt := a, rb_fin_received := v\<rparr>) = recv_inv b"
  by (rule recv_inv_cong; simp)+

lemma content_setters [simp]:
  "content (b\<lparr>rb_rcv_adv := a\<rparr>) = content b" "content (b\<lparr>rb_blocked := v\<rparr>) = content b"
  "content (b\<lparr>rb_delayed_ack_pending := v\<rparr>) = content b"
  by (rule window_cong; simp)+

lemma RecordAdvertisedWindow_eq: "\<exists>a. RecordAdvertisedWindow n b = b\<lparr>rb_rcv_adv := a\<rparr>"
proof -
  have "\<exists>a. (case k of None \<Rightarrow> b | Some advance \<Rightarrow> if (0::int) < advance then b\<lparr>rb_rcv_adv := c\<rparr> else b) =
      b\<lparr>rb_rcv_adv := a\<rparr>" for k c
    by (rule exI [of _ "case k of None \<Rightarrow> rb_rcv_adv b | Some advance \<Rightarrow> if 0 < advance then c else rb_rcv_adv b"])
      (simp split: option.split)
  then show ?thesis unfolding RecordAdvertisedWindow_def Let_def .
qed

interpretation recv: machine recv_step "recv_good cap"
proof
  fix b op
  assume b: "recv_good cap b"
  then have inv: "recv_inv b" by (simp add: recv_good_def)
  show "recv_good cap (recv_step op b)"
  proof (cases op)
    case (SegmentOp seq d psh)
    with b OnSegment_effect [OF inv, of seq d psh] show ?thesis by (auto simp: recv_good_def seg_effect_def)
  next
    case (ConsumeOp n)
    with b ConsumeReady_inv [OF inv] show ?thesis by (simp add: recv_good_def ConsumeReady_fields(6))
  next
    case (AdvertiseOp n)
    with b RecordAdvertisedWindow_eq [of n b] show ?thesis by (auto simp: recv_good_def)
  qed (use b in \<open>auto simp: recv_good_def SetBlocked_def AckSent_def ConsumeFin_def\<close>)
qed

lemma TcpReceiveBuffer_init_inv:
  assumes "TcpReceiveBuffer_init cap isn win = Some b"
  shows "recv_good cap b" "content b = (\<lambda>l. None)"
proof -
  have b: "0 < cap" "cap \<le> kMaximumCapacity" "rb_capacity b = cap" "rb_first_index b = 0"
    "rb_storage b = replicate cap 0" "rb_occupancy b = replicate ((cap + 63) div 64) 0"
    "rb_ready_bytes b = 0" "rb_bytes_held b = 0"
    using assms by (auto simp: TcpReceiveBuffer_init_def ValidateCapacity_def split: if_splits)
  have "\<not> Occupied b i" if "i < cap" for i
  proof -
    have "i div 64 < (cap + 63) div 64" using that by simp
    then show ?thesis by (simp add: Occupied_def b)
  qed
  moreover have "PhysicalIndex b l = l" if "l < cap" for l using that by (simp add: PhysicalIndex_def b)
  ultimately have "held b = {}" "content b = (\<lambda>l. None)" by (auto simp: held_def content_def b)
  with b show "recv_good cap b" "content b = (\<lambda>l. None)"
    by (auto simp: recv_good_def recv_inv_def ring_ok_def bitmap_ok_def)
qed

text \<open>
  C11: For every sequence of segments (with arbitrary sequence numbers and contents), consumptions and
  window updates, the receive ring keeps its memory: the capacity and the sizes of its arrays
  never change, indices stay inside, the ready bytes are exactly the maximal occupied prefix of
  the window, \<open>bytes_held\<close> is exactly the number of occupied slots, and the window that is
  advertised is the free space (or zero when blocked).\<close>

theorem receive_ring_invariant:
  assumes "TcpReceiveBuffer_init cap isn win = Some b0"
  shows "let b = run recv_step ops b0 in
    rb_capacity b = cap \<and> length (rb_storage b) = cap \<and> length (rb_occupancy b) = (cap + 63) div 64 \<and>
    rb_first_index b < cap \<and>
    rb_ready_bytes b \<le> rb_bytes_held b \<and> rb_bytes_held b \<le> cap \<and> rb_bytes_held b = card (held b) \<and>
    {..<rb_ready_bytes b} \<subseteq> held b \<and> rb_ready_bytes b \<notin> held b \<and>
    AdvertisedWindow b = (if rb_blocked b then 0 else cap - card (held b))"
proof -
  let ?b = "run recv_step ops b0"
  have good: "recv_good cap ?b" by (rule recv.run_inv [OF TcpReceiveBuffer_init_inv(1) [OF assms]])
  then have inv: "recv_inv ?b" "rb_capacity ?b = cap" by (simp_all add: recv_good_def)
  have "held ?b \<subseteq> {..<cap}" using inv(2) by (auto simp: held_def)
  then have "card (held ?b) \<le> cap" using card_mono [of "{..<cap}" "held ?b"] by simp
  moreover have "rb_ready_bytes ?b \<le> card (held ?b)"
    using inv(1) card_mono [of "held ?b" "{..<rb_ready_bytes ?b}"] by (simp add: recv_inv_def)
  ultimately show ?thesis
    using inv by (simp add: Let_def recv_inv_def ring_ok_def bitmap_ok_def AdvertisedWindow_def)
qed

theorem receive_ring_invariant_witness:
  "let b = run recv_step [SegmentOp 102 (Some [3, 4]) False, SegmentOp 100 (Some [1]) False]
       (the (TcpReceiveBuffer_init 8 100 0)) in
   rb_bytes_held b = card (held b) \<and> rb_bytes_held b = 3 \<and> rb_ready_bytes b = 1"
proof -
  let ?ops = "[SegmentOp 102 (Some [3, 4]) False, SegmentOp 100 (Some [1]) False]"
  let ?b = "run recv_step ?ops (the (TcpReceiveBuffer_init 8 100 0))"
  have "TcpReceiveBuffer_init 8 100 0 = Some (the (TcpReceiveBuffer_init 8 100 0))" by code_simp
  moreover have "let b = ?b in rb_bytes_held b = 3 \<and> rb_ready_bytes b = 1" by code_simp
  ultimately show ?thesis
    using receive_ring_invariant [where cap = 8 and isn = 100 and win = 0 and ops = ?ops] by (simp add: Let_def)
qed

end
