(* ===== verification/TcpStream.thy ===== *)
theory TcpStream
  imports TcpReceiveCorrect
begin

text \<open>
  The receive ring against the byte stream of the peer: what is delivered is a prefix of the
  stream, in-order data makes progress, and selective acknowledgments only name bytes that are held.
  The last part models the delivery loop (\<open>src/tcp/delivery.cpp\<close>) that feeds the ready bytes to
  the session.
\<close>

section \<open>Sequence numbers and stream positions\<close>

lemma SequenceOffset_positions:
  assumes "\<bar>int p - int q\<bar> < 2 ^ 31"
  shows "SequenceOffset (isn + of_nat p) (isn + of_nat q) = Some (int p - int q)"
proof -
  have small: "unat (of_nat k :: u32) = k" if "k < 2 ^ 31" for k
    using that by (simp add: unsigned_of_nat take_bit_nat_eq_self)
  have half: "unat kHalfSequenceSpace = 2 ^ 31" by (simp add: kHalfSequenceSpace_def)
  show ?thesis
  proof (cases "q \<le> p")
    case True
    define k where "k = p - q"
    have p: "p = q + k" "k < 2 ^ 31" using True assms by (auto simp: k_def)
    then have "isn + of_nat p - (isn + of_nat q) = (of_nat k :: u32)" by simp
    moreover have "(of_nat k :: u32) < kHalfSequenceSpace"
      using p(2) small half by (simp add: word_less_nat_alt)
    ultimately show ?thesis using p small by (simp add: SequenceOffset_def Let_def)
  next
    case False
    define k where "k = q - p"
    have q: "q = p + k" "0 < k" "k < 2 ^ 31" using False assms by (auto simp: k_def)
    have fwd: "isn + of_nat p - (isn + of_nat q) = - (of_nat k :: u32)"
      "isn + of_nat q - (isn + of_nat p) = (of_nat k :: u32)"
      using q(1) by simp_all
    have "unat (0 - (of_nat k :: u32)) = 2 ^ 32 - k"
      unfolding unat_sub_if' using small [OF q(3)] q(2) by simp
    then have "unat (- (of_nat k :: u32)) = 2 ^ 32 - k" by simp
    then have "\<not> - (of_nat k :: u32) < kHalfSequenceSpace" "- (of_nat k :: u32) \<noteq> kHalfSequenceSpace"
      using q half by (auto simp: word_less_nat_alt dest: arg_cong [where f = unat])
    then show ?thesis unfolding SequenceOffset_def Let_def fwd using small q by simp
  qed
qed

section \<open>Delivery of the stream\<close>

text \<open>
  A segment of the stream \<open>D\<close> that starts at sequence number \<open>isn\<close>: it carries the bytes of some
  position \<open>p\<close>, which is less than half the sequence space away from the next expected position.
\<close>

definition in_stream :: "(nat \<Rightarrow> u8) \<Rightarrow> u32 \<Rightarrow> nat \<Rightarrow> u32 \<Rightarrow> bytes \<Rightarrow> bool" where
  "in_stream D isn next sequence d \<longleftrightarrow>
     (\<exists>p. sequence = isn + of_nat p \<and> d = map D [p..<p + length d] \<and> \<bar>int p - int next\<bar> < 2 ^ 31)"

text \<open>The reachable rings, with everything that was delivered so far.\<close>

inductive receives :: "(nat \<Rightarrow> u8) \<Rightarrow> u32 \<Rightarrow> TcpReceiveBuffer \<Rightarrow> bytes \<Rightarrow> bool" for D isn where
  start: "TcpReceiveBuffer_init cap isn win = Some b \<Longrightarrow> receives D isn b []"
| segment: "receives D isn b out \<Longrightarrow> in_stream D isn (length out + rb_ready_bytes b) sequence d \<Longrightarrow>
    receives D isn (snd (OnSegment sequence (Some d) psh b)) out"
| consume: "receives D isn b out \<Longrightarrow> n \<le> length (ReadyView b) \<Longrightarrow>
    receives D isn (snd (ConsumeReady n b)) (out @ take n (ReadyView b))"
| blocked: "receives D isn b out \<Longrightarrow> receives D isn (SetBlocked v b) out"
| ack_sent: "receives D isn b out \<Longrightarrow> receives D isn (AckSent b) out"
| advertise: "receives D isn b out \<Longrightarrow> receives D isn (RecordAdvertisedWindow n b) out"

definition stream_inv :: "(nat \<Rightarrow> u8) \<Rightarrow> u32 \<Rightarrow> nat \<Rightarrow> TcpReceiveBuffer \<Rightarrow> bool" where
  "stream_inv D isn n b \<longleftrightarrow>
     recv_inv b \<and> (\<forall>l x. content b l = Some x \<longrightarrow> x = D (n + l)) \<and>
     rb_rcv_nxt b = isn + of_nat (n + rb_ready_bytes b) \<and> rb_first_undelivered b = isn + of_nat n"

lemma ReadyView_content:
  assumes "recv_inv b"
  shows "length (ReadyView b) = min (rb_ready_bytes b) (rb_capacity b - rb_first_index b)"
    "i < length (ReadyView b) \<Longrightarrow> content b i = Some (ReadyView b ! i)"
proof -
  have ok: "length (rb_storage b) = rb_capacity b" "{..<rb_ready_bytes b} \<subseteq> held b"
    using assms by (simp_all add: recv_inv_def ring_ok_def)
  show len: "length (ReadyView b) = min (rb_ready_bytes b) (rb_capacity b - rb_first_index b)"
    using ok by (simp add: ReadyView_def slice_def min_def)
  assume i: "i < length (ReadyView b)"
  then have "i \<in> held b" "i < rb_capacity b - rb_first_index b" "rb_ready_bytes b \<noteq> 0"
    using ok(2) len by (auto simp: subset_iff)
  then show "content b i = Some (ReadyView b ! i)"
    using i len ok(1) by (auto simp: content_def held_def ReadyView_def PhysicalIndex_def slice_def)
qed

lemma stream_inv_segment:
  assumes inv: "stream_inv D isn n b" and seg: "in_stream D isn (n + rb_ready_bytes b) sequence d"
  shows "stream_inv D isn n (snd (OnSegment sequence (Some d) psh b))"
proof -
  let ?b = "snd (OnSegment sequence (Some d) psh b)"
  obtain p where p: "sequence = isn + of_nat p" "d = map D [p..<p + length d]"
    "\<bar>int p - int (n + rb_ready_bytes b)\<bar> < 2 ^ 31"
    using seg by (auto simp: in_stream_def)
  have off: "SequenceOffset sequence (rb_rcv_nxt b) = Some (int p - int (n + rb_ready_bytes b))"
    using SequenceOffset_positions [OF p(3)] inv p(1) by (simp add: stream_inv_def)
  have "recv_inv b" using inv by (simp add: stream_inv_def)
  from OnSegment_effect [OF this, of sequence "Some d" psh] obtain l xs
    where eff: "seg_effect b l xs ?b" and xs: "xs = [] \<or> carries b sequence d l xs" by auto
  have new: "xs ! (m - l) = D (n + m)" if m: "l \<le> m" "m < l + length xs" for m
  proof -
    from xs m obtain k where k: "k + length xs \<le> length d" "xs = slice k (length xs) d" "n + l = p + k"
      using off by (auto simp: carries_def)
    have "xs ! (m - l) = d ! (k + (m - l))"
      by (subst k(2), rule nth_slice) (use m k(1) in simp_all)
    also have "\<dots> = D (p + (k + (m - l)))" by (subst p(2)) (use m k(1) in simp)
    also have "p + (k + (m - l)) = n + m" using k(3) m by simp
    finally show ?thesis .
  qed
  have "x = D (n + m)" if "content ?b m = Some x" for m x
    using that eff inv new [of m] by (auto simp: seg_effect_def stream_inv_def fill_def split: option.splits if_splits)
  moreover have "rb_rcv_nxt ?b = isn + of_nat (n + rb_ready_bytes ?b)"
    using eff inv by (simp add: seg_effect_def stream_inv_def of_nat_diff)
  ultimately show ?thesis using eff inv unfolding seg_effect_def stream_inv_def by metis
qed

lemma stream_inv_consume:
  assumes inv: "stream_inv D isn n b" and k: "k \<le> length (ReadyView b)"
  shows "stream_inv D isn (n + k) (snd (ConsumeReady k b))"
proof -
  have r: "recv_inv b" using inv by (simp add: stream_inv_def)
  have k': "k \<le> rb_ready_bytes b" using k ReadyView_content(1) [OF r] by simp
  have m: "min k (rb_ready_bytes b) = k" using k' by simp
  note f = ConsumeReady_fields [of k b, unfolded m]
  have "x = D (n + k + l)" if "content (snd (ConsumeReady k b)) l = Some x" for l x
  proof -
    have "content b (l + k) = Some x"
      using that by (simp add: ConsumeReady_content(1) [OF r k'] split: if_splits)
    then have "x = D (n + (l + k))" using inv by (simp add: stream_inv_def)
    then show ?thesis by (simp add: ac_simps)
  qed
  then show ?thesis
    using inv ConsumeReady_inv [OF r] k' by (simp add: stream_inv_def f(2-6))
qed

lemma receives_inv: "receives D isn b out \<Longrightarrow> stream_inv D isn (length out) b \<and> out = map D [0..<length out]"
proof (induction rule: receives.induct)
  case (start cap win b)
  then show ?case using TcpReceiveBuffer_init_inv [OF start]
    by (auto simp: stream_inv_def recv_good_def TcpReceiveBuffer_init_def split: option.splits)
next
  case (segment b out sequence d psh)
  then show ?case using stream_inv_segment by blast
next
  case (consume b out n)
  then have inv: "recv_inv b" "stream_inv D isn (length out) b" by (simp_all add: stream_inv_def)
  have "take n (ReadyView b) = map D [length out..<length out + n]"
    using inv consume(2) ReadyView_content [OF inv(1)]
    by (intro nth_equalityI) (auto simp: stream_inv_def)
  then show ?case
    using consume stream_inv_consume [OF inv(2), of n]
    by (simp add: upt_add_eq_append [of 0])
next
  case (advertise b out n)
  then show ?case using RecordAdvertisedWindow_eq [of n b] by (auto simp: stream_inv_def)
qed (simp_all add: stream_inv_def SetBlocked_def AckSent_def)

text \<open>
  C3: The bytes handed to the application are exactly the stream of the peer. Whatever the order,
  overlap, duplication or loss of segments, whatever the sizes in which the ready bytes are
  consumed and however often the sequence numbers wrap around, everything delivered so far is a
  prefix of the stream, the ready view is its continuation, and \<open>RcvNxt\<close> is the sequence number
  of the first byte that is missing. Segments may not be older or newer than half the sequence
  space.\<close>

theorem receive_delivers_stream:
  assumes "receives D isn b out"
  shows "out = map D [0..<length out] \<and>
    ReadyView b = map D [length out..<length out + length (ReadyView b)] \<and>
    rb_rcv_nxt b = isn + of_nat (length out + rb_ready_bytes b) \<and>
    rb_first_undelivered b = isn + of_nat (length out)"
proof -
  have inv: "stream_inv D isn (length out) b" "out = map D [0..<length out]"
    using receives_inv [OF assms] by auto
  then have r: "recv_inv b" by (simp add: stream_inv_def)
  have "ReadyView b = map D [length out..<length out + length (ReadyView b)]"
    using ReadyView_content(2) [OF r] inv(1) by (intro nth_equalityI) (auto simp: stream_inv_def)
  with inv show ?thesis by (simp add: stream_inv_def)
qed

theorem receive_delivers_stream_witness:
  "let b0 = the (TcpReceiveBuffer_init 8 0xFFFFFFFF 0);
       b1 = snd (OnSegment 1 (Some [3, 4]) False b0);
       b2 = snd (OnSegment 0xFFFFFFFF (Some [1, 2]) False b1);
       b3 = snd (ConsumeReady 3 b2) in
   take 3 (ReadyView b2) = [1, 2, 3] \<and> ReadyView b3 = [4] \<and> rb_rcv_nxt b3 = 3"
proof -
  define D :: "nat \<Rightarrow> u8" where "D = (\<lambda>i. of_nat (i + 1))"
  define b0 where "b0 = the (TcpReceiveBuffer_init 8 0xFFFFFFFF 0)"
  define b1 where "b1 = snd (OnSegment 1 (Some [3, 4]) False b0)"
  define b2 where "b2 = snd (OnSegment 0xFFFFFFFF (Some [1, 2]) False b1)"
  define b3 where "b3 = snd (ConsumeReady 3 b2)"
  have "let b0 = the (TcpReceiveBuffer_init 8 0xFFFFFFFF 0); b1 = snd (OnSegment 1 (Some [3, 4]) False b0);
      b2 = snd (OnSegment 0xFFFFFFFF (Some [1, 2]) False b1); b3 = snd (ConsumeReady 3 b2) in
    TcpReceiveBuffer_init 8 0xFFFFFFFF 0 \<noteq> None \<and> rb_ready_bytes b0 = 0 \<and> rb_ready_bytes b1 = 0 \<and>
    ReadyView b2 = [1, 2, 3, 4] \<and> length (ReadyView b3) = 1 \<and> rb_ready_bytes b3 = 1" by code_simp
  then have ev: "TcpReceiveBuffer_init 8 0xFFFFFFFF 0 = Some b0" "rb_ready_bytes b0 = 0" "rb_ready_bytes b1 = 0"
    "ReadyView b2 = [1, 2, 3, 4]" "length (ReadyView b3) = 1" "rb_ready_bytes b3 = 1"
    unfolding Let_def b3_def b2_def b1_def b0_def by (auto simp del: One_nat_def)
  have "receives D 0xFFFFFFFF b0 []" by (rule receives.start [OF ev(1)])
  moreover have "in_stream D 0xFFFFFFFF (length [] + rb_ready_bytes b0) 1 [3, 4]"
    unfolding in_stream_def ev by (rule exI [of _ 2]) (simp add: D_def upt_rec)
  ultimately have "receives D 0xFFFFFFFF b1 []" unfolding b1_def by (rule receives.segment)
  moreover have "in_stream D 0xFFFFFFFF (length [] + rb_ready_bytes b1) 0xFFFFFFFF [1, 2]"
    unfolding in_stream_def ev by (rule exI [of _ 0]) (simp add: D_def upt_rec)
  ultimately have "receives D 0xFFFFFFFF b2 []" unfolding b2_def by (rule receives.segment)
  then have "receives D 0xFFFFFFFF b3 ([] @ take 3 (ReadyView b2))"
    unfolding b3_def by (rule receives.consume) (simp add: ev)
  from receive_delivers_stream [OF this] show ?thesis
    unfolding Let_def b0_def [symmetric] b1_def [symmetric] b2_def [symmetric] b3_def [symmetric]
    by (simp add: ev D_def upt_rec)
qed

section \<open>Progress and selective acknowledgments\<close>

lemma in_order_effect:
  assumes inv: "recv_inv b" and d: "d \<noteq> []" "length d \<le> AcceptableWindow b"
  shows "rb_ready_bytes b + length d \<le> rb_ready_bytes (snd (OnSegment (rb_rcv_nxt b) (Some d) psh b))"
    "rr_disposition (fst (OnSegment (rb_rcv_nxt b) (Some d) psh b)) = Recv_Accepted"
proof -
  have zero: "SequenceOffset (rb_rcv_nxt b) (rb_rcv_nxt b) = Some 0"
    by (simp add: SequenceOffset_def kHalfSequenceSpace_def)
  have cap: "length d \<le> rb_capacity b - rb_ready_bytes b" "rb_capacity b \<le> kMaximumCapacity"
    using d(2) AcceptableWindow_le [of b] inv by (auto simp: recv_inv_def ring_ok_def)
  then have "length d \<le> kMaximumCapacity" "0 < length d" "AcceptableWindow b \<noteq> 0" using d by (cases d; auto)+
  moreover have "IsSequenceAcceptable (rb_rcv_nxt b) (length d) b"
    using d cap by (cases d) (auto simp: IsSequenceAcceptable_def zero Let_def)
  moreover define r where "r = TcpReceiveResult_init\<lparr>rr_left_trimmed := 0, rr_right_trimmed := 0\<rparr>"
  ultimately have on: "OnSegment (rb_rcv_nxt b) (Some d) psh b = store_segment (rb_rcv_nxt b) 0 d psh r b"
    using d by (simp add: OnSegment_def zero Let_def trim_segment_def r_def slice_def)
  let ?b = "snd (store_segment (rb_rcv_nxt b) 0 d psh r b)"
  have fit: "rb_ready_bytes b + 0 + length d \<le> rb_capacity b" using cap(1) d(1) by (cases d) auto
  note eff = store_segment_effect [OF inv fit, of "rb_rcv_nxt b" psh r]
  have "m \<in> held ?b" if "m < rb_ready_bytes b + length d" for m
  proof -
    have "content ?b m \<noteq> None"
      using eff(1) that inv
      by (auto simp: seg_effect_def fill_def recv_inv_def held_def content_def subset_iff split: option.splits)
    then show ?thesis by (auto simp: content_def held_def split: if_splits)
  qed
  moreover have "recv_inv ?b" using eff(1) by (simp add: seg_effect_def)
  ultimately show grow: "rb_ready_bytes b + length d \<le> rb_ready_bytes (snd (OnSegment (rb_rcv_nxt b) (Some d) psh b))"
    unfolding on recv_inv_def by (meson not_le)
  have "held b \<noteq> held ?b" using \<open>\<And>m. m < rb_ready_bytes b + length d \<Longrightarrow> m \<in> held ?b\<close> [of "rb_ready_bytes b"] inv d(1)
    by (auto simp: recv_inv_def)
  moreover have "held b \<subseteq> held ?b"
    using eff(1) by (auto simp: seg_effect_def fill_def fun_eq_iff held_def content_def split: option.splits if_splits)
  ultimately have "card (held b) < card (held ?b)" by (intro psubset_card_mono) auto
  then show "rr_disposition (fst (OnSegment (rb_rcv_nxt b) (Some d) psh b)) = Recv_Accepted"
    unfolding on using eff(5,6) inv \<open>recv_inv ?b\<close> by (simp add: recv_inv_def)
qed

text \<open>
  C14: In-order data is never refused inside the window: after any history, a segment that starts at
  \<open>RcvNxt\<close> and is not longer than the acceptable window is accepted, and all its bytes (and every
  out-of-order byte behind them) become ready.\<close>

theorem in_order_segment_progress:
  assumes "TcpReceiveBuffer_init cap isn win = Some b0" "d \<noteq> []"
    "length d \<le> AcceptableWindow (run recv_step ops b0)"
  shows "let b = run recv_step ops b0; (r, b') = OnSegment (rb_rcv_nxt b) (Some d) psh b in
    rr_disposition r = Recv_Accepted \<and> rb_ready_bytes b + length d \<le> rb_ready_bytes b'"
proof -
  let ?b = "run recv_step ops b0"
  have "recv_inv ?b"
    using recv.run_inv [OF TcpReceiveBuffer_init_inv(1) [OF assms(1)], of ops] by (simp add: recv_good_def)
  from in_order_effect [OF this assms(2,3), of psh] show ?thesis
    by (simp add: Let_def split_beta)
qed

theorem in_order_segment_progress_witness:
  "let b = run recv_step [SegmentOp 101 (Some [6]) False] (the (TcpReceiveBuffer_init 8 100 0));
       (r, b') = OnSegment (rb_rcv_nxt b) (Some [5]) False b in
   rr_disposition r = Recv_Accepted \<and> rb_ready_bytes b' = 2"
proof -
  let ?ops = "[SegmentOp 101 (Some [6]) False]"
  let ?b = "run recv_step ?ops (the (TcpReceiveBuffer_init 8 100 0))"
  have "TcpReceiveBuffer_init 8 100 0 = Some (the (TcpReceiveBuffer_init 8 100 0))"
    "length [5::u8] \<le> AcceptableWindow ?b"
    "rb_ready_bytes (snd (OnSegment (rb_rcv_nxt ?b) (Some [5]) False ?b)) = 2"
    by code_simp+
  then show ?thesis
    using in_order_segment_progress [where cap = 8 and isn = 100 and win = 0 and ops = ?ops and d = "[5]" and psh = False]
    by (simp add: Let_def split_beta)
qed

text \<open>A block that lies in the out-of-order part of the window and is completely held.\<close>

definition sack_ok :: "TcpReceiveBuffer \<Rightarrow> TcpSackBlock \<Rightarrow> bool" where
  "sack_ok b k \<longleftrightarrow>
     (\<exists>i j. rb_ready_bytes b < i \<and> i < j \<and> j \<le> rb_capacity b \<and> {i..<j} \<subseteq> held b \<and>
        sb_left_edge k = rb_rcv_nxt b + of_nat (i - rb_ready_bytes b) \<and>
        sb_right_edge k = rb_rcv_nxt b + of_nat (j - rb_ready_bytes b))"

lemma sack_ok_range:
  assumes "recv_inv b" "rb_ready_bytes b \<le> i" "i < j" "{i..<j} \<subseteq> held b"
  shows "sack_ok b \<lparr>sb_left_edge = rb_rcv_nxt b + of_nat (i - rb_ready_bytes b),
    sb_right_edge = rb_rcv_nxt b + of_nat (j - rb_ready_bytes b)\<rparr>"
proof -
  have "i \<in> held b" "j - 1 \<in> held b" using assms(3,4) by auto
  moreover have "rb_ready_bytes b \<notin> held b" using assms(1) by (simp add: recv_inv_def)
  ultimately have "rb_ready_bytes b < i" "j \<le> rb_capacity b"
    using assms(2) by (auto simp: held_def le_less)
  then show ?thesis unfolding sack_ok_def using assms(3,4) by (intro exI [of _ i] exI [of _ j]) simp
qed

lemma sack_scan_sound:
  "recv_inv b \<Longrightarrow> rb_ready_bytes b \<le> logical \<Longrightarrow> list_all (sack_ok b) result \<Longrightarrow> length result \<le> limit \<Longrightarrow>
     list_all (sack_ok b) (sack_scan b limit logical remaining result) \<and>
     length (sack_scan b limit logical remaining result) \<le> limit"
proof (induction b limit logical remaining result rule: sack_scan.induct)
  case (1 b limit logical remaining result)
  show ?case
  proof (cases "logical < rb_capacity b \<and> length result < limit \<and> remaining \<noteq> 0 \<and> scan_gap b logical < rb_capacity b")
    case False
    with "1.prems" show ?thesis by (auto simp: sack_scan.simps [of b limit logical] Let_def)
  next
    case True
    define i j where "i = scan_gap b logical" and "j = scan_up b i"
    define k where "k = \<lparr>sb_left_edge = rb_rcv_nxt b + of_nat (i - rb_ready_bytes b),
      sb_right_edge = rb_rcv_nxt b + of_nat (j - rb_ready_bytes b)\<rparr>"
    have ij: "rb_ready_bytes b \<le> i" "i < j" "{i..<j} \<subseteq> held b"
      using "1.prems"(2) scan_ge(2) [of logical b] scan_up_step [of i b] scan_gap_hit [of b logical] True
        scan_up_spec [of i b]
      by (auto simp: i_def j_def)
    then have ok: "sack_ok b k" unfolding k_def using "1.prems"(1) by (intro sack_ok_range)
    have "sack_scan b limit logical remaining result = sack_scan b limit j (remaining - (j - i))
        (if result \<noteq> [] \<and> k = result ! 0 then result else result @ [k])"
      unfolding sack_scan.simps [of b limit logical] Let_def i_def [symmetric] j_def [symmetric] k_def [symmetric]
      using True by (simp add: i_def)
    then show ?thesis
      using "1.IH" [OF _ refl _ refl refl] True "1.prems" ij ok
      unfolding i_def [symmetric] j_def [symmetric] k_def [symmetric]
      by (simp add: i_def [symmetric] j_def [symmetric] k_def [symmetric])
  qed
qed

text \<open>
  C13: Selective acknowledgments are truthful: after any history, every block of \<open>SackBlocks\<close> is a
  non-empty range strictly above \<open>RcvNxt\<close> whose bytes are all held, and there are at most
  \<open>max_blocks\<close> and never more than four.\<close>

theorem sack_blocks_sound:
  assumes "TcpReceiveBuffer_init cap isn win = Some b0"
  shows "list_all (sack_ok (run recv_step ops b0)) (SackBlocks m (run recv_step ops b0)) \<and>
    length (SackBlocks m (run recv_step ops b0)) \<le> min m 4"
proof -
  let ?b = "run recv_step ops b0"
  have inv: "recv_inv ?b"
    using recv.run_inv [OF TcpReceiveBuffer_init_inv(1) [OF assms], of ops] by (simp add: recv_good_def)
  have recent: "sack_ok b (rb_recent_sack b)" if c: "recent_complete b" and r: "recv_inv b" for b
  proof -
    define i where "i = rb_ready_bytes b + unat (sb_left_edge (rb_recent_sack b) - rb_rcv_nxt b)"
    define j where "j = i + unat (sb_right_edge (rb_recent_sack b) - sb_left_edge (rb_recent_sack b))"
    have "i < j" using c by (auto simp: recent_complete_def Let_def j_def unat_gt_0)
    moreover have "{i..<j} \<subseteq> held b"
    proof
      fix m assume "m \<in> {i..<j}"
      then have "m - i \<in> set [0..<j - i]" "i + (m - i) = m" by auto
      moreover have "unat (sb_right_edge (rb_recent_sack b) - sb_left_edge (rb_recent_sack b)) = j - i"
        by (simp add: j_def)
      ultimately show "m \<in> held b"
        using c unfolding recent_complete_def Let_def list_all_iff i_def [symmetric] held_def
        by (metis (no_types, lifting) mem_Collect_eq)
    qed
    ultimately have "sack_ok b \<lparr>sb_left_edge = rb_rcv_nxt b + of_nat (i - rb_ready_bytes b),
        sb_right_edge = rb_rcv_nxt b + of_nat (j - rb_ready_bytes b)\<rparr>"
      by (intro sack_ok_range [OF r]) (simp_all add: i_def)
    then show ?thesis by (simp add: i_def j_def sack_ok_def)
  qed
  show ?thesis
  proof (cases "min m 4 = 0")
    case True
    then show ?thesis by (simp add: SackBlocks_def Let_def)
  next
    case False
    let ?r = "if recent_complete ?b then [rb_recent_sack ?b] else []"
    have "list_all (sack_ok ?b) ?r" "length ?r \<le> min m 4" using recent [OF _ inv] False by auto
    from sack_scan_sound [OF inv order_refl this, of "OutOfOrderBytes ?b"] False show ?thesis
      unfolding SackBlocks_def Let_def by simp
  qed
qed

theorem sack_blocks_sound_witness:
  "list_all (sack_ok (run recv_step [SegmentOp 105 (Some [1, 2]) False] (the (TcpReceiveBuffer_init 8 100 0))))
     (SackBlocks 4 (run recv_step [SegmentOp 105 (Some [1, 2]) False] (the (TcpReceiveBuffer_init 8 100 0)))) \<and>
   SackBlocks 4 (run recv_step [SegmentOp 105 (Some [1, 2]) False] (the (TcpReceiveBuffer_init 8 100 0))) =
     [\<lparr>sb_left_edge = 105, sb_right_edge = 107\<rparr>]"
proof -
  have b: "TcpReceiveBuffer_init 8 100 0 = Some (the (TcpReceiveBuffer_init 8 100 0))" by code_simp
  have "SackBlocks 4 (run recv_step [SegmentOp 105 (Some [1, 2]) False] (the (TcpReceiveBuffer_init 8 100 0))) =
       [\<lparr>sb_left_edge = 105, sb_right_edge = 107\<rparr>]" by code_simp
  with sack_blocks_sound [OF b, of "[SegmentOp 105 (Some [1, 2]) False]" 4] show ?thesis by blast
qed

section \<open>Delivery to the session\<close>

datatype SendStatus = Send_Accepted | Send_WouldBlock | Send_Closed | Send_Error

record SendResult =
  sr_accepted_bytes :: nat
  sr_status :: SendStatus

datatype TcpDeliveryStatus =
    Deliv_Idle
  | Deliv_Drained
  | Deliv_WouldBlock
  | Deliv_NoProgress
  | Deliv_Closed
  | Deliv_Error
  | Deliv_InvalidResult
  | Deliv_BudgetExhausted

record TcpDeliveryResult =
  dr_status :: TcpDeliveryStatus
  dr_accepted_bytes :: nat
  dr_calls :: nat

text \<open>
  The callback \<open>deliver\<close> belongs to the session: it is a parameter that maps a session state and the
  offered bytes to its answer and the new session state, with \<open>None\<close> for an exception. The loop
  body ends the loop with \<open>Inl\<close> or continues with \<open>Inr\<close>.
\<close>

definition deliver_once ::
  "('s \<Rightarrow> bytes \<Rightarrow> (SendResult \<times> 's) option) \<Rightarrow> TcpReceiveBuffer \<Rightarrow> 's \<Rightarrow> TcpDeliveryResult \<Rightarrow>
     (TcpDeliveryResult \<times> TcpReceiveBuffer \<times> 's) + (TcpDeliveryResult \<times> TcpReceiveBuffer \<times> 's)" where
  "deliver_once deliver b s result =
     (let ready = ReadyView b;
          stop = \<lambda>status result b s. Inl (result\<lparr>dr_status := status\<rparr>, SetBlocked True b, s) in
      if ready = [] then stop Deliv_InvalidResult result b s
      else case deliver s ready of
        None \<Rightarrow> stop Deliv_Error result b s
      | Some (sent, s') \<Rightarrow>
          let result = result\<lparr>dr_calls := dr_calls result + 1\<rparr> in
          if sr_accepted_bytes sent > length ready then stop Deliv_InvalidResult result b s'
          else
            let b = (if sr_accepted_bytes sent \<noteq> 0 then snd (ConsumeReady (sr_accepted_bytes sent) b) else b);
                result = result\<lparr>dr_accepted_bytes := dr_accepted_bytes result + sr_accepted_bytes sent\<rparr> in
            case sr_status sent of
              Send_Accepted \<Rightarrow>
                if sr_accepted_bytes sent = 0 then stop Deliv_NoProgress result b s'
                else Inr (result, b, s')
            | Send_WouldBlock \<Rightarrow> stop Deliv_WouldBlock result b s'
            | Send_Closed \<Rightarrow> stop Deliv_Closed result b s'
            | Send_Error \<Rightarrow> stop Deliv_Error result b s')"

fun drain_loop ::
  "nat \<Rightarrow> ('s \<Rightarrow> bytes \<Rightarrow> (SendResult \<times> 's) option) \<Rightarrow> TcpReceiveBuffer \<Rightarrow> 's \<Rightarrow> TcpDeliveryResult \<Rightarrow>
     TcpDeliveryResult \<times> TcpReceiveBuffer \<times> 's" where
  "drain_loop budget deliver b s result =
     (if rb_ready_bytes b = 0 then (result\<lparr>dr_status := Deliv_Drained\<rparr>, SetBlocked False b, s)
      else case budget of
        0 \<Rightarrow> (result\<lparr>dr_status := Deliv_BudgetExhausted\<rparr>, b, s)
      | Suc budget \<Rightarrow>
          (case deliver_once deliver b s result of
             Inl r \<Rightarrow> r
           | Inr (result, b, s) \<Rightarrow> drain_loop budget deliver b s result))"

declare drain_loop.simps [simp del]

definition DrainTcpReceiveBuffer ::
  "TcpReceiveBuffer \<Rightarrow> ('s \<Rightarrow> bytes \<Rightarrow> (SendResult \<times> 's) option) \<Rightarrow> nat \<Rightarrow> 's \<Rightarrow>
     TcpDeliveryResult \<times> TcpReceiveBuffer \<times> 's" where
  "DrainTcpReceiveBuffer b deliver call_budget s =
     (let result = \<lparr>dr_status = Deliv_Idle, dr_accepted_bytes = 0, dr_calls = 0\<rparr> in
      if rb_ready_bytes b = 0 then (result, b, s)
      else if call_budget = 0 then (result\<lparr>dr_status := Deliv_BudgetExhausted\<rparr>, b, s)
      else drain_loop call_budget deliver b s result)"

text \<open>
  What the session is given. In \<open>c\<close> answered calls it moves from the state \<open>s\<close> at the stream position \<open>n\<close>
  to the state \<open>s'\<close> at the position \<open>m\<close>: every call offers the bytes of the stream that start at the
  current position, and the position advances by what the session accepts of them. A count that is
  larger than the offer accepts nothing.
\<close>

inductive fed :: "(nat \<Rightarrow> u8) \<Rightarrow> ('s \<Rightarrow> bytes \<Rightarrow> (SendResult \<times> 's) option) \<Rightarrow> nat \<Rightarrow> 's \<Rightarrow> nat \<Rightarrow> nat \<Rightarrow> 's \<Rightarrow> bool"
  for D deliver where
  rest: "fed D deliver n s 0 n s"
| offer: "d \<noteq> [] \<Longrightarrow> d = map D [n..<n + length d] \<Longrightarrow> deliver s d = Some (sent, s1) \<Longrightarrow>
    fed D deliver (n + (if sr_accepted_bytes sent \<le> length d then sr_accepted_bytes sent else 0)) s1 c m s' \<Longrightarrow>
    fed D deliver n s (Suc c) m s'"

lemma fed_append: "fed D deliver n s c m s1 \<Longrightarrow> fed D deliver m s1 c' m' s' \<Longrightarrow> fed D deliver n s (c + c') m' s'"
  by (induction rule: fed.induct) (auto intro: fed.offer)

text \<open>What a part of the loop adds to the bytes that the session has taken.\<close>

definition took :: "(nat \<Rightarrow> u8) \<Rightarrow> ('s \<Rightarrow> bytes \<Rightarrow> (SendResult \<times> 's) option) \<Rightarrow> u32 \<Rightarrow> bytes \<Rightarrow>
    's \<Rightarrow> TcpDeliveryResult \<Rightarrow> TcpDeliveryResult \<times> TcpReceiveBuffer \<times> 's \<Rightarrow> bool" where
  "took D deliver isn out s result r \<longleftrightarrow>
     (case r of (result', b', s') \<Rightarrow>
       \<exists>new c. receives D isn b' (out @ new) \<and> fed D deliver (length out) s c (length out + length new) s' \<and>
         dr_accepted_bytes result' = dr_accepted_bytes result + length new \<and> dr_calls result' = dr_calls result + c)"

lemma took_nothing:
  "receives D isn b' out \<Longrightarrow> dr_accepted_bytes result' = dr_accepted_bytes result \<Longrightarrow> dr_calls result' = dr_calls result \<Longrightarrow>
     took D deliver isn out s result (result', b', s)"
  by (auto simp: took_def intro!: exI [of _ "[]"] exI [of _ 0] fed.rest)

lemma ReadyView_stream:
  assumes "receives D isn b out"
  shows "ReadyView b = map D [length out..<length out + length (ReadyView b)]"
proof -
  have "out @ ReadyView b = map D [0..<length (out @ ReadyView b)]"
    using receives_inv [OF receives.consume [OF assms order_refl]] by simp
  then have "drop (length out) (out @ ReadyView b) = drop (length out) (map D [0..<length (out @ ReadyView b)])" by simp
  then show ?thesis by (simp add: drop_map)
qed

lemma took_offer:
  assumes "receives D isn b out" "ReadyView b \<noteq> []" "deliver s (ReadyView b) = Some (sent, s')"
    "n = (if sr_accepted_bytes sent \<le> length (ReadyView b) then sr_accepted_bytes sent else 0)"
    "receives D isn b' (out @ take n (ReadyView b))"
    "dr_accepted_bytes result' = dr_accepted_bytes result + n" "dr_calls result' = dr_calls result + 1"
  shows "took D deliver isn out s result (result', b', s')"
proof -
  have "fed D deliver (length out) s (Suc 0) (length out + n) s'"
    by (rule fed.offer [where deliver = deliver and s = s and d = "ReadyView b" and sent = sent and ?s1.0 = s'])
      (use assms(2,3) ReadyView_stream [OF assms(1)] in \<open>simp_all add: assms(4) fed.rest\<close>)
  with assms(4-7) show ?thesis
    by (auto simp: took_def intro!: exI [of _ "take n (ReadyView b)"] exI [of _ "Suc 0"])
qed

lemma deliver_once_took:
  assumes "receives D isn b out"
  shows "case deliver_once deliver b s result of
      Inl r \<Rightarrow> took D deliver isn out s result r \<and> rb_blocked (fst (snd r)) \<and>
        dr_calls (fst r) \<le> dr_calls result + 1 \<and> dr_status (fst r) \<noteq> Deliv_Drained
    | Inr r \<Rightarrow> took D deliver isn out s result r \<and> dr_calls (fst r) = dr_calls result + 1"
proof (cases "ReadyView b = [] \<or> deliver s (ReadyView b) = None")
  case True
  with receives.blocked [OF assms, of True] show ?thesis
    by (auto simp: deliver_once_def Let_def SetBlocked_def [of True] intro!: took_nothing)
next
  case False
  then obtain sent s' where f: "ReadyView b \<noteq> []" "deliver s (ReadyView b) = Some (sent, s')" by auto
  define n where "n = (if sr_accepted_bytes sent \<le> length (ReadyView b) then sr_accepted_bytes sent else 0)"
  define b' where "b' = (if n \<noteq> 0 then snd (ConsumeReady n b) else b)"
  have b': "receives D isn b' (out @ take n (ReadyView b))"
    using receives.consume [OF assms, of n] assms by (simp add: b'_def n_def)
  note offer = took_offer [where deliver = deliver and s = s, OF assms f n_def]
  note offer = offer [OF b'] offer [OF receives.blocked [OF b', of True]]
  have b: "rb_blocked (SetBlocked True c)" for c by (simp add: SetBlocked_def)
  show ?thesis
    using f offer unfolding n_def b'_def
    by (auto simp: deliver_once_def Let_def b not_less split: SendStatus.split if_splits)
qed

lemma took_trans:
  assumes "took D deliver isn out s r (r', b', s')"
    "\<And>new. receives D isn b' (out @ new) \<Longrightarrow> took D deliver isn (out @ new) s' r' r''"
  shows "took D deliver isn out s r r''"
proof -
  from assms(1) obtain new c where new: "receives D isn b' (out @ new)"
    "fed D deliver (length out) s c (length (out @ new)) s'"
    "dr_accepted_bytes r' = dr_accepted_bytes r + length new" "dr_calls r' = dr_calls r + c"
    by (auto simp: took_def)
  obtain x b2 s2 where r: "r'' = (x, b2, s2)" by (cases r'')
  from assms(2) [OF new(1)] obtain new2 c2 where new2: "receives D isn b2 (out @ (new @ new2))"
    "fed D deliver (length (out @ new)) s' c2 (length (out @ new) + length new2) s2"
    "dr_accepted_bytes x = dr_accepted_bytes r' + length new2" "dr_calls x = dr_calls r' + c2"
    by (auto simp: took_def r)
  have "fed D deliver (length out) s (c + c2) (length out + length (new @ new2)) s2"
    using fed_append [OF new(2) new2(2)] by (simp add: add.assoc)
  with new new2 show ?thesis unfolding took_def r by (auto intro!: exI [of _ "new @ new2"] exI [of _ "c + c2"])
qed

lemma drain_loop_took:
  assumes "receives D isn b out"
  shows "took D deliver isn out s result (drain_loop budget deliver b s result) \<and>
    (case drain_loop budget deliver b s result of (result', b', s') \<Rightarrow> dr_calls result' \<le> dr_calls result + budget \<and>
      (dr_status result' = Deliv_Drained \<longleftrightarrow> rb_ready_bytes b' = 0 \<and> \<not> rb_blocked b'))"
  using assms
proof (induction budget arbitrary: b s result out)
  case 0
  then show ?case
    by (auto simp: drain_loop.simps [of 0] SetBlocked_def [of False]
        intro!: took_nothing receives.blocked [where v = False, unfolded SetBlocked_def])
next
  case (Suc budget)
  show ?case
  proof (cases "rb_ready_bytes b = 0")
    case True
    with Suc.prems show ?thesis
      by (auto simp: drain_loop.simps [of "Suc budget"] SetBlocked_def [of False]
          intro!: took_nothing receives.blocked [where v = False, unfolded SetBlocked_def])
  next
    case False
    note once = deliver_once_took [OF Suc.prems, where deliver = deliver and s = s and result = result]
    show ?thesis
    proof (cases "deliver_once deliver b s result")
      case (Inl r)
      with once False show ?thesis
        by (auto simp: drain_loop.simps [of "Suc budget"] split: prod.splits)
    next
      case (Inr r)
      obtain result' b' s' where r: "r = (result', b', s')" by (cases r)
      with once Inr have t: "took D deliver isn out s result (result', b', s')" and c: "dr_calls result' = dr_calls result + 1"
        by auto
      have eq: "drain_loop (Suc budget) deliver b s result = drain_loop budget deliver b' s' result'"
        using False Inr r by (simp add: drain_loop.simps [of "Suc budget"])
      obtain new where new: "receives D isn b' (out @ new)" using t by (auto simp: took_def)
      have "took D deliver isn out s result (drain_loop budget deliver b' s' result')"
        using Suc.IH [where s = s' and result = result'] by (intro took_trans [OF t]) blast
      with Suc.IH [OF new, where s = s' and result = result'] c show ?thesis
        unfolding eq by (simp add: split_beta)
    qed
  qed
qed

text \<open>
  C12: The delivery loop hands the stream to the session without loss, repetition or reordering, whatever
  the session answers (partial acceptance, refusal, too large a count, an exception). Every call offers
  the session exactly the bytes of the stream that follow what it has accepted so far, the state in which
  the session is left is the one these \<open>calls\<close> calls lead to, and what it has accepted in them is
  \<open>accepted_bytes\<close> bytes, after which the buffer holds the rest of the stream. The callback runs
  at most \<open>call_budget\<close> times, and when data was ready the loop reports \<open>Drained\<close> exactly when
  nothing is left and the ring is unblocked.\<close>

theorem delivery_feeds_stream:
  assumes "receives D isn b out" "rb_ready_bytes b \<noteq> 0"
  shows "case DrainTcpReceiveBuffer b deliver call_budget s of (result, b', s') \<Rightarrow>
    fed D deliver (length out) s (dr_calls result) (length out + dr_accepted_bytes result) s' \<and>
    (\<exists>new. receives D isn b' (out @ new) \<and> out @ new = map D [0..<length out + dr_accepted_bytes result]) \<and>
    dr_calls result \<le> call_budget \<and>
    (dr_status result = Deliv_Drained \<longleftrightarrow> rb_ready_bytes b' = 0 \<and> \<not> rb_blocked b')"
proof -
  obtain result b' s' where d: "DrainTcpReceiveBuffer b deliver call_budget s = (result, b', s')"
    by (cases "DrainTcpReceiveBuffer b deliver call_budget s")
  let ?r = "\<lparr>dr_status = Deliv_Idle, dr_accepted_bytes = 0, dr_calls = 0\<rparr>"
  have "took D deliver isn out s ?r (result, b', s') \<and> dr_calls result \<le> call_budget \<and>
    (dr_status result = Deliv_Drained \<longleftrightarrow> rb_ready_bytes b' = 0 \<and> \<not> rb_blocked b')"
  proof (cases "call_budget = 0")
    case True
    with d assms show ?thesis by (auto simp: DrainTcpReceiveBuffer_def intro!: took_nothing)
  next
    case False
    with d assms drain_loop_took [OF assms(1), where budget = call_budget and deliver = deliver and s = s and result = ?r] show ?thesis
      by (auto simp: DrainTcpReceiveBuffer_def)
  qed
  moreover have "out @ new = map D [0..<length out + length new]" if "receives D isn b' (out @ new)" for new
    using receives_inv [OF that] by simp
  ultimately show ?thesis unfolding d by (auto simp: took_def)
qed

theorem delivery_feeds_stream_witness:
  "let b0 = the (TcpReceiveBuffer_init 8 0 0); b1 = snd (OnSegment 0 (Some [1, 2, 3]) False b0);
       deliver = (\<lambda>n d. Some (\<lparr>sr_accepted_bytes = min 2 (length d), sr_status = Send_Accepted\<rparr>, Suc n));
       (result, b', n) = DrainTcpReceiveBuffer b1 deliver 16 0 in
   dr_status result = Deliv_Drained \<and> dr_accepted_bytes result = 3 \<and> n = 2 \<and> rb_ready_bytes b' = 0"
proof -
  define D :: "nat \<Rightarrow> u8" where "D = (\<lambda>i. of_nat (i + 1))"
  define b0 where "b0 = the (TcpReceiveBuffer_init 8 0 0)"
  define b1 where "b1 = snd (OnSegment 0 (Some [1, 2, 3]) False b0)"
  define deliver :: "nat \<Rightarrow> bytes \<Rightarrow> (SendResult \<times> nat) option" where
    "deliver = (\<lambda>n d. Some (\<lparr>sr_accepted_bytes = min 2 (length d), sr_status = Send_Accepted\<rparr>, Suc n))"
  have "let b0 = the (TcpReceiveBuffer_init 8 0 0); b1 = snd (OnSegment 0 (Some [1, 2, 3]) False b0);
      x = DrainTcpReceiveBuffer b1 deliver 16 0 in
    TcpReceiveBuffer_init 8 0 0 \<noteq> None \<and> rb_ready_bytes b0 = 0 \<and> rb_ready_bytes b1 \<noteq> 0 \<and>
    dr_status (fst x) = Deliv_Drained \<and> dr_accepted_bytes (fst x) = 3 \<and> snd (snd x) = 2"
    unfolding deliver_def by code_simp
  then have ev: "TcpReceiveBuffer_init 8 0 0 = Some b0" "rb_ready_bytes b0 = 0" "rb_ready_bytes b1 \<noteq> 0"
    "dr_status (fst (DrainTcpReceiveBuffer b1 deliver 16 0)) = Deliv_Drained"
    "dr_accepted_bytes (fst (DrainTcpReceiveBuffer b1 deliver 16 0)) = 3"
    "snd (snd (DrainTcpReceiveBuffer b1 deliver 16 0)) = 2"
    unfolding Let_def b1_def b0_def by auto
  have "receives D 0 b0 []" by (rule receives.start [OF ev(1)])
  moreover have "in_stream D 0 (length [] + rb_ready_bytes b0) 0 [1, 2, 3]"
    unfolding in_stream_def ev by (rule exI [of _ 0]) (simp add: D_def upt_rec)
  ultimately have "receives D 0 b1 []" unfolding b1_def by (rule receives.segment)
  from delivery_feeds_stream [OF this ev(3), where deliver = deliver and call_budget = 16 and s = 0] ev show ?thesis
    unfolding Let_def b0_def [symmetric] b1_def [symmetric] deliver_def [symmetric]
    by (auto split: prod.splits)
qed

end
