(* ===== verification/UdpFlow.thy ===== *)
theory UdpFlow
  imports Flow SpscRing TcpStream
begin

text \<open>
  The shard-local UDP flow table (\<open>src/udp/flow_table.h\<close>, \<open>flow_table.cpp\<close>). The session factory, the
  sessions, the egress emitter and the clock are code of the adapter: they are parameters of the
  operations. Which callbacks the table has installed in which session is part of the state, so that
  one can say that no session ever calls back for a flow that is gone.
\<close>

section \<open>Flows\<close>

datatype ReceiveStatus = RS_Accepted | RS_WouldBlock | RS_Closed

record IpEndpoint =
  ie_address :: IpAddress
  ie_port :: u16

record UdpOpenRequest =
  uq_flow_id :: u64
  uq_source :: IpEndpoint
  uq_original_destination :: IpEndpoint
  uq_resolved_destination :: IpEndpoint
  uq_route_mark :: u32
  uq_dscp :: u8

text \<open>A session is a handle; a null handle is \<open>None\<close>.\<close>

record DatagramOpenResult =
  do_handle :: "nat option"
  do_error :: SessionError

record UdpFlowConfig =
  uc_max_flows :: nat
  uc_idle_timeout_ms :: u64
  uc_emit_icmp_unreachable :: bool

record UdpFlowEntry =
  uf_flow :: FlowKey
  uf_flow_id :: u64
  uf_session :: "nat option"
  uf_session_bound :: bool
  uf_last_activity_ms :: u64
  uf_client_datagrams :: nat
  uf_remote_datagrams :: nat

record UdpFlowSnapshot =
  us_flow :: FlowKey
  us_flow_id :: u64
  us_session_bound :: bool
  us_last_activity_ms :: u64
  us_client_datagrams :: nat
  us_remote_datagrams :: nat

text \<open>
  A session holds a data callback and a closed callback. \<open>ut_callbacks (k, s)\<close> is the flow id captured by
  the callback of kind \<open>k\<close> that is installed in session \<open>s\<close>.
\<close>

datatype CallbackKind = DataCallback | ClosedCallback

record UdpFlowTable =
  ut_config :: UdpFlowConfig
  ut_has_factory :: bool
  ut_flows :: "UdpFlowEntry list"
  ut_flow_count :: nat
  ut_next_flow_id :: u64
  ut_shutdown :: bool
  ut_callbacks :: "CallbackKind \<times> nat \<Rightarrow> u64 option"

datatype Dispatch = Dp_Accepted | Dp_WouldBlock | Dp_Rejected | Dp_NoCapacity | Dp_Ignored

definition ReverseFlow :: "FlowKey \<Rightarrow> FlowKey" where
  "ReverseFlow flow = \<lparr>fl_source = fl_destination flow, fl_destination = fl_source flow,
     fl_source_port = fl_destination_port flow, fl_destination_port = fl_source_port flow,
     fl_protocol = fl_protocol flow\<rparr>"

definition UdpFlowTable_init :: "UdpFlowConfig \<Rightarrow> bool \<Rightarrow> UdpFlowTable" where
  "UdpFlowTable_init config has_factory =
     \<lparr>ut_config = config, ut_has_factory = has_factory, ut_flows = [], ut_flow_count = 0,
      ut_next_flow_id = 1, ut_shutdown = False, ut_callbacks = Map.empty\<rparr>"

definition UnbindSession :: "nat \<Rightarrow> UdpFlowTable \<Rightarrow> UdpFlowTable" where
  "UnbindSession i t =
     (let f = ut_flows t ! i in
      case uf_session f of
        Some s \<Rightarrow>
          if uf_session_bound f
          then t\<lparr>ut_callbacks := (ut_callbacks t)((DataCallback, s) := None, (ClosedCallback, s) := None),
                 ut_flows := (ut_flows t)[i := f\<lparr>uf_session_bound := False\<rparr>]\<rparr>
          else t
      | None \<Rightarrow> t)"

definition Udp_Evict :: "nat \<Rightarrow> UdpFlowTable \<Rightarrow> UdpFlowTable" where
  "Udp_Evict index t =
     (if index \<ge> length (ut_flows t) then t
      else
        let t = UnbindSession index t in
        t\<lparr>ut_flows := erase_at index (ut_flows t), ut_flow_count := ut_flow_count t - 1\<rparr>)"

definition idle :: "u64 \<Rightarrow> UdpFlowTable \<Rightarrow> UdpFlowEntry \<Rightarrow> bool" where
  "idle now_ms t f \<longleftrightarrow> now_ms - uf_last_activity_ms f \<ge> uc_idle_timeout_ms (ut_config t)"

text \<open>The new entry with its session, and the callbacks that are installed for it.\<close>

definition open_flow :: "(UdpOpenRequest \<Rightarrow> DatagramOpenResult option) \<Rightarrow> FlowKey \<Rightarrow> u64 \<Rightarrow> UdpFlowTable \<Rightarrow>
    UdpFlowEntry \<times> UdpFlowTable" where
  "open_flow open_udp flow now_ms t =
     (let f = \<lparr>uf_flow = flow, uf_flow_id = ut_next_flow_id t, uf_session = None, uf_session_bound = False,
                uf_last_activity_ms = now_ms, uf_client_datagrams = 0, uf_remote_datagrams = 0\<rparr>;
          t = t\<lparr>ut_next_flow_id := ut_next_flow_id t + 1\<rparr> in
      if \<not> ut_shutdown t \<and> ut_has_factory t then
        let dest = \<lparr>ie_address = fl_destination flow, ie_port = fl_destination_port flow\<rparr>;
            req = \<lparr>uq_flow_id = uf_flow_id f,
                   uq_source = \<lparr>ie_address = fl_source flow, ie_port = fl_source_port flow\<rparr>,
                   uq_original_destination = dest, uq_resolved_destination = dest, uq_route_mark = 0, uq_dscp = 0\<rparr>;
            opened = (case open_udp req of None \<Rightarrow> \<lparr>do_handle = None, do_error = SE_None\<rparr> | Some r \<Rightarrow> r) in
        case do_handle opened of
          None \<Rightarrow> (f, t)
        | Some s \<Rightarrow>
            if do_error opened = SE_None
            then (f\<lparr>uf_session := Some s, uf_session_bound := True\<rparr>,
                  t\<lparr>ut_callbacks := (ut_callbacks t)((DataCallback, s) \<mapsto> uf_flow_id f, (ClosedCallback, s) \<mapsto> uf_flow_id f)\<rparr>)
            else (f, t)
      else (f, t))"

definition make_room :: "u64 \<Rightarrow> UdpFlowTable \<Rightarrow> UdpFlowTable" where
  "make_room now_ms t = (case find_index (idle now_ms t) (ut_flows t) of None \<Rightarrow> t | Some i \<Rightarrow> Udp_Evict i t)"

definition FindOrCreate :: "(UdpOpenRequest \<Rightarrow> DatagramOpenResult option) \<Rightarrow> FlowKey \<Rightarrow> u64 \<Rightarrow> UdpFlowTable \<Rightarrow>
    nat option \<times> UdpFlowTable" where
  "FindOrCreate open_udp flow now_ms t =
     (case find_index (\<lambda>f. FlowKey_eq (uf_flow f) flow) (ut_flows t) of
        Some i \<Rightarrow> (Some i, t)
      | None \<Rightarrow>
          let t = (if length (ut_flows t) \<ge> uc_max_flows (ut_config t) then make_room now_ms t else t) in
          if length (ut_flows t) \<ge> uc_max_flows (ut_config t) then (None, t)
          else
            let (f, t) = open_flow open_udp flow now_ms t in
            (Some (length (ut_flows t)), t\<lparr>ut_flows := ut_flows t @ [f], ut_flow_count := ut_flow_count t + 1\<rparr>))"

text \<open>\<open>send\<close> is the session's \<open>Send\<close>; \<open>None\<close> is an exception.\<close>

definition OnClientDatagram ::
  "(UdpOpenRequest \<Rightarrow> DatagramOpenResult option) \<Rightarrow> (nat \<Rightarrow> bytes \<Rightarrow> SendResult option) \<Rightarrow>
   FlowKey \<Rightarrow> bytes \<Rightarrow> u64 \<Rightarrow> UdpFlowTable \<Rightarrow> Dispatch \<times> UdpFlowTable" where
  "OnClientDatagram open_udp send flow payload now_ms t =
     (if fl_protocol flow \<noteq> 17 \<or> ia_family (fl_source flow) \<noteq> ia_family (fl_destination flow) then (Dp_Ignored, t)
      else case FindOrCreate open_udp flow now_ms t of
        (None, t) \<Rightarrow> (Dp_NoCapacity, t)
      | (Some i, t) \<Rightarrow>
          let f = ut_flows t ! i in
          case uf_session f of
            None \<Rightarrow> (Dp_Rejected, t)
          | Some s \<Rightarrow>
              if \<not> uf_session_bound f then (Dp_Rejected, t)
              else
                let f = f\<lparr>uf_last_activity_ms := now_ms, uf_client_datagrams := uf_client_datagrams f + 1\<rparr>;
                    t = t\<lparr>ut_flows := (ut_flows t)[i := f]\<rparr> in
                case send s payload of
                  None \<Rightarrow> (Dp_Rejected, t)
                | Some result \<Rightarrow>
                    (case sr_status result of
                       Send_Accepted \<Rightarrow>
                         (if sr_accepted_bytes result = length payload then Dp_Accepted else Dp_Rejected, t)
                     | Send_WouldBlock \<Rightarrow> (Dp_WouldBlock, t)
                     | _ \<Rightarrow> (Dp_Rejected, Udp_Evict i t)))"

text \<open>The emitter takes the lease when it returns true; an empty lease is \<open>None\<close>.\<close>

definition OnRemoteData :: "u64 \<Rightarrow> (FlowKey \<Rightarrow> 'lease \<Rightarrow> bool) option \<Rightarrow> u64 \<Rightarrow> 'lease option \<Rightarrow> UdpFlowTable \<Rightarrow>
    ReceiveStatus \<times> 'lease option \<times> UdpFlowTable" where
  "OnRemoteData clock_now emitter flow_id lease t =
     (case find_index (\<lambda>f. uf_flow_id f = flow_id) (ut_flows t) of
        None \<Rightarrow> (RS_Closed, lease, t)
      | Some i \<Rightarrow>
          let f = ut_flows t ! i;
              f = f\<lparr>uf_last_activity_ms := clock_now, uf_remote_datagrams := uf_remote_datagrams f + 1\<rparr>;
              t = t\<lparr>ut_flows := (ut_flows t)[i := f]\<rparr> in
          case (lease, emitter) of
            (Some l, Some emit) \<Rightarrow>
              if emit (ReverseFlow (uf_flow f)) l then (RS_Accepted, None, t) else (RS_WouldBlock, lease, t)
          | _ \<Rightarrow> (RS_Accepted, lease, t))"

definition OnFlowClosed :: "u64 \<Rightarrow> UdpFlowTable \<Rightarrow> UdpFlowTable" where
  "OnFlowClosed flow_id t =
     (case find_index (\<lambda>f. uf_flow_id f = flow_id) (ut_flows t) of None \<Rightarrow> t | Some i \<Rightarrow> Udp_Evict i t)"

lemma length_UnbindSession [simp]: "length (ut_flows (UnbindSession i t)) = length (ut_flows t)"
  by (simp add: UnbindSession_def Let_def split: option.split)

lemma length_Evict: "i < length (ut_flows t) \<Longrightarrow> length (ut_flows (Udp_Evict i t)) = length (ut_flows t) - 1"
  by (simp add: Udp_Evict_def Let_def length_erase_at)

function purge_loop :: "u64 \<Rightarrow> nat \<Rightarrow> UdpFlowTable \<Rightarrow> UdpFlowTable" where
  "purge_loop now_ms i t =
     (if i < length (ut_flows t)
      then if idle now_ms t (ut_flows t ! i) then purge_loop now_ms i (Udp_Evict i t)
           else purge_loop now_ms (i + 1) t
      else t)"
  by pat_completeness auto
termination
  by (relation "measure (\<lambda>(now_ms, i, t). length (ut_flows t) - i)") (auto simp: length_Evict)

declare purge_loop.simps [simp del]

definition Udp_PurgeExpired :: "u64 \<Rightarrow> UdpFlowTable \<Rightarrow> UdpFlowTable" where
  "Udp_PurgeExpired now_ms t = purge_loop now_ms 0 t"

definition snapshot_of :: "UdpFlowEntry \<Rightarrow> UdpFlowSnapshot" where
  "snapshot_of f = \<lparr>us_flow = uf_flow f, us_flow_id = uf_flow_id f, us_session_bound = uf_session_bound f,
     us_last_activity_ms = uf_last_activity_ms f, us_client_datagrams = uf_client_datagrams f,
     us_remote_datagrams = uf_remote_datagrams f\<rparr>"

definition Udp_Find :: "FlowKey \<Rightarrow> UdpFlowTable \<Rightarrow> UdpFlowSnapshot option" where
  "Udp_Find flow t = map_option snapshot_of (find (\<lambda>f. FlowKey_eq (uf_flow f) flow) (ut_flows t))"

definition Udp_FindById :: "u64 \<Rightarrow> UdpFlowTable \<Rightarrow> UdpFlowSnapshot option" where
  "Udp_FindById flow_id t = map_option snapshot_of (find (\<lambda>f. uf_flow_id f = flow_id) (ut_flows t))"

definition Udp_Size :: "UdpFlowTable \<Rightarrow> nat" where
  "Udp_Size t = ut_flow_count t"

definition Udp_Capacity :: "UdpFlowTable \<Rightarrow> nat" where
  "Udp_Capacity t = uc_max_flows (ut_config t)"

fun unbind_all :: "nat \<Rightarrow> UdpFlowTable \<Rightarrow> UdpFlowTable" where
  "unbind_all 0 t = t"
| "unbind_all (Suc n) t = UnbindSession n (unbind_all n t)"

definition Udp_Shutdown :: "UdpFlowTable \<Rightarrow> UdpFlowTable" where
  "Udp_Shutdown t =
     (let t = unbind_all (length (ut_flows t)) (t\<lparr>ut_shutdown := True\<rparr>) in t\<lparr>ut_flows := [], ut_flow_count := 0\<rparr>)"

text \<open>
  The callbacks that the sessions call on the adapter's thread. \<open>post\<close> is the shard's control inbox;
  a message that is not accepted still has its lease.
\<close>

definition udp_data_callback :: "('lease ShardMessage \<Rightarrow> bool) \<Rightarrow> bool \<Rightarrow> u64 \<Rightarrow> 'lease option \<Rightarrow>
    ReceiveStatus \<times> 'lease option \<times> 'lease ShardMessage option" where
  "udp_data_callback post shutdown flow_id lease =
     (if lease = None \<or> shutdown then (RS_Closed, lease, None)
      else
        let msg = \<lparr>sm_type = kUdpSessionData, sm_flow_id = flow_id, sm_generation = 0, sm_data = lease,
                   sm_error = SE_None\<rparr> in
        if post msg then (RS_Accepted, None, Some msg)
        else (if shutdown then RS_Closed else RS_WouldBlock, sm_data msg, None))"

definition udp_closed_callback :: "('lease ShardMessage \<Rightarrow> bool) \<Rightarrow> bool \<Rightarrow> u64 \<Rightarrow> 'lease ShardMessage option" where
  "udp_closed_callback post shutdown flow_id =
     (if shutdown then None
      else
        let msg = \<lparr>sm_type = kUdpSessionClosed, sm_flow_id = flow_id, sm_generation = 0, sm_data = None,
                   sm_error = SE_None\<rparr> in
        if post msg then Some msg else None)"

section \<open>The invariant\<close>

definition callbacks_ok :: "UdpFlowTable \<Rightarrow> bool" where
  "callbacks_ok t \<longleftrightarrow>
     (\<forall>k s flow_id. ut_callbacks t (k, s) = Some flow_id \<longrightarrow>
        (\<exists>f \<in> set (ut_flows t). uf_session f = Some s \<and> uf_session_bound f \<and> uf_flow_id f = flow_id))"

definition table_ok :: "UdpFlowTable \<Rightarrow> bool" where
  "table_ok t \<longleftrightarrow>
     length (ut_flows t) \<le> uc_max_flows (ut_config t) \<and> ut_flow_count t = length (ut_flows t) \<and>
     sorted_wrt (\<lambda>f g. \<not> FlowKey_eq (uf_flow f) (uf_flow g)) (ut_flows t) \<and> callbacks_ok t"

lemma UdpFlowTable_init_ok: "table_ok (UdpFlowTable_init config has_factory)"
  by (simp add: table_ok_def UdpFlowTable_init_def callbacks_ok_def)

lemma sorted_wrt_erase_at: "sorted_wrt P xs \<Longrightarrow> sorted_wrt P (erase_at i xs)"
proof (cases "i < length xs")
  case True
  assume "sorted_wrt P xs"
  then have "sorted_wrt P (take i xs @ xs ! i # drop (Suc i) xs)"
    by (simp only: id_take_nth_drop [OF True, symmetric])
  then show ?thesis by (auto simp: erase_at_def sorted_wrt_append)
qed (simp add: erase_at_def)

lemma sorted_wrt_update_key:
  assumes "sorted_wrt (\<lambda>f g. \<not> R (key f) (key g)) xs" "key y = key (xs ! i)"
  shows "sorted_wrt (\<lambda>f g. \<not> R (key f) (key g)) (xs[i := y])"
proof -
  have "map key (xs[i := y]) = map key xs"
    using assms(2) by (metis list_update_id map_update)
  then have "sorted_wrt (\<lambda>a b. \<not> R a b) (map key (xs[i := y]))"
    using assms(1) by (simp add: sorted_wrt_map)
  then show ?thesis by (simp add: sorted_wrt_map)
qed

lemma mem_erase_at: "x \<in> set xs \<Longrightarrow> x \<noteq> xs ! i \<Longrightarrow> x \<in> set (erase_at i xs)"
proof -
  assume x: "x \<in> set xs" "x \<noteq> xs ! i"
  then obtain j where j: "j < length xs" "x = xs ! j" by (auto simp: in_set_conv_nth)
  with x have "j < i \<or> i < j" by (cases j i rule: linorder_cases) auto
  then show "x \<in> set (erase_at i xs)"
    using j by (auto simp: erase_at_def in_set_conv_nth intro: exI [of _ "j - Suc i"])
qed

text \<open>Evicting an entry: it loses its callbacks, and nothing else changes.\<close>

lemma Evict_flows: "i < length (ut_flows t) \<Longrightarrow> ut_flows (Udp_Evict i t) = erase_at i (ut_flows t)"
  by (simp add: Udp_Evict_def UnbindSession_def Let_def erase_at_def split: option.split)

lemma Evict_frame:
  "ut_config (Udp_Evict i t) = ut_config t" "ut_shutdown (Udp_Evict i t) = ut_shutdown t"
  "ut_has_factory (Udp_Evict i t) = ut_has_factory t"
  by (simp_all add: Udp_Evict_def UnbindSession_def Let_def split: option.split)

lemma Evict_callbacks:
  "i < length (ut_flows t) \<Longrightarrow>
     ut_callbacks (Udp_Evict i t) (k, s) =
       (if uf_session (ut_flows t ! i) = Some s \<and> uf_session_bound (ut_flows t ! i) then None else ut_callbacks t (k, s))"
  by (cases k) (simp_all add: Udp_Evict_def UnbindSession_def Let_def split: option.split)

lemma Evict_ok:
  assumes "table_ok t"
  shows "table_ok (Udp_Evict i t)"
proof (cases "i < length (ut_flows t)")
  case True
  have "callbacks_ok (Udp_Evict i t)"
    unfolding callbacks_ok_def
  proof (intro allI impI)
    fix k s flow_id assume c: "ut_callbacks (Udp_Evict i t) (k, s) = Some flow_id"
    then have "ut_callbacks t (k, s) = Some flow_id" and ne: "\<not> (uf_session (ut_flows t ! i) = Some s \<and> uf_session_bound (ut_flows t ! i))"
      by (auto simp: Evict_callbacks [OF True] split: if_splits)
    then obtain f where f: "f \<in> set (ut_flows t)" "uf_session f = Some s \<and> uf_session_bound f \<and> uf_flow_id f = flow_id"
      using assms unfolding table_ok_def callbacks_ok_def by blast
    with ne have "f \<noteq> ut_flows t ! i" by auto
    with f show "\<exists>f \<in> set (ut_flows (Udp_Evict i t)). uf_session f = Some s \<and> uf_session_bound f \<and> uf_flow_id f = flow_id"
      using mem_erase_at [OF f(1)] by (auto simp: Evict_flows [OF True])
  qed
  moreover have "ut_flow_count (Udp_Evict i t) = ut_flow_count t - 1"
    using True by (simp add: Udp_Evict_def UnbindSession_def Let_def split: option.split)
  ultimately show ?thesis
    using assms True by (auto simp: table_ok_def Evict_flows Evict_frame length_erase_at sorted_wrt_erase_at)
qed (use assms in \<open>simp add: Udp_Evict_def\<close>)

text \<open>Rewriting one entry in place, keeping its key, session and id.\<close>

lemma touch_ok:
  assumes "table_ok t" "i < length (ut_flows t)" "uf_flow f = uf_flow (ut_flows t ! i)"
    "uf_session f = uf_session (ut_flows t ! i)" "uf_session_bound f = uf_session_bound (ut_flows t ! i)"
    "uf_flow_id f = uf_flow_id (ut_flows t ! i)"
  shows "table_ok (t\<lparr>ut_flows := (ut_flows t)[i := f]\<rparr>)"
proof -
  have "\<exists>g \<in> set ((ut_flows t)[i := f]). uf_session g = Some s \<and> uf_session_bound g \<and> uf_flow_id g = flow_id"
    if c: "ut_callbacks t (k, s) = Some flow_id" for k s flow_id
  proof -
    obtain g where g: "g \<in> set (ut_flows t)" "uf_session g = Some s \<and> uf_session_bound g \<and> uf_flow_id g = flow_id"
      using assms(1) c unfolding table_ok_def callbacks_ok_def by blast
    then obtain j where j: "j < length (ut_flows t)" "g = ut_flows t ! j" by (auto simp: in_set_conv_nth)
    then have "(ut_flows t)[i := f] ! j \<in> set ((ut_flows t)[i := f])" by (intro nth_mem) simp
    with g j assms show ?thesis by (cases "i = j") force+
  qed
  moreover have "sorted_wrt (\<lambda>f g. \<not> FlowKey_eq (uf_flow f) (uf_flow g)) ((ut_flows t)[i := f])"
    using assms(1,3) by (intro sorted_wrt_update_key) (simp_all add: table_ok_def)
  ultimately show ?thesis using assms(1) by (simp add: table_ok_def callbacks_ok_def)
qed

lemma open_flow_fields:
  assumes "open_flow open_udp flow now_ms t = (f, t')"
  shows "uf_flow f = flow" "ut_flows t' = ut_flows t" "ut_config t' = ut_config t" "ut_flow_count t' = ut_flow_count t"
    "ut_callbacks t' (k, s) = Some flow_id \<Longrightarrow>
       ut_callbacks t (k, s) = Some flow_id \<or> uf_session f = Some s \<and> uf_session_bound f \<and> uf_flow_id f = flow_id"
  using assms by (auto simp: open_flow_def Let_def split: if_splits option.splits)

lemma make_room_ok: "table_ok t \<Longrightarrow> table_ok (make_room now_ms t)"
  by (simp add: make_room_def Evict_ok split: option.split)

lemma make_room_frame:
  "ut_config (make_room now_ms t) = ut_config t" "set (ut_flows (make_room now_ms t)) \<subseteq> set (ut_flows t)"
  using set_erase_at by (auto simp: make_room_def Evict_frame Evict_flows find_index_Some split: option.splits) fastforce

lemma FindOrCreate_ok:
  assumes "table_ok t" "FindOrCreate open_udp flow now_ms t = (r, t')"
  shows "table_ok t'" "r = Some i \<Longrightarrow> i < length (ut_flows t')"
    "r = Some i \<Longrightarrow> FlowKey_eq flow flow \<Longrightarrow> FlowKey_eq (uf_flow (ut_flows t' ! i)) flow"
proof -
  let ?same = "\<lambda>f. FlowKey_eq (uf_flow f) flow"
  define t1 where "t1 = (if length (ut_flows t) \<ge> uc_max_flows (ut_config t) then make_room now_ms t else t)"
  have t1: "table_ok t1" "set (ut_flows t1) \<subseteq> set (ut_flows t)"
    using assms(1) make_room_ok make_room_frame by (auto simp: t1_def)
  have "table_ok t' \<and> (r = Some i \<longrightarrow> i < length (ut_flows t') \<and> (FlowKey_eq flow flow \<longrightarrow> ?same (ut_flows t' ! i)))"
  proof (cases "find_index ?same (ut_flows t)")
    case None
    then have new: "\<forall>f \<in> set (ut_flows t1). \<not> ?same f" using t1(2) by (auto simp: find_index_None)
    obtain f t2 where o: "open_flow open_udp flow now_ms t1 = (f, t2)" by fastforce
    note o' = open_flow_fields [OF o]
    have "callbacks_ok (t2\<lparr>ut_flows := ut_flows t2 @ [f], ut_flow_count := ut_flow_count t2 + 1\<rparr>)"
      using t1(1) o'(2,5) by (fastforce simp: callbacks_ok_def table_ok_def)
    then have "table_ok (t2\<lparr>ut_flows := ut_flows t2 @ [f], ut_flow_count := ut_flow_count t2 + 1\<rparr>)"
      if "\<not> length (ut_flows t1) \<ge> uc_max_flows (ut_config t1)"
      using t1(1) new o'(1-4) that by (auto simp: table_ok_def sorted_wrt_append)
    then show ?thesis
      using assms(2) None t1(1) o o'(1,2) unfolding FindOrCreate_def t1_def [symmetric]
      by (auto simp: Let_def split: if_splits)
  next
    case (Some j)
    then show ?thesis using assms Some [unfolded find_index_Some] by (auto simp: FindOrCreate_def)
  qed
  then show "table_ok t'" "r = Some i \<Longrightarrow> i < length (ut_flows t')"
    "r = Some i \<Longrightarrow> FlowKey_eq flow flow \<Longrightarrow> FlowKey_eq (uf_flow (ut_flows t' ! i)) flow" by auto
qed

lemma OnClientDatagram_ok:
  assumes "table_ok t"
  shows "table_ok (snd (OnClientDatagram open_udp send flow payload now_ms t))"
proof -
  obtain r t' where r: "FindOrCreate open_udp flow now_ms t = (r, t')" by fastforce
  note ok = FindOrCreate_ok [OF assms r]
  show ?thesis
  proof (cases r)
    case None
    then show ?thesis using ok(1) assms r by (simp add: OnClientDatagram_def)
  next
    case (Some i)
    let ?f = "(ut_flows t' ! i)\<lparr>uf_last_activity_ms := now_ms, uf_client_datagrams := uf_client_datagrams (ut_flows t' ! i) + 1\<rparr>"
    have "table_ok (t'\<lparr>ut_flows := (ut_flows t')[i := ?f]\<rparr>)"
      using ok Some by (intro touch_ok) simp_all
    then show ?thesis
      using r Some assms ok(1)
      by (auto simp: OnClientDatagram_def Let_def Evict_ok split: option.split SendStatus.split)
  qed
qed

lemma OnRemoteData_ok: "table_ok t \<Longrightarrow> table_ok (snd (snd (OnRemoteData clock_now emitter flow_id lease t)))"
  by (auto simp: OnRemoteData_def Let_def find_index_Some split: option.split intro!: touch_ok)

lemma OnFlowClosed_ok: "table_ok t \<Longrightarrow> table_ok (OnFlowClosed flow_id t)"
  by (simp add: OnFlowClosed_def Evict_ok split: option.split)

lemma purge_loop_ok: "table_ok t \<Longrightarrow> table_ok (purge_loop now_ms i t)"
proof (induction now_ms i t rule: purge_loop.induct)
  case (1 now_ms i t)
  then show ?case by (subst purge_loop.simps) (auto simp: Evict_ok)
qed

lemma unbind_all_spec:
  assumes "callbacks_ok t" "n \<le> length (ut_flows t)"
  shows "length (ut_flows (unbind_all n t)) = length (ut_flows t)"
    "ut_callbacks (unbind_all n t) (k, s) \<noteq> None \<Longrightarrow>
       \<exists>j. n \<le> j \<and> j < length (ut_flows t) \<and> uf_session (ut_flows t ! j) = Some s \<and> uf_session_bound (ut_flows t ! j)"
    "n \<le> j \<Longrightarrow> j < length (ut_flows t) \<Longrightarrow> ut_flows (unbind_all n t) ! j = ut_flows t ! j"
    "ut_config (unbind_all n t) = ut_config t"
proof -
  have "length (ut_flows (unbind_all n t)) = length (ut_flows t) \<and>
    (\<forall>k s. ut_callbacks (unbind_all n t) (k, s) \<noteq> None \<longrightarrow>
       (\<exists>j. n \<le> j \<and> j < length (ut_flows t) \<and> uf_session (ut_flows t ! j) = Some s \<and> uf_session_bound (ut_flows t ! j))) \<and>
    (\<forall>j. n \<le> j \<and> j < length (ut_flows t) \<longrightarrow> ut_flows (unbind_all n t) ! j = ut_flows t ! j) \<and>
    ut_config (unbind_all n t) = ut_config t"
    using assms(2)
  proof (induction n)
    case 0
    then show ?case using assms(1) by (fastforce simp: callbacks_ok_def in_set_conv_nth)
  next
    case (Suc n)
    let ?t = "unbind_all n t"
    have IH: "length (ut_flows ?t) = length (ut_flows t)" "ut_flows ?t ! n = ut_flows t ! n"
      "\<And>k s. ut_callbacks ?t (k, s) \<noteq> None \<Longrightarrow>
        \<exists>j. n \<le> j \<and> j < length (ut_flows t) \<and> uf_session (ut_flows t ! j) = Some s \<and> uf_session_bound (ut_flows t ! j)"
      "\<And>j. n \<le> j \<Longrightarrow> j < length (ut_flows t) \<Longrightarrow> ut_flows ?t ! j = ut_flows t ! j"
      "ut_config ?t = ut_config t"
      using Suc by auto
    have "\<exists>j \<ge> Suc n. j < length (ut_flows t) \<and> uf_session (ut_flows t ! j) = Some s \<and> uf_session_bound (ut_flows t ! j)"
      if s: "ut_callbacks (unbind_all (Suc n) t) (k, s) \<noteq> None" for k s
    proof -
      have "ut_callbacks ?t (k, s) \<noteq> None" "\<not> (uf_session (ut_flows t ! n) = Some s \<and> uf_session_bound (ut_flows t ! n))"
        using s IH(2) by (cases k; auto simp: UnbindSession_def Let_def split: option.splits if_splits)+
      then show ?thesis using IH(3) [of k s] by (metis le_antisym not_less_eq_eq)
    qed
    then show ?case using IH by (auto simp: UnbindSession_def Let_def nth_list_update split: option.split)
  qed
  then show "length (ut_flows (unbind_all n t)) = length (ut_flows t)"
    "ut_callbacks (unbind_all n t) (k, s) \<noteq> None \<Longrightarrow>
       \<exists>j. n \<le> j \<and> j < length (ut_flows t) \<and> uf_session (ut_flows t ! j) = Some s \<and> uf_session_bound (ut_flows t ! j)"
    "n \<le> j \<Longrightarrow> j < length (ut_flows t) \<Longrightarrow> ut_flows (unbind_all n t) ! j = ut_flows t ! j"
    "ut_config (unbind_all n t) = ut_config t" by auto
qed

lemma Shutdown_ok:
  assumes "table_ok t"
  shows "table_ok (Udp_Shutdown t)" "ut_callbacks (Udp_Shutdown t) = Map.empty" "ut_flows (Udp_Shutdown t) = []"
proof -
  let ?t = "t\<lparr>ut_shutdown := True\<rparr>"
  have "callbacks_ok ?t" using assms by (simp add: table_ok_def callbacks_ok_def)
  note u = unbind_all_spec [OF this, of "length (ut_flows t)"]
  show e: "ut_callbacks (Udp_Shutdown t) = Map.empty"
    using u(2) by (fastforce simp: Udp_Shutdown_def Let_def)
  then show "table_ok (Udp_Shutdown t)"
    using u(4) by (simp add: table_ok_def callbacks_ok_def Udp_Shutdown_def Let_def)
  show "ut_flows (Udp_Shutdown t) = []" by (simp add: Udp_Shutdown_def Let_def)
qed

section \<open>Histories\<close>

datatype 'lease udp_op =
  OpClient "UdpOpenRequest \<Rightarrow> DatagramOpenResult option" "nat \<Rightarrow> bytes \<Rightarrow> SendResult option" FlowKey bytes u64
| OpRemote u64 "(FlowKey \<Rightarrow> 'lease \<Rightarrow> bool) option" u64 "'lease option"
| OpClosed u64
| OpPurge u64
| OpShutdown

fun udp_step :: "'lease udp_op \<Rightarrow> UdpFlowTable \<Rightarrow> UdpFlowTable" where
  "udp_step (OpClient open_udp send flow payload now_ms) t = snd (OnClientDatagram open_udp send flow payload now_ms t)"
| "udp_step (OpRemote clock_now emitter flow_id lease) t = snd (snd (OnRemoteData clock_now emitter flow_id lease t))"
| "udp_step (OpClosed flow_id) t = OnFlowClosed flow_id t"
| "udp_step (OpPurge now_ms) t = Udp_PurgeExpired now_ms t"
| "udp_step OpShutdown t = Udp_Shutdown t"

lemma udp_step_ok: "table_ok t \<Longrightarrow> table_ok (udp_step op t)"
  by (cases op) (simp_all add: OnClientDatagram_ok OnRemoteData_ok OnFlowClosed_ok Udp_PurgeExpired_def purge_loop_ok Shutdown_ok)

interpretation udp_table: machine udp_step table_ok
  by unfold_locales (rule udp_step_ok)

text \<open>
  C19: In every history, whatever the session factory and the sessions answer and throw, the table holds
  at most \<open>max_flows\<close> flows with pairwise different keys, reports their number, and every callback that
  is installed in a session belongs to a flow that is still tracked and bound to that session; after
  \<open>Shutdown\<close> no session has a callback into the table.\<close>

theorem udp_callbacks_never_dangle:
  "table_ok (run udp_step ops (UdpFlowTable_init config has_factory)) \<and>
   ut_callbacks (Udp_Shutdown (run udp_step ops (UdpFlowTable_init config has_factory))) = Map.empty"
  using udp_table.run_inv [OF UdpFlowTable_init_ok] Shutdown_ok(2) by blast

section \<open>Purging\<close>

lemma idle_Evict: "idle now_ms (Udp_Evict i t) = idle now_ms t"
  by (simp add: idle_def fun_eq_iff Evict_frame)

lemma purge_loop_flows:
  "i \<le> length (ut_flows t) \<Longrightarrow>
     ut_flows (purge_loop now_ms i t) = take i (ut_flows t) @ filter (\<lambda>f. \<not> idle now_ms t f) (drop i (ut_flows t))"
proof (induction now_ms i t rule: purge_loop.induct)
  case (1 now_ms i t)
  show ?case
  proof (cases "i < length (ut_flows t)")
    case True
    then have d: "drop i (ut_flows t) = ut_flows t ! i # drop (Suc i) (ut_flows t)" by (rule Cons_nth_drop_Suc [symmetric])
    show ?thesis
    proof (cases "idle now_ms t (ut_flows t ! i)")
      case idle: True
      then show ?thesis
        using "1.IH"(1) [OF True idle] True d
        by (subst purge_loop.simps) (simp add: Evict_flows length_erase_at idle_Evict, simp add: erase_at_def)
    next
      case False
      then show ?thesis
        using "1.IH"(2) [OF True False] True d
        by (subst purge_loop.simps) (simp add: take_Suc_conv_app_nth)
    qed
  next
    case False
    then show ?thesis using 1(3) by (subst purge_loop.simps) simp
  qed
qed

lemma future_activity_is_idle:
  assumes "now_ms < uf_last_activity_ms f"
    "unat (uf_last_activity_ms f) - unat now_ms + unat (uc_idle_timeout_ms (ut_config t)) \<le> 2 ^ 64"
  shows "idle now_ms t f"
proof -
  have lt: "unat now_ms < unat (uf_last_activity_ms f)" using assms(1) by (simp add: word_less_nat_alt)
  then have "unat (now_ms - uf_last_activity_ms f) = 2 ^ 64 + unat now_ms - unat (uf_last_activity_ms f)"
    by (simp add: unat_sub_if')
  then show ?thesis using assms(2) lt by (simp add: idle_def word_le_nat_alt)
qed

text \<open>
  C36: A flow that has just received a remote datagram is evicted by the next \<open>PurgeExpired\<close> when that
  call is given a time before the clock reading that \<open>OnRemoteData\<close> stored: the idle time is an
  unsigned difference and wraps to a huge value. The shard's event loop calls them in this way,
  because it samples \<open>now_ms\<close> once at its start.\<close>

theorem purge_evicts_active_flow:
  assumes "distinct (map uf_flow_id (ut_flows t))" "Udp_FindById flow_id t \<noteq> None" "now_ms < clock_now"
    "unat clock_now - unat now_ms + unat (uc_idle_timeout_ms (ut_config t)) \<le> 2 ^ 64"
  shows "Udp_FindById flow_id (Udp_PurgeExpired now_ms (snd (snd (OnRemoteData clock_now emitter flow_id lease t)))) = None"
proof -
  obtain i where i: "find_index (\<lambda>f. uf_flow_id f = flow_id) (ut_flows t) = Some i"
    using assms(2) by (cases "find_index (\<lambda>f. uf_flow_id f = flow_id) (ut_flows t)")
      (auto simp: Udp_FindById_def find_index_None find_Some_iff)
  note i' = i [unfolded find_index_Some]
  let ?f = "(ut_flows t ! i)\<lparr>uf_last_activity_ms := clock_now, uf_remote_datagrams := uf_remote_datagrams (ut_flows t ! i) + 1\<rparr>"
  let ?t = "t\<lparr>ut_flows := (ut_flows t)[i := ?f]\<rparr>"
  have "snd (snd (OnRemoteData clock_now emitter flow_id lease t)) = ?t"
    using i by (simp add: OnRemoteData_def Let_def split: option.split)
  moreover have "idle now_ms ?t g" if g: "g \<in> set ((ut_flows t)[i := ?f])" "uf_flow_id g = flow_id" for g
  proof -
    obtain j where j: "j < length (ut_flows t)" "g = (ut_flows t)[i := ?f] ! j" using g(1) by (auto simp: in_set_conv_nth)
    have "j = i"
    proof (rule ccontr)
      assume "j \<noteq> i"
      then have "map uf_flow_id (ut_flows t) ! j = map uf_flow_id (ut_flows t) ! i" using j g(2) i' by simp
      with assms(1) j(1) i' \<open>j \<noteq> i\<close> show False
        using nth_eq_iff_index_eq [of "map uf_flow_id (ut_flows t)" j i] by simp
    qed
    then show ?thesis using j assms(3,4) i' by (intro future_activity_is_idle) simp_all
  qed
  ultimately show ?thesis
    by (auto simp: Udp_FindById_def Udp_PurgeExpired_def purge_loop_flows find_None_iff)
qed

definition sample_table :: UdpFlowTable where
  "sample_table = udp_step (OpClient (\<lambda>_. Some \<lparr>do_handle = Some 5, do_error = SE_None\<rparr>)
     (\<lambda>_ p. Some \<lparr>sr_accepted_bytes = length p, sr_status = Send_Accepted\<rparr>)
     (sample_flow\<lparr>fl_protocol := 17\<rparr>) [1, 2] 1000 :: unit udp_op)
     (UdpFlowTable_init \<lparr>uc_max_flows = 4, uc_idle_timeout_ms = 60000, uc_emit_icmp_unreachable = True\<rparr> True)"

theorem purge_evicts_active_flow_witness:
  "Udp_FindById 1 sample_table \<noteq> None \<and>
   Udp_FindById 1 (Udp_PurgeExpired 1000 (snd (snd (OnRemoteData 1001 (Some (\<lambda>_ _. True)) 1 (Some ()) sample_table)))) = None"
proof -
  have f: "distinct (map uf_flow_id (ut_flows sample_table))" "Udp_FindById 1 sample_table \<noteq> None"
    "uc_idle_timeout_ms (ut_config sample_table) = 60000"
    by code_simp+
  from purge_evicts_active_flow [OF f(1,2), of 1000 1001] f(2,3) show ?thesis by simp
qed

end
