(* ===== verification/Udp.thy ===== *)
theory Udp
  imports TcpOutput
begin

text \<open>
  UDP datagrams: the bounded parser and the checksum (\<open>src/udp/udp.cpp\<close>), the classification of IP
  packets (\<open>src/udp/input.cpp\<close>) and the serialiser (\<open>src/udp/output.cpp\<close>). A datagram that is built
  reads back with its flow and payload for both IP versions, including the checksum that happens to be
  zero and is sent as \<open>0xFFFF\<close>; an IPv4 datagram whose total length does not fit 16 bits is built
  nevertheless and cannot be read back.
\<close>

section \<open>The parser\<close>

datatype UdpParseError = Udp_None | Udp_NullData | Udp_TooShort | Udp_LengthMismatch | Udp_BadChecksum

record UdpHeader =
  uh_src_port :: u16
  uh_dst_port :: u16
  uh_length :: u16
  uh_checksum :: u16

record UdpParseResult =
  up_error :: UdpParseError
  up_header :: UdpHeader
  up_flow :: FlowKey
  up_payload :: "bytes option"

definition UdpParseResult_init :: UdpParseResult where
  "UdpParseResult_init = \<lparr>up_error = Udp_None,
     up_header = \<lparr>uh_src_port = 0, uh_dst_port = 0, uh_length = 0, uh_checksum = 0\<rparr>,
     up_flow = FlowKey_init, up_payload = None\<rparr>"

definition udp_checksum_seed :: "IpAddress \<Rightarrow> IpAddress \<Rightarrow> nat \<Rightarrow> u32" where
  "udp_checksum_seed source destination len =
     (if IsIpv4 source
      then Ipv4PseudoHeaderSeed (take 4 (ia_bytes source)) (take 4 (ia_bytes destination)) 17 (of_nat len)
      else Ipv6PseudoHeaderSeed (take 16 (ia_bytes source)) (take 16 (ia_bytes destination)) 17 (of_nat len))"

definition udp_checksum_bad :: "IpAddress \<Rightarrow> IpAddress \<Rightarrow> bytes \<Rightarrow> bool" where
  "udp_checksum_bad source destination d =
     (let udp_length = unat (rd16 d 4); checksum = rd16 d 6 in
      if checksum = 0 then \<not> IsIpv4 source
      else InternetChecksum (take udp_length d) (udp_checksum_seed source destination udp_length) \<noteq> 0)"

definition ParseUdpDatagram :: "IpAddress \<Rightarrow> IpAddress \<Rightarrow> bytes option \<Rightarrow> bool \<Rightarrow> UdpParseResult" where
  "ParseUdpDatagram source destination data validate_checksum =
     (let result = UdpParseResult_init in
      case data of
        None \<Rightarrow> result\<lparr>up_error := Udp_NullData\<rparr>
      | Some d \<Rightarrow>
          if ia_family source \<noteq> ia_family destination then result\<lparr>up_error := Udp_NullData\<rparr>
          else if length d < 8 then result\<lparr>up_error := Udp_TooShort\<rparr>
          else
            let udp_length = rd16 d 4 in
            if unat udp_length < 8 \<or> unat udp_length > length d then result\<lparr>up_error := Udp_LengthMismatch\<rparr>
            else if validate_checksum \<and> udp_checksum_bad source destination d
              then result\<lparr>up_error := Udp_BadChecksum\<rparr>
            else result\<lparr>
              up_header := \<lparr>uh_src_port = rd16 d 0, uh_dst_port = rd16 d 2, uh_length = udp_length,
                uh_checksum = rd16 d 6\<rparr>,
              up_flow := \<lparr>fl_source = source, fl_destination = destination, fl_source_port = rd16 d 0,
                fl_destination_port = rd16 d 2, fl_protocol = 17\<rparr>,
              up_payload := Some (slice 8 (unat udp_length - 8) d)\<rparr>)"

definition ComputeUdpChecksum :: "IpAddress \<Rightarrow> IpAddress \<Rightarrow> bytes option \<Rightarrow> u16" where
  "ComputeUdpChecksum source destination data =
     (case data of
        None \<Rightarrow> 0
      | Some d \<Rightarrow>
          if length d < 8 then 0
          else if ia_family source \<noteq> ia_family destination then 0
          else
            let computed = InternetChecksum d (udp_checksum_seed source destination (length d)) in
            if computed = 0 then 0xFFFF else computed)"

section \<open>Classification of IP packets\<close>

datatype UdpInputError = UIn_None | UIn_NotUdp | UIn_MalformedIp | UIn_MalformedUdp | UIn_BadChecksum

record UdpInputResult =
  ui_error :: UdpInputError
  ui_datagram :: UdpParseResult

text \<open>The mapping of the parser's result, the same in both branches.\<close>

definition finish_udp :: "UdpParseResult \<Rightarrow> UdpInputResult \<Rightarrow> UdpInputResult" where
  "finish_udp udp result =
     (if up_error udp = Udp_BadChecksum then result\<lparr>ui_error := UIn_BadChecksum\<rparr>
      else if up_error udp \<noteq> Udp_None then result\<lparr>ui_error := UIn_MalformedUdp\<rparr>
      else result\<lparr>ui_datagram := udp\<rparr>)"

definition input_udp4 :: "bytes \<Rightarrow> UdpInputResult \<Rightarrow> UdpInputResult" where
  "input_udp4 packet result =
     (let ip = ParseIpv4 packet; h = ip4_header ip in
      if ip4_error ip \<noteq> Ipv4_None then result\<lparr>ui_error := UIn_MalformedIp\<rparr>
      else if ip4_protocol h \<noteq> 17 then result\<lparr>ui_error := UIn_NotUdp\<rparr>
      else if ip4_fragment_offset h \<noteq> 0 \<or> ip4_flags h AND 0x01 \<noteq> 0 then result\<lparr>ui_error := UIn_MalformedIp\<rparr>
      else
        let src = Ipv4_Address_of (ip4_src_ip h); dst = Ipv4_Address_of (ip4_dst_ip h);
            validate_checksum =
              (case ip4_payload ip of
                 Some p \<Rightarrow> if ip4_payload_length h \<ge> 8 then rd16 p 6 \<noteq> 0 else False
               | None \<Rightarrow> False) in
        finish_udp (ParseUdpDatagram src dst (ip4_payload ip) validate_checksum) result)"

definition input_udp6 :: "bytes \<Rightarrow> UdpInputResult \<Rightarrow> UdpInputResult" where
  "input_udp6 packet result =
     (let ip = ParseIpv6 packet; h = ip6_header ip in
      if ip6_error ip \<noteq> Ipv6_None then result\<lparr>ui_error := UIn_MalformedIp\<rparr>
      else if ip6_final_next_header ip \<noteq> 17 then result\<lparr>ui_error := UIn_NotUdp\<rparr>
      else if ip6_fragment_header_present ip then result\<lparr>ui_error := UIn_MalformedIp\<rparr>
      else finish_udp (ParseUdpDatagram (Ipv6_Address (ip6_src_ip h)) (Ipv6_Address (ip6_dst_ip h))
             (ip6_payload ip) True) result)"

definition ParseIpUdpPacket :: "bytes option \<Rightarrow> UdpInputResult" where
  "ParseIpUdpPacket packet =
     (let result = \<lparr>ui_error = UIn_None, ui_datagram = UdpParseResult_init\<rparr> in
      case packet of
        None \<Rightarrow> result\<lparr>ui_error := UIn_MalformedIp\<rparr>
      | Some p \<Rightarrow>
          if length p = 0 then result\<lparr>ui_error := UIn_MalformedIp\<rparr>
          else
            let version = drop_bit 4 (p ! 0) in
            if version = 4 then input_udp4 p result
            else if version = 6 then input_udp6 p result
            else result\<lparr>ui_error := UIn_MalformedIp\<rparr>)"

section \<open>The serialiser\<close>

datatype UdpOutputError = UOut_None | UOut_InvalidFlow | UOut_BufferTooSmall | UOut_PayloadTooLarge

record UdpOutputResult =
  uo_error :: UdpOutputError
  uo_packet_length :: nat

definition write_udp :: "nat \<Rightarrow> FlowKey \<Rightarrow> bytes \<Rightarrow> nat \<Rightarrow> bytes \<Rightarrow> bytes" where
  "write_udp hl flow payload udp_length output =
     (let output = memcpy_at 0 (replicate (hl + 8) 0) output;
          output = Write16 hl (fl_source_port flow) output;
          output = Write16 (hl + 2) (fl_destination_port flow) output;
          output = Write16 (hl + 4) (of_nat udp_length) output;
          output = (if payload \<noteq> [] then memcpy_at (hl + 8) payload output else output);
          checksum = InternetChecksum (slice hl udp_length output)
            (udp_checksum_seed (fl_source flow) (fl_destination flow) udp_length) in
      Write16 (hl + 6) (if checksum = 0 then 0xFFFF else checksum) output)"

definition write_udp_ipv4 :: "FlowKey \<Rightarrow> nat \<Rightarrow> u16 \<Rightarrow> u8 \<Rightarrow> bytes \<Rightarrow> bytes" where
  "write_udp_ipv4 flow packet_length ipv4_id hop_limit output =
     (let output = output[0 := 0x45];
          output = Write16 2 (of_nat packet_length) output;
          output = Write16 4 ipv4_id output;
          output = Write16 6 0x4000 output;
          output = output[8 := hop_limit, 9 := 17];
          output = memcpy_at 12 (take 4 (ia_bytes (fl_source flow))) output;
          output = memcpy_at 16 (take 4 (ia_bytes (fl_destination flow))) output in
      Write16 10 (InternetChecksum (take 20 output) 0) output)"

definition write_udp_ipv6 :: "FlowKey \<Rightarrow> nat \<Rightarrow> u8 \<Rightarrow> bytes \<Rightarrow> bytes" where
  "write_udp_ipv6 flow udp_length hop_limit output =
     (let output = output[0 := 0x60];
          output = Write16 4 (of_nat udp_length) output;
          output = output[6 := 17, 7 := hop_limit];
          output = memcpy_at 8 (take 16 (ia_bytes (fl_source flow))) output in
      memcpy_at 24 (take 16 (ia_bytes (fl_destination flow))) output)"

text \<open>
  The payload is a pointer and a length; \<open>None\<close> with a length of zero is an empty payload.
\<close>

definition BuildUdpPacket ::
  "FlowKey \<Rightarrow> bytes option \<Rightarrow> nat \<Rightarrow> bytes option \<Rightarrow> u16 \<Rightarrow> u8 \<Rightarrow> UdpOutputResult \<times> bytes option" where
  "BuildUdpPacket flow payload payload_length output ipv4_id hop_limit =
     (let fail = \<lambda>e. (\<lparr>uo_error = e, uo_packet_length = 0\<rparr>, output) in
      case output of
        None \<Rightarrow> fail UOut_InvalidFlow
      | Some out \<Rightarrow>
          if fl_protocol flow \<noteq> 17 \<or> ia_family (fl_source flow) \<noteq> ia_family (fl_destination flow)
            then fail UOut_InvalidFlow
          else if payload = None \<and> payload_length \<noteq> 0 then fail UOut_InvalidFlow
          else
            let udp_length = payload_length + 8 in
            if udp_length > 65535 then fail UOut_PayloadTooLarge
            else
              let ip_header_length = (if IsIpv4 (fl_source flow) then 20 else 40);
                  packet_length = ip_header_length + udp_length in
              if length out < packet_length then fail UOut_BufferTooSmall
              else
                let bytes = (case payload of None \<Rightarrow> [] | Some p \<Rightarrow> take payload_length p);
                    out = write_udp ip_header_length flow bytes udp_length out;
                    out = (if IsIpv4 (fl_source flow) then write_udp_ipv4 flow packet_length ipv4_id hop_limit out
                           else write_udp_ipv6 flow udp_length hop_limit out) in
                (\<lparr>uo_error = UOut_None, uo_packet_length = packet_length\<rparr>, Some out))"

section \<open>The checksum field\<close>

text \<open>A computed checksum of zero is sent as \<open>0xFFFF\<close>, which verifies as well.\<close>

lemma checksum_insert_nonzero:
  assumes "even k" "k + 2 \<le> length data" "rd16 data k = 0" "unat seed + bsum data + 65535 < 2 ^ 32"
  defines "c \<equiv> InternetChecksum data seed"
  shows "InternetChecksum (memcpy_at k (be16_bytes (if c = 0 then 0xFFFF else c)) data) seed = 0"
proof (cases "c = 0")
  case True
  let ?new = "memcpy_at k (be16_bytes 0xFFFF) data"
  have new: "bsum ?new = bsum data + 65535"
    using bsum_memcpy16 [OF assms(1,2), of "0xFFFF"] assms(3) by simp
  have "0 < unat seed + bsum data \<and> 65535 dvd unat seed + bsum data"
    using True assms(4) InternetChecksum_zero_iff [of seed data] by (simp add: c_def)
  then have "0 < unat seed + bsum ?new \<and> 65535 dvd unat seed + bsum ?new"
    unfolding new by (metis add.assoc add_gr_0 dvd_add dvd_refl)
  with True show ?thesis using InternetChecksum_zero_iff [of seed ?new] assms(4) new by simp
qed (use assms checksum_insert in auto)

lemma udp_checksum_seed_cong:
  "IpAddress_eq a a' \<Longrightarrow> IpAddress_eq b b' \<Longrightarrow> ia_family b = ia_family a \<Longrightarrow>
     udp_checksum_seed a b n = udp_checksum_seed a' b' n"
  by (auto simp: udp_checksum_seed_def IpAddress_eq_def IsIpv4_def ByteCount_def Let_def split: if_splits)

lemma udp_checksum_seed_bound:
  assumes "length (ia_bytes a) = 16" "length (ia_bytes b) = 16"
  shows "unat (udp_checksum_seed a b n) \<le> 65535 * 20"
proof -
  have "bsum (pseudo4 (take 4 (ia_bytes a)) (take 4 (ia_bytes b)) 17 (of_nat n)) \<le> 65535 * 20"
    using bsum_bound [of "pseudo4 (take 4 (ia_bytes a)) (take 4 (ia_bytes b)) 17 (of_nat n)"] assms
    by (simp add: pseudo4_def)
  moreover have "bsum (pseudo6 (take 16 (ia_bytes a)) (take 16 (ia_bytes b)) 17 (of_nat n)) \<le> 65535 * 20"
    using bsum_bound [of "pseudo6 (take 16 (ia_bytes a)) (take 16 (ia_bytes b)) 17 (of_nat n)"] assms
    by (simp add: pseudo6_def)
  ultimately show ?thesis
    using assms by (simp add: udp_checksum_seed_def unat_Ipv4PseudoHeaderSeed unat_Ipv6PseudoHeaderSeed)
qed

section \<open>The datagram in the output buffer\<close>

text \<open>The UDP window with a zero checksum, and the value the checksum field gets.\<close>

definition udp_window :: "FlowKey \<Rightarrow> bytes \<Rightarrow> bytes" where
  "udp_window flow payload =
     be16_bytes (fl_source_port flow) @ be16_bytes (fl_destination_port flow) @
     be16_bytes (of_nat (8 + length payload)) @ [0, 0] @ payload"

definition udp_field :: "IpAddress \<Rightarrow> IpAddress \<Rightarrow> bytes \<Rightarrow> u16" where
  "udp_field src dst w =
     (let c = InternetChecksum w (udp_checksum_seed src dst (length w)) in if c = 0 then 0xFFFF else c)"

definition built_udp :: "FlowKey \<Rightarrow> bytes \<Rightarrow> bytes" where
  "built_udp flow payload =
     memcpy_at 6 (be16_bytes (udp_field (fl_source flow) (fl_destination flow) (udp_window flow payload)))
       (udp_window flow payload)"

lemma udp_window_fields:
  "length (udp_window flow payload) = 8 + length payload"
  "rd16 (udp_window flow payload) 0 = fl_source_port flow"
  "rd16 (udp_window flow payload) 2 = fl_destination_port flow"
  "rd16 (udp_window flow payload) 4 = of_nat (8 + length payload)" "rd16 (udp_window flow payload) 6 = 0"
  "drop 8 (udp_window flow payload) = payload"
  by (simp_all add: udp_window_def rd16_def be16_bytes_def be16_def [of 0 0])

lemma built_udp_fields:
  fixes flow :: FlowKey and payload :: bytes
  defines "d \<equiv> built_udp flow payload"
  shows "length d = 8 + length payload" "rd16 d 0 = fl_source_port flow" "rd16 d 2 = fl_destination_port flow"
    "rd16 d 4 = of_nat (8 + length payload)"
    "rd16 d 6 = udp_field (fl_source flow) (fl_destination flow) (udp_window flow payload)"
    "drop 8 d = payload"
  unfolding d_def built_udp_def using udp_window_fields [of flow payload] by (simp_all add: buffer_simps)

lemma write_udp_eq:
  assumes "hl + 8 + length payload \<le> length out"
  shows "write_udp hl flow payload (length payload + 8) out =
    memcpy_at 0 (replicate hl 0 @ built_udp flow payload) out"
proof -
  let ?n = "8 + length payload"
  define o1 where "o1 = memcpy_at (hl + 8) payload (memcpy_at (hl + 4) (be16_bytes (of_nat ?n))
    (memcpy_at (hl + 2) (be16_bytes (fl_destination_port flow)) (memcpy_at hl (be16_bytes (fl_source_port flow))
      (memcpy_at 0 (replicate (hl + 8) 0) out))))"
  have o1: "o1 = memcpy_at 0 (replicate hl 0 @ udp_window flow payload) out"
  proof (rule nth_equalityI)
    fix i assume "i < length o1"
    with assms show "o1 ! i = memcpy_at 0 (replicate hl 0 @ udp_window flow payload) out ! i"
      by (auto simp: o1_def nth_memcpy_at udp_window_fields(1) nth_append udp_window_def be16_bytes_def nth_Cons'
          split: if_splits intro: arg_cong [of _ _ "(!) payload"])
  qed (use assms in \<open>simp add: o1_def udp_window_fields(1)\<close>)
  have w: "slice hl ?n o1 = udp_window flow payload"
    using assms by (simp add: o1 slice_def memcpy_at_def udp_window_fields(1))
  have "write_udp hl flow payload (length payload + 8) out =
    memcpy_at (hl + 6) (be16_bytes (udp_field (fl_source flow) (fl_destination flow) (udp_window flow payload))) o1"
    unfolding udp_field_def udp_window_fields(1) w [symmetric] unfolding o1_def
    using assms by (simp add: write_udp_def Let_def buffer_simps add.commute)
  also have "\<dots> = memcpy_at 0 (replicate hl 0 @ built_udp flow payload) out"
    unfolding o1 built_udp_def using assms
    by (intro nth_equalityI) (auto simp: nth_memcpy_at nth_append udp_window_fields(1) not_less)
  finally show ?thesis .
qed

lemma ParseUdpDatagram_built:
  assumes "8 + length payload \<le> 65535" "IpAddress_eq a (fl_source flow)" "IpAddress_eq b (fl_destination flow)"
    "length (ia_bytes a) = 16" "length (ia_bytes b) = 16" "ia_family b = ia_family a"
  shows "ParseUdpDatagram a b (Some (built_udp flow payload)) validate =
    UdpParseResult_init\<lparr>
      up_header := \<lparr>uh_src_port = fl_source_port flow, uh_dst_port = fl_destination_port flow,
        uh_length = of_nat (8 + length payload), uh_checksum = rd16 (built_udp flow payload) 6\<rparr>,
      up_flow := \<lparr>fl_source = a, fl_destination = b, fl_source_port = fl_source_port flow,
        fl_destination_port = fl_destination_port flow, fl_protocol = 17\<rparr>,
      up_payload := Some payload\<rparr>"
proof -
  let ?w = "udp_window flow payload" and ?d = "built_udp flow payload"
  note f = built_udp_fields [of flow payload]
  have n: "unat (of_nat (8 + length payload) :: u16) = 8 + length payload"
    using assms(1) by (intro unat_of_nat_u16) simp
  have seed: "udp_checksum_seed (fl_source flow) (fl_destination flow) m = udp_checksum_seed a b m" for m
    using assms by (intro udp_checksum_seed_cong [symmetric]) auto
  have "bsum ?w \<le> 65535 * ((65535 + 1) div 2)" by (rule bsum_bound_mono) (use assms(1) udp_window_fields(1) in simp)
  then have "InternetChecksum ?d (udp_checksum_seed a b (8 + length payload)) = 0"
    using checksum_insert_nonzero [of 6 ?w "udp_checksum_seed a b (8 + length payload)"]
      udp_checksum_seed_bound [OF assms(4,5), of "8 + length payload"] udp_window_fields [of flow payload]
    by (simp add: built_udp_def udp_field_def seed Let_def)
  moreover have "rd16 ?d 6 \<noteq> 0" unfolding f(5) by (simp add: udp_field_def Let_def)
  ultimately have "\<not> udp_checksum_bad a b ?d"
    using f(1) n unfolding udp_checksum_bad_def Let_def f(4) by simp
  moreover have "slice 8 (length payload) ?d = payload" using f(1,6) by (simp add: slice_def)
  ultimately show ?thesis
    using assms(6) by (simp add: ParseUdpDatagram_def Let_def f(1-4) n del: of_nat_add)
qed

section \<open>The IP header in front of it\<close>

lemma memcpy_at_append: "k + length s \<le> length xs \<Longrightarrow> memcpy_at k s (xs @ ys) = memcpy_at k s xs @ ys"
  by (simp add: memcpy_at_def)

text \<open>The header is written into the 20 or 40 zero bytes and touches nothing behind them.\<close>

lemma write_udp_ipv4_append:
  assumes "length h = 20" "flow_ok flow"
  shows "write_udp_ipv4 flow pl i hop (h @ rest) = write_udp_ipv4 flow pl i hop h @ rest"
proof -
  have "length (take 4 (ia_bytes (fl_source flow))) = 4" "length (take 4 (ia_bytes (fl_destination flow))) = 4"
    using assms(2) by (auto simp: flow_ok_def)
  then show ?thesis
    using assms(1)
    by (simp add: write_udp_ipv4_def Let_def Write16_memcpy_at list_update_memcpy_at memcpy_at_append)
qed

lemma write_udp_ipv6_append:
  assumes "length h = 40" "flow_ok flow"
  shows "write_udp_ipv6 flow n hop (h @ rest) = write_udp_ipv6 flow n hop h @ rest"
proof -
  have "length (take 16 (ia_bytes (fl_source flow))) = 16" "length (take 16 (ia_bytes (fl_destination flow))) = 16"
    using assms(2) by (auto simp: flow_ok_def)
  then show ?thesis
    using assms(1)
    by (simp add: write_udp_ipv6_def Let_def Write16_memcpy_at list_update_memcpy_at memcpy_at_append)
qed

lemma rd16_replicate: "i + 2 \<le> n \<Longrightarrow> rd16 (replicate n 0) i = 0"
  by (simp add: rd16_def be16_def)

lemma udp_ipv4_header:
  fixes flow :: FlowKey and pl :: nat and i :: u16 and hop :: u8
  assumes "flow_ok flow"
  defines "h \<equiv> write_udp_ipv4 flow pl i hop (replicate 20 0)"
  shows "length h = 20" "h ! 0 = 0x45" "rd16 h 2 = of_nat pl" "rd16 h 6 = 0x4000" "h ! 9 = 17"
    "slice 12 4 h = take 4 (ia_bytes (fl_source flow))" "slice 16 4 h = take 4 (ia_bytes (fl_destination flow))"
    "InternetChecksum h 0 = 0"
proof -
  define src dst where "src = take 4 (ia_bytes (fl_source flow))" and "dst = take 4 (ia_bytes (fl_destination flow))"
  have [simp]: "length src = 4" "length dst = 4" using assms(1) by (auto simp: flow_ok_def src_def dst_def)
  define o1 where "o1 = memcpy_at 16 dst (memcpy_at 12 src (memcpy_at 9 [17] (memcpy_at 8 [hop]
    (memcpy_at 6 (be16_bytes 0x4000) (memcpy_at 4 (be16_bytes i) (memcpy_at 2 (be16_bytes (of_nat pl))
      (memcpy_at 0 [0x45] (replicate 20 0))))))))"
  have h: "h = memcpy_at 10 (be16_bytes (InternetChecksum o1 0)) o1"
    by (simp add: h_def write_udp_ipv4_def Let_def buffer_simps src_def [symmetric] dst_def [symmetric] o1_def)
  have o1: "length o1 = 20" "o1 ! 0 = 0x45" "rd16 o1 2 = of_nat pl" "rd16 o1 6 = 0x4000" "o1 ! 9 = 17"
    "slice 12 4 o1 = src" "slice 16 4 o1 = dst" "rd16 o1 10 = 0"
    using slice_memcpy_at_same [of 16 dst] slice_memcpy_at_same [of 12 src]
    by (simp_all add: o1_def buffer_simps rd16_replicate)
  show "InternetChecksum h 0 = 0"
    unfolding h using o1 small_fits [of o1] by (intro checksum_insert) simp_all
  show "length h = 20" "h ! 0 = 0x45" "rd16 h 2 = of_nat pl" "rd16 h 6 = 0x4000" "h ! 9 = 17"
    "slice 12 4 h = take 4 (ia_bytes (fl_source flow))" "slice 16 4 h = take 4 (ia_bytes (fl_destination flow))"
    unfolding src_def [symmetric] dst_def [symmetric] unfolding h using o1 by (simp_all add: buffer_simps)
qed

lemma udp_ipv6_header:
  fixes flow :: FlowKey and n :: nat and hop :: u8
  assumes "flow_ok flow"
  defines "h \<equiv> write_udp_ipv6 flow n hop (replicate 40 0)"
  shows "length h = 40" "h ! 0 = 0x60" "rd16 h 4 = of_nat n" "h ! 6 = 17"
    "slice 8 16 h = take 16 (ia_bytes (fl_source flow))" "slice 24 16 h = take 16 (ia_bytes (fl_destination flow))"
proof -
  define src dst where "src = take 16 (ia_bytes (fl_source flow))" and "dst = take 16 (ia_bytes (fl_destination flow))"
  have [simp]: "length src = 16" "length dst = 16" using assms(1) by (auto simp: flow_ok_def src_def dst_def)
  have h: "h = memcpy_at 24 dst (memcpy_at 8 src (memcpy_at 7 [hop] (memcpy_at 6 [17]
    (memcpy_at 4 (be16_bytes (of_nat n)) (memcpy_at 0 [0x60] (replicate 40 0))))))"
    by (simp add: h_def write_udp_ipv6_def Let_def buffer_simps src_def [symmetric] dst_def [symmetric])
  show "length h = 40" "h ! 0 = 0x60" "rd16 h 4 = of_nat n" "h ! 6 = 17"
    "slice 8 16 h = take 16 (ia_bytes (fl_source flow))" "slice 24 16 h = take 16 (ia_bytes (fl_destination flow))"
    using slice_memcpy_at_same [of 24 dst] slice_memcpy_at_same [of 8 src]
    unfolding src_def [symmetric] dst_def [symmetric] unfolding h by (simp_all add: buffer_simps)
qed

text \<open>The finished packet: header, datagram, and the rest of the buffer as it was.\<close>

lemma BuildUdpPacket_ok:
  assumes "BuildUdpPacket flow (Some payload) (length payload) (Some out) i hop = (r, Some out')"
    "uo_error r = UOut_None" "flow_ok flow"
  defines "n \<equiv> 8 + length payload"
  shows "fl_protocol flow = 17" "n \<le> 65535"
    "uo_packet_length r = (if IsIpv4 (fl_source flow) then 20 else 40) + n"
    "out' = (if IsIpv4 (fl_source flow) then write_udp_ipv4 flow (20 + n) i hop (replicate 20 0)
             else write_udp_ipv6 flow n hop (replicate 40 0)) @ built_udp flow payload @ drop (uo_packet_length r) out"
proof -
  have b: "fl_protocol flow = 17" "length payload + 8 \<le> 65535"
    "(if IsIpv4 (fl_source flow) then 20 else 40) + (length payload + 8) \<le> length out"
    "uo_packet_length r = (if IsIpv4 (fl_source flow) then 20 else 40) + (length payload + 8)"
    "out' = (if IsIpv4 (fl_source flow) then
        write_udp_ipv4 flow (20 + (length payload + 8)) i hop (write_udp 20 flow payload (length payload + 8) out)
      else write_udp_ipv6 flow (length payload + 8) hop (write_udp 40 flow payload (length payload + 8) out))"
    using assms(1,2) by (auto simp: BuildUdpPacket_def Let_def not_less split: if_splits)
  have w: "write_udp hl flow payload (length payload + 8) out =
      replicate hl 0 @ built_udp flow payload @ drop (hl + n) out" if "hl + n \<le> length out" for hl
    using write_udp_eq [of hl payload out flow] that
    by (simp add: n_def memcpy_at_def built_udp_fields(1) add.commute add.left_commute)
  show "fl_protocol flow = 17" "n \<le> 65535" "uo_packet_length r = (if IsIpv4 (fl_source flow) then 20 else 40) + n"
    using b by (simp_all add: n_def)
  have m: "length payload + 8 = n" by (simp add: n_def)
  show "out' = (if IsIpv4 (fl_source flow) then write_udp_ipv4 flow (20 + n) i hop (replicate 20 0)
             else write_udp_ipv6 flow n hop (replicate 40 0)) @ built_udp flow payload @ drop (uo_packet_length r) out"
    using b(3) unfolding b(4,5) m
    by (auto simp: w [unfolded m] write_udp_ipv4_append write_udp_ipv6_append assms(3))
qed

lemma read_append:
  "i < length h \<Longrightarrow> (h @ d) ! i = h ! i" "i + 2 \<le> length h \<Longrightarrow> rd16 (h @ d) i = rd16 h i"
  "i + n \<le> length h \<Longrightarrow> slice i n (h @ d) = slice i n h"
  by (simp_all add: nth_append rd16_def slice_def)

lemma input_udp4_header:
  assumes "length h = 20" "h ! 0 = 0x45" "rd16 h 2 = of_nat (20 + length d)" "rd16 h 6 = 0x4000" "h ! 9 = 17"
    "20 + length d \<le> 65535" "8 \<le> length d"
  shows "ParseIpUdpPacket (Some (h @ d)) =
    finish_udp (ParseUdpDatagram (Ipv4_Address_of (slice 12 4 h)) (Ipv4_Address_of (slice 16 4 h)) (Some d) (rd16 d 6 \<noteq> 0))
      \<lparr>ui_error = UIn_None, ui_datagram = UdpParseResult_init\<rparr>"
proof -
  let ?p = "h @ d"
  have r: "?p ! 0 = 0x45" "rd16 ?p 2 = of_nat (20 + length d)" "rd16 ?p 6 = 0x4000" "?p ! 9 = 17"
    "slice 12 4 ?p = slice 12 4 h" "slice 16 4 ?p = slice 16 4 h"
    using assms(1-5) by (simp_all add: read_append del: of_nat_add)
  have total: "unat (rd16 ?p 2) = 20 + length d" unfolding r(2) using assms(6) by (rule unat_of_nat_u16 [OF le_less_trans]) simp
  have wf: "ipv4_wellformed ?p" using assms(1,2) total by (simp add: ipv4_wellformed_def nth_append)
  note parse = ParseIpv4_wellformed [OF wf]
  have pay: "ip4_payload (ParseIpv4 ?p) = Some d" "ip4_payload_length (ip4_header (ParseIpv4 ?p)) = length d"
    using assms(1) total by (simp_all add: parse r(1) slice_def)
  have "input_udp4 ?p res =
      finish_udp (ParseUdpDatagram (Ipv4_Address_of (slice 12 4 h)) (Ipv4_Address_of (slice 16 4 h)) (Some d) (rd16 d 6 \<noteq> 0)) res" for res
    using assms(7) wf unfolding input_udp4_def
    by (simp add: Let_def ParseIpv4_error_iff parse(6-10) r pay)
  then show ?thesis using r(1) assms(1) unfolding ParseIpUdpPacket_def by (auto simp: Let_def)
qed

lemma input_udp6_header:
  assumes "length h = 40" "h ! 0 = 0x60" "rd16 h 4 = of_nat (length d)" "h ! 6 = 17" "length d \<le> 65535" "8 \<le> length d"
  shows "ParseIpUdpPacket (Some (h @ d)) =
    finish_udp (ParseUdpDatagram (Ipv6_Address (slice 8 16 h)) (Ipv6_Address (slice 24 16 h)) (Some d) True)
      \<lparr>ui_error = UIn_None, ui_datagram = UdpParseResult_init\<rparr>"
proof -
  let ?p = "h @ d"
  have r: "?p ! 0 = 0x60" "rd16 ?p 4 = of_nat (length d)" "?p ! 6 = 17"
    "slice 8 16 ?p = slice 8 16 h" "slice 24 16 ?p = slice 24 16 h"
    using assms(1-4) by (simp_all add: read_append)
  have total: "unat (rd16 ?p 4) = length d" unfolding r(2) using assms(5) by (rule unat_of_nat_u16 [OF le_less_trans]) simp
  then have "rd16 ?p 4 \<noteq> 0" using assms(6) by auto
  then have parse: "ip6_error (ParseIpv6 ?p) = Ipv6_None" "ip6_header (ParseIpv6 ?p) = fixed_header ?p"
    "ip6_final_next_header (ParseIpv6 ?p) = 17" "ip6_payload (ParseIpv6 ?p) = Some d"
    "ip6_fragment_header_present (ParseIpv6 ?p) = False"
    using ParseIpv6_no_ext [of ?p] assms(1) total r(1,3) by (auto simp: IsExtensionHeader_def slice_def)
  have hdr: "ip6_src_ip (fixed_header ?p) = slice 8 16 h" "ip6_dst_ip (fixed_header ?p) = slice 24 16 h"
    using r by (simp_all add: fixed_header_def read_fixed_header_def)
  have "input_udp6 ?p res =
      finish_udp (ParseUdpDatagram (Ipv6_Address (slice 8 16 h)) (Ipv6_Address (slice 24 16 h)) (Some d) True) res" for res
    unfolding input_udp6_def by (simp add: Let_def parse hdr)
  then show ?thesis using r(1) assms(1) unfolding ParseIpUdpPacket_def by (auto simp: Let_def)
qed

text \<open>
  C35: A datagram that \<open>BuildUdpPacket\<close> reports as built is accepted by \<open>ParseIpUdpPacket\<close> for both IP
  versions, with its flow and payload, also when the computed checksum is zero; nothing behind the
  packet is written. The packet has to fit the 16-bit length field of its IP header.\<close>

theorem udp_packet_round_trip:
  assumes "BuildUdpPacket flow (Some payload) (length payload) (Some out) ipv4_id hop_limit = (r, Some out')"
    "uo_error r = UOut_None" "flow_ok flow"
    "uo_packet_length r \<le> 65535 + (if IsIpv4 (fl_source flow) then 0 else 40)"
  shows "let i = ParseIpUdpPacket (Some (take (uo_packet_length r) out')) in
    ui_error i = UIn_None \<and> FlowKey_eq (up_flow (ui_datagram i)) flow \<and>
    up_payload (ui_datagram i) = Some payload \<and> drop (uo_packet_length r) out' = drop (uo_packet_length r) out"
proof -
  let ?d = "built_udp flow payload"
  note b = BuildUdpPacket_ok [OF assms(1-3)]
  have d: "length ?d = 8 + length payload" by (rule built_udp_fields)
  show ?thesis
  proof (cases "IsIpv4 (fl_source flow)")
    case True
    let ?h = "write_udp_ipv4 flow (20 + (8 + length payload)) ipv4_id hop_limit (replicate 20 0)"
    note h = udp_ipv4_header [OF assms(3), of "20 + (8 + length payload)" ipv4_id hop_limit]
    have fam: "ia_family (fl_source flow) = Fam_Ipv4" "ia_family (fl_destination flow) = Fam_Ipv4"
      using True assms(3) by (auto simp: IsIpv4_def flow_ok_def)
    have len: "length (ia_bytes (fl_source flow)) = 16" "length (ia_bytes (fl_destination flow)) = 16"
      using assms(3) by (auto simp: flow_ok_def)
    note a = Ipv4_Address_of_eq [OF fam(1) len(1)] and a' = Ipv4_Address_of_eq [OF fam(2) len(2)]
    have "take (uo_packet_length r) out' = ?h @ ?d" "drop (uo_packet_length r) out' = drop (uo_packet_length r) out"
      using True b(3,4) h(1) d by simp_all
    moreover have "ParseIpUdpPacket (Some (?h @ ?d)) = finish_udp (ParseUdpDatagram
        (Ipv4_Address_of (take 4 (ia_bytes (fl_source flow)))) (Ipv4_Address_of (take 4 (ia_bytes (fl_destination flow))))
        (Some ?d) (rd16 ?d 6 \<noteq> 0)) \<lparr>ui_error = UIn_None, ui_datagram = UdpParseResult_init\<rparr>"
      using input_udp4_header [OF h(1,2) _ h(4,5), of ?d] h(3,6,7) d True assms(4) b(3) by simp
    ultimately show ?thesis
      using ParseUdpDatagram_built [OF b(2) a(1) a'(1) a(2) a'(2)] a a' b(1)
      by (simp add: Let_def finish_udp_def UdpParseResult_init_def FlowKey_eq_def Ipv4_Address_of_def Ipv4_Address_def)
  next
    case False
    let ?h = "write_udp_ipv6 flow (8 + length payload) hop_limit (replicate 40 0)"
    note h = udp_ipv6_header [OF assms(3), of "8 + length payload" hop_limit]
    have fam: "ia_family (fl_source flow) \<noteq> Fam_Ipv4" "ia_family (fl_destination flow) \<noteq> Fam_Ipv4"
      using False assms(3) by (auto simp: IsIpv4_def flow_ok_def)
    have len: "length (ia_bytes (fl_source flow)) = 16" "length (ia_bytes (fl_destination flow)) = 16"
      using assms(3) by (auto simp: flow_ok_def)
    note a = Ipv6_Address_eq [OF fam(1) len(1)] and a' = Ipv6_Address_eq [OF fam(2) len(2)]
    have "take (uo_packet_length r) out' = ?h @ ?d" "drop (uo_packet_length r) out' = drop (uo_packet_length r) out"
      using False b(3,4) h(1) d by simp_all
    moreover have "ParseIpUdpPacket (Some (?h @ ?d)) = finish_udp (ParseUdpDatagram
        (Ipv6_Address (take 16 (ia_bytes (fl_source flow)))) (Ipv6_Address (take 16 (ia_bytes (fl_destination flow))))
        (Some ?d) True) \<lparr>ui_error = UIn_None, ui_datagram = UdpParseResult_init\<rparr>"
      using input_udp6_header [OF h(1,2) _ h(4), of ?d] h(3,5,6) d b(2) by simp
    ultimately show ?thesis
      using ParseUdpDatagram_built [OF b(2) a(1) a'(1) a(2) a'(2)] a a' b(1)
      by (simp add: Let_def finish_udp_def UdpParseResult_init_def FlowKey_eq_def Ipv6_Address_def)
  qed
qed

definition sample_udp_flow :: FlowKey where
  "sample_udp_flow = sample_flow\<lparr>fl_protocol := 17\<rparr>"

theorem udp_packet_round_trip_witness:
  "let out' = the (snd (BuildUdpPacket sample_udp_flow (Some [1, 2, 3]) 3 (Some (replicate 40 7)) 1 64));
       i = ParseIpUdpPacket (Some (take 31 out')) in
   ui_error i = UIn_None \<and> up_payload (ui_datagram i) = Some [1, 2, 3] \<and> drop 31 out' = replicate 9 7"
proof -
  let ?b = "BuildUdpPacket sample_udp_flow (Some [1, 2, 3]) (length [1, 2, 3 :: u8]) (Some (replicate 40 7)) 1 64"
  have "case ?b of (r, out) \<Rightarrow> r = \<lparr>uo_error = UOut_None, uo_packet_length = 31\<rparr> \<and> out \<noteq> None" by code_simp
  moreover have "flow_ok sample_udp_flow" by code_simp
  ultimately have f: "fst ?b = \<lparr>uo_error = UOut_None, uo_packet_length = 31\<rparr>" "snd ?b \<noteq> None" "flow_ok sample_udp_flow"
    by (simp_all add: case_prod_unfold)
  then have "?b = (\<lparr>uo_error = UOut_None, uo_packet_length = 31\<rparr>, Some (the (snd ?b)))"
    by (metis option.collapse prod.collapse)
  from udp_packet_round_trip [OF this] f show ?thesis by (simp add: Let_def numeral_3_eq_3)
qed

text \<open>
  C37: For an IPv4 flow and a payload of 65508 to 65527 bytes \<open>BuildUdpPacket\<close> reports success although
  the total length does not fit its 16-bit field: the length is written modulo 65536, and the packet
  is rejected by every reader as malformed. The check guards the UDP length only.\<close>

theorem udp_total_length_wraps:
  assumes "flow_ok flow" "fl_protocol flow = 17" "IsIpv4 (fl_source flow)" "65508 \<le> length payload"
    "length payload \<le> 65527" "length payload + 28 \<le> length out"
  shows "\<exists>r out'. BuildUdpPacket flow (Some payload) (length payload) (Some out) ipv4_id hop_limit = (r, Some out') \<and>
    uo_error r = UOut_None \<and> unat (rd16 out' 2) = uo_packet_length r - 65536 \<and>
    ui_error (ParseIpUdpPacket (Some (take (uo_packet_length r) out'))) = UIn_MalformedIp"
proof -
  obtain r out' where b: "BuildUdpPacket flow (Some payload) (length payload) (Some out) ipv4_id hop_limit = (r, Some out')"
    "uo_error r = UOut_None"
    using assms by (auto simp: BuildUdpPacket_def Let_def flow_ok_def)
  let ?h = "write_udp_ipv4 flow (20 + (8 + length payload)) ipv4_id hop_limit (replicate 20 0)"
  let ?p = "?h @ built_udp flow payload"
  note ok = BuildUdpPacket_ok [OF b assms(1)]
  note h = udp_ipv4_header [OF assms(1), of "20 + (8 + length payload)" ipv4_id hop_limit]
  have p: "take (uo_packet_length r) out' = ?p" "rd16 out' 2 = rd16 ?h 2" "rd16 ?p 2 = rd16 ?h 2" "?p ! 0 = 0x45"
    "uo_packet_length r = length payload + 28"
    using ok(3,4) h(1,2) assms(3) built_udp_fields(1) [of flow payload] by (simp_all add: read_append)
  have len: "unat (rd16 ?h 2) = length payload + 28 - 65536"
    unfolding h(3) using assms(4,5) by (simp add: unsigned_of_nat take_bit_eq_mod mod_if del: of_nat_add)
  have "\<not> ipv4_wellformed ?p" using len p(3,4) assms(5) by (auto simp: ipv4_wellformed_def)
  then have "ui_error (ParseIpUdpPacket (Some ?p)) = UIn_MalformedIp"
    using p(4) h(1) by (auto simp: ParseIpUdpPacket_def Let_def input_udp4_def ParseIpv4_error_iff)
  then show ?thesis using b len p by (intro exI [of _ r] exI [of _ out']) simp
qed

theorem udp_total_length_wraps_witness:
  "\<exists>r out'. BuildUdpPacket sample_udp_flow (Some (replicate 65510 0)) 65510 (Some (replicate 65600 0)) 1 64 = (r, Some out') \<and>
    uo_error r = UOut_None \<and> ui_error (ParseIpUdpPacket (Some (take (uo_packet_length r) out'))) = UIn_MalformedIp"
proof -
  have "flow_ok sample_udp_flow" "fl_protocol sample_udp_flow = 17" "IsIpv4 (fl_source sample_udp_flow)" by code_simp+
  from udp_total_length_wraps [OF this, of "replicate 65510 0" "replicate 65600 0" 1 64] show ?thesis by auto
qed

end
