(* ===== verification/Congestion.thy ===== *)
theory Congestion
  imports NetPrelude Machine
begin

text \<open>
  Delivery-rate sampling (\<open>src/tcp/rate_sampler.cpp\<close>) and the AIMD, BBR and hybrid congestion
  controllers (\<open>src/tcp/congestion.h\<close>, \<open>congestion.cpp\<close>). The send buffer calls whichever controller
  its variant holds; here that interface is a record of operations, and each controller gives one.
  The contract the send buffer relies on, that the window never closes, is a locale that all three
  controllers are shown to satisfy.
\<close>

section \<open>Rate samples\<close>

record RateSample =
  rs_now_ms :: u64
  rs_now_us :: u64
  rs_delivery_rate_bytes_per_sec :: u64
  rs_interval_ms :: u64
  rs_interval_us :: u64
  rs_rtt_ms :: u64
  rs_rtt_us :: u64
  rs_acked_bytes :: u64
  rs_lost_bytes :: u64
  rs_inflight_bytes :: u64
  rs_delivered_bytes :: u64
  rs_prior_delivered_bytes :: u64
  rs_app_limited :: bool
  rs_ecn_ce :: bool
  rs_is_ack_delayed :: bool
  rs_delivered_ce :: u64

definition RateSample_init :: RateSample where
  "RateSample_init = \<lparr>rs_now_ms = 0, rs_now_us = 0, rs_delivery_rate_bytes_per_sec = 0, rs_interval_ms = 0,
     rs_interval_us = 0, rs_rtt_ms = 0, rs_rtt_us = 0, rs_acked_bytes = 0, rs_lost_bytes = 0, rs_inflight_bytes = 0,
     rs_delivered_bytes = 0, rs_prior_delivered_bytes = 0, rs_app_limited = False, rs_ecn_ce = False,
     rs_is_ack_delayed = False, rs_delivered_ce = 0\<rparr>"

record PacketDeliveryState =
  pd_delivered_bytes :: u64
  pd_delivered_time_ms :: u64
  pd_first_sent_time_ms :: u64
  pd_delivered_time_us :: u64
  pd_first_sent_time_us :: u64
  pd_app_limited :: bool
  pd_retransmitted :: bool

definition PacketDeliveryState_init :: PacketDeliveryState where
  "PacketDeliveryState_init = \<lparr>pd_delivered_bytes = 0, pd_delivered_time_ms = 0, pd_first_sent_time_ms = 0,
     pd_delivered_time_us = 0, pd_first_sent_time_us = 0, pd_app_limited = False, pd_retransmitted = False\<rparr>"

record DeliveryRateSampler =
  ds_delivered_bytes :: u64
  ds_delivered_time_ms :: u64
  ds_app_limited :: bool
  ds_last_sample :: RateSample

definition DeliveryRateSampler_init :: DeliveryRateSampler where
  "DeliveryRateSampler_init = \<lparr>ds_delivered_bytes = 0, ds_delivered_time_ms = 0, ds_app_limited = False,
     ds_last_sample = RateSample_init\<rparr>"

definition SaturatingSub :: "u64 \<Rightarrow> u64 \<Rightarrow> u64" where
  "SaturatingSub a b = (if a \<ge> b then a - b else 0)"

text \<open>The function of the same name in both files.\<close>

definition SaturatingMulDiv :: "u64 \<Rightarrow> u64 \<Rightarrow> u64 \<Rightarrow> u64" where
  "SaturatingMulDiv a num den =
     (if den = 0 \<or> a = 0 \<or> num = 0 then 0
      else if a > 0xFFFFFFFFFFFFFFFF div num then 0xFFFFFFFFFFFFFFFF div den
      else (a * num) div den)"

definition Sampler_OnPacketSent :: "u64 \<Rightarrow> DeliveryRateSampler \<Rightarrow> PacketDeliveryState \<Rightarrow> PacketDeliveryState" where
  "Sampler_OnPacketSent now_ms d pkt =
     (let pkt = pkt\<lparr>pd_delivered_bytes := ds_delivered_bytes d, pd_delivered_time_ms := ds_delivered_time_ms d,
                    pd_delivered_time_us := ds_delivered_time_ms d * 1000\<rparr>;
          pkt = (if pd_first_sent_time_ms pkt = 0
                 then pkt\<lparr>pd_first_sent_time_ms := now_ms, pd_first_sent_time_us := now_ms * 1000\<rparr> else pkt) in
      pkt\<lparr>pd_app_limited := ds_app_limited d, pd_retransmitted := False\<rparr>)"

definition Sampler_OnAck :: "PacketDeliveryState \<Rightarrow> u64 \<Rightarrow> u64 \<Rightarrow> u64 \<Rightarrow> DeliveryRateSampler \<Rightarrow>
    RateSample \<times> DeliveryRateSampler" where
  "Sampler_OnAck pkt acked_bytes now_ms inflight_bytes d =
     (let sample = RateSample_init\<lparr>rs_now_ms := now_ms, rs_now_us := now_ms * 1000, rs_acked_bytes := acked_bytes,
            rs_inflight_bytes := inflight_bytes, rs_app_limited := pd_app_limited pkt,
            rs_prior_delivered_bytes := ds_delivered_bytes d\<rparr>;
          d = d\<lparr>ds_delivered_bytes := ds_delivered_bytes d + acked_bytes, ds_delivered_time_ms := now_ms\<rparr>;
          sample = sample\<lparr>rs_delivered_bytes := ds_delivered_bytes d\<rparr>;
          sample =
            (if \<not> pd_retransmitted pkt \<and> now_ms \<ge> pd_first_sent_time_ms pkt then
               let rtt = now_ms - pd_first_sent_time_ms pkt;
                   sample = sample\<lparr>rs_rtt_ms := rtt, rs_rtt_us := rtt * 1000\<rparr>;
                   interval = SaturatingSub (ds_delivered_time_ms d) (pd_delivered_time_ms pkt) in
               if interval > 0 then
                 let delta = SaturatingSub (ds_delivered_bytes d) (pd_delivered_bytes pkt) in
                 sample\<lparr>rs_interval_ms := interval, rs_interval_us := interval * 1000,
                        rs_delivery_rate_bytes_per_sec := SaturatingMulDiv delta 1000 interval\<rparr>
               else sample
             else sample) in
      (sample, d\<lparr>ds_last_sample := sample\<rparr>))"

definition MarkAppLimited :: "DeliveryRateSampler \<Rightarrow> DeliveryRateSampler" where
  "MarkAppLimited d = d\<lparr>ds_app_limited := True\<rparr>"

definition ClearAppLimited :: "DeliveryRateSampler \<Rightarrow> DeliveryRateSampler" where
  "ClearAppLimited d = d\<lparr>ds_app_limited := False\<rparr>"

definition Sampler_Reset :: "DeliveryRateSampler \<Rightarrow> DeliveryRateSampler" where
  "Sampler_Reset d = d\<lparr>ds_delivered_bytes := 0, ds_delivered_time_ms := 0, ds_app_limited := False,
     ds_last_sample := RateSample_init\<rparr>"

section \<open>The interface\<close>

datatype CongestionAlgorithm = CA_Aimd | CA_Bbr | CA_HybridBdpAimd | CA_Kcc

text \<open>
  The operations that \<open>TcpSendBuffer\<close> calls on its controller. Where the source leaves a call out for
  an algorithm that has no such method, the operation does nothing.
\<close>

record 'c controller =
  cc_cwnd :: "'c \<Rightarrow> u32"
  cc_ssthresh :: "'c \<Rightarrow> u32"
  cc_pacing_rate :: "'c \<Rightarrow> u32"
  cc_in_fast_recovery :: "'c \<Rightarrow> bool"
  cc_on_ack :: "RateSample \<Rightarrow> 'c \<Rightarrow> 'c"
  cc_on_rto :: "'c \<Rightarrow> 'c"
  cc_on_ecn_ce :: "'c \<Rightarrow> 'c"
  cc_fast_recovery_entry :: "u32 \<Rightarrow> 'c \<Rightarrow> 'c"
  cc_on_dup_ack :: "'c \<Rightarrow> 'c"
  cc_fast_recovery_exit :: "'c \<Rightarrow> 'c"
  cc_update_mss :: "u16 \<Rightarrow> bool \<Rightarrow> 'c \<Rightarrow> 'c"
  cc_reset :: "'c \<Rightarrow> 'c"

text \<open>\<open>max - cwnd < increase ? max : cwnd + increase\<close> and the clamping of a 64-bit window.\<close>

definition sat_add32 :: "u32 \<Rightarrow> u32 \<Rightarrow> u32" where
  "sat_add32 cwnd increase = (if 0xFFFFFFFF - cwnd < increase then 0xFFFFFFFF else cwnd + increase)"

definition clamp32 :: "u64 \<Rightarrow> u32" where
  "clamp32 v = (if v > 0xFFFFFFFF then 0xFFFFFFFF else ucast v)"

text \<open>The three pieces that \<open>AimdController\<close> and \<open>HybridBdpAimdController\<close> have in common.\<close>

definition loss_ssthresh :: "u32 \<Rightarrow> u16 \<Rightarrow> u32" where
  "loss_ssthresh flight mss = max (flight div 2) (ucast mss * 2)"

definition recovery_cwnd :: "u32 \<Rightarrow> u16 \<Rightarrow> u32" where
  "recovery_cwnd ssthresh mss = clamp32 (ucast ssthresh + ucast mss * 3)"

definition rescale_cwnd :: "u32 \<Rightarrow> u16 \<Rightarrow> u16 \<Rightarrow> bool \<Rightarrow> u32" where
  "rescale_cwnd cwnd old_mss mss pristine =
     (if pristine then ucast mss * 2
      else if mss < old_mss then max (ucast mss) (ucast ((ucast cwnd * ucast mss :: u64) div ucast old_mss))
      else cwnd)"

section \<open>AIMD\<close>

record AimdController =
  am_cwnd :: u32
  am_ssthresh :: u32
  am_mss :: u16
  am_fast_recovery :: bool

definition AimdController_init :: "u16 \<Rightarrow> AimdController" where
  "AimdController_init mss = \<lparr>am_cwnd = ucast mss * 2, am_ssthresh = 0xFFFFFFFF, am_mss = mss, am_fast_recovery = False\<rparr>"

definition Aimd_OnAck :: "RateSample \<Rightarrow> AimdController \<Rightarrow> AimdController" where
  "Aimd_OnAck rs c =
     (if rs_acked_bytes rs = 0 then c
      else if am_fast_recovery c then c
      else if am_cwnd c < am_ssthresh c then
        let increase = ucast (min (rs_acked_bytes rs) (ucast (am_mss c))) in
        c\<lparr>am_cwnd := sat_add32 (am_cwnd c) increase\<rparr>
      else if am_cwnd c \<noteq> 0 then
        let increase = max 1 (ucast ((ucast (am_mss c) * ucast (am_mss c) :: u64) div ucast (am_cwnd c))) in
        c\<lparr>am_cwnd := sat_add32 (am_cwnd c) increase\<rparr>
      else c)"

definition Aimd_OnFastRecoveryEntry :: "u32 \<Rightarrow> AimdController \<Rightarrow> AimdController" where
  "Aimd_OnFastRecoveryEntry flight c =
     (let c = c\<lparr>am_ssthresh := loss_ssthresh flight (am_mss c)\<rparr> in
      c\<lparr>am_cwnd := recovery_cwnd (am_ssthresh c) (am_mss c), am_fast_recovery := True\<rparr>)"

definition Aimd_OnDupAck :: "AimdController \<Rightarrow> AimdController" where
  "Aimd_OnDupAck c = (if am_fast_recovery c then c\<lparr>am_cwnd := clamp32 (ucast (am_cwnd c) + ucast (am_mss c))\<rparr> else c)"

definition Aimd_OnFastRecoveryExit :: "AimdController \<Rightarrow> AimdController" where
  "Aimd_OnFastRecoveryExit c = c\<lparr>am_cwnd := am_ssthresh c, am_fast_recovery := False\<rparr>"

definition Aimd_OnRto :: "AimdController \<Rightarrow> AimdController" where
  "Aimd_OnRto c = c\<lparr>am_cwnd := ucast (am_mss c), am_fast_recovery := False\<rparr>"

definition Aimd_OnEcnCe :: "AimdController \<Rightarrow> AimdController" where
  "Aimd_OnEcnCe c = (let c = c\<lparr>am_ssthresh := loss_ssthresh (am_cwnd c) (am_mss c)\<rparr> in c\<lparr>am_cwnd := am_ssthresh c\<rparr>)"

definition Aimd_UpdateMss :: "u16 \<Rightarrow> bool \<Rightarrow> AimdController \<Rightarrow> AimdController" where
  "Aimd_UpdateMss mss pristine c =
     (if mss = 0 \<or> mss = am_mss c then c
      else c\<lparr>am_mss := mss, am_cwnd := rescale_cwnd (am_cwnd c) (am_mss c) mss pristine\<rparr>)"

definition Aimd_Reset :: "AimdController \<Rightarrow> AimdController" where
  "Aimd_Reset c = c\<lparr>am_cwnd := ucast (am_mss c) * 2, am_ssthresh := 0xFFFFFFFF, am_fast_recovery := False\<rparr>"

definition aimd_ops :: "AimdController controller" where
  "aimd_ops = \<lparr>cc_cwnd = am_cwnd, cc_ssthresh = am_ssthresh, cc_pacing_rate = (\<lambda>_. 0),
     cc_in_fast_recovery = am_fast_recovery, cc_on_ack = Aimd_OnAck, cc_on_rto = Aimd_OnRto,
     cc_on_ecn_ce = Aimd_OnEcnCe, cc_fast_recovery_entry = Aimd_OnFastRecoveryEntry,
     cc_on_dup_ack = Aimd_OnDupAck, cc_fast_recovery_exit = Aimd_OnFastRecoveryExit,
     cc_update_mss = Aimd_UpdateMss, cc_reset = Aimd_Reset\<rparr>"

section \<open>The minimum filter of BBR and the hybrid controller\<close>

record RtpropSample =
  rp_rtt_ms :: u64
  rp_time_ms :: u64

abbreviation kRtpropWindowMs :: u64 where "kRtpropWindowMs \<equiv> 10000"
abbreviation kRtpropSampleCount :: nat where "kRtpropSampleCount \<equiv> 16"

fun rtprop_scan :: "u64 \<Rightarrow> RtpropSample list \<Rightarrow> u64 \<Rightarrow> u64 \<Rightarrow> u64 \<times> u64" where
  "rtprop_scan now [] min_rtt min_time = (min_rtt, min_time)"
| "rtprop_scan now (s # ss) min_rtt min_time =
     (if now - rp_time_ms s > kRtpropWindowMs then rtprop_scan now ss min_rtt min_time
      else if min_rtt = 0 \<or> rp_rtt_ms s < min_rtt then rtprop_scan now ss (rp_rtt_ms s) (rp_time_ms s)
      else rtprop_scan now ss min_rtt min_time)"

text \<open>The ring of samples with its position and count, and the minimum found after an insertion.\<close>

record RtpropFilter =
  rf_samples :: "RtpropSample list"
  rf_count :: nat
  rf_pos :: nat
  rf_rtprop :: u64
  rf_stamp_ms :: u64

definition RtpropFilter_init :: RtpropFilter where
  "RtpropFilter_init = \<lparr>rf_samples = replicate kRtpropSampleCount \<lparr>rp_rtt_ms = 0, rp_time_ms = 0\<rparr>, rf_count = 0,
     rf_pos = 0, rf_rtprop = 0, rf_stamp_ms = 0\<rparr>"

definition UpdateRTprop :: "RateSample \<Rightarrow> RtpropFilter \<Rightarrow> RtpropFilter" where
  "UpdateRTprop rs f =
     (if rs_rtt_ms rs = 0 then f
      else
        let now = rs_now_ms rs;
            pos = rf_pos f;
            f = f\<lparr>rf_pos := (rf_pos f + 1) mod kRtpropSampleCount,
                  rf_count := (if rf_count f < kRtpropSampleCount then rf_count f + 1 else rf_count f),
                  rf_samples := (rf_samples f)[pos := \<lparr>rp_rtt_ms = rs_rtt_ms rs, rp_time_ms = now\<rparr>]\<rparr>;
            (min_rtt, min_time) = rtprop_scan now (take (rf_count f) (rf_samples f)) 0 0 in
        f\<lparr>rf_rtprop := min_rtt, rf_stamp_ms := min_time\<rparr>)"

section \<open>BBR\<close>

datatype BbrState = Bbr_Startup | Bbr_Drain | Bbr_ProbeBw | Bbr_ProbeRtt

text \<open>The fields of the minimum filter (\<open>rtprop_\<close> and its samples) are the record \<open>bb_rt\<close>.\<close>

record BbrController =
  bb_mss :: u16
  bb_btlbw :: u64
  bb_rt :: RtpropFilter
  bb_state :: BbrState
  bb_startup_prev_round_max_bw :: u64
  bb_startup_round_max_bw :: u64
  bb_startup_rounds_no_growth :: u8
  bb_cycle_index :: nat
  bb_cycle_start_ms :: u64
  bb_probe_rtt_enter_ms :: u64
  bb_pacing_rate :: u64
  bb_cwnd :: u64
  bb_bytes_sent :: u64
  bb_round_start_bytes :: u64
  bb_round_started :: bool

definition BbrController_init :: "u16 \<Rightarrow> BbrController" where
  "BbrController_init mss = \<lparr>bb_mss = mss, bb_btlbw = 0, bb_rt = RtpropFilter_init, bb_state = Bbr_Startup,
     bb_startup_prev_round_max_bw = 0, bb_startup_round_max_bw = 0, bb_startup_rounds_no_growth = 0,
     bb_cycle_index = 0, bb_cycle_start_ms = 0, bb_probe_rtt_enter_ms = 0, bb_pacing_rate = 0,
     bb_cwnd = ucast mss * 2, bb_bytes_sent = 0, bb_round_start_bytes = 0, bb_round_started = False\<rparr>"

abbreviation kStartupGainQ8 :: u64 where "kStartupGainQ8 \<equiv> 738"
abbreviation kDrainGainQ8 :: u64 where "kDrainGainQ8 \<equiv> 89"

definition kProbeBwGainsQ8 :: "u64 list" where
  "kProbeBwGainsQ8 = [320, 192, 256, 256, 256, 256, 256, 256]"

definition Bbr_OnPacketSent :: "u64 \<Rightarrow> BbrController \<Rightarrow> BbrController" where
  "Bbr_OnPacketSent bytes c = c\<lparr>bb_bytes_sent := bb_bytes_sent c + bytes\<rparr>"

definition Bbr_UpdateBtlBw :: "RateSample \<Rightarrow> BbrController \<Rightarrow> BbrController" where
  "Bbr_UpdateBtlBw rs c =
     (let rate = rs_delivery_rate_bytes_per_sec rs in
      if rate = 0 then c
      else if rs_app_limited rs then c
      else c\<lparr>bb_btlbw := (if rate > bb_btlbw c then rate else bb_btlbw c),
             bb_startup_round_max_bw := (if rate > bb_startup_round_max_bw c then rate else bb_startup_round_max_bw c)\<rparr>)"

definition Bbr_Bdp :: "BbrController \<Rightarrow> u64" where
  "Bbr_Bdp c =
     (if bb_btlbw c = 0 \<or> rf_rtprop (bb_rt c) = 0 then 0 else SaturatingMulDiv (bb_btlbw c) (rf_rtprop (bb_rt c)) 1000)"

definition CheckStartupDone :: "BbrController \<Rightarrow> BbrController" where
  "CheckStartupDone c =
     (let current = bb_startup_round_max_bw c; previous = bb_startup_prev_round_max_bw c;
          c = (if previous > 0 \<and> current > 0 then
                 if current \<le> SaturatingMulDiv previous 5 4
                 then c\<lparr>bb_startup_rounds_no_growth := bb_startup_rounds_no_growth c + 1\<rparr>
                 else c\<lparr>bb_startup_rounds_no_growth := 0\<rparr>
               else c);
          c = c\<lparr>bb_startup_prev_round_max_bw := current, bb_startup_round_max_bw := 0\<rparr> in
      if bb_startup_rounds_no_growth c \<ge> 3
      then c\<lparr>bb_state := Bbr_Drain, bb_startup_rounds_no_growth := 0\<rparr> else c)"

definition CheckDrainDone :: "BbrController \<Rightarrow> BbrController" where
  "CheckDrainDone c =
     (let bdp = Bbr_Bdp c in
      if bdp > 0 \<and> bb_cwnd c \<le> bdp
      then c\<lparr>bb_state := Bbr_ProbeBw, bb_cycle_index := 0, bb_cycle_start_ms := 0\<rparr> else c)"

definition EnterProbeRtt :: "u64 \<Rightarrow> BbrController \<Rightarrow> BbrController" where
  "EnterProbeRtt now_ms c = c\<lparr>bb_state := Bbr_ProbeRtt, bb_probe_rtt_enter_ms := now_ms\<rparr>"

definition ExitProbeRtt :: "u64 \<Rightarrow> BbrController \<Rightarrow> BbrController" where
  "ExitProbeRtt now_ms c = c\<lparr>bb_rt := (bb_rt c)\<lparr>rf_stamp_ms := now_ms\<rparr>, bb_state := Bbr_ProbeBw,
     bb_cycle_index := 0, bb_cycle_start_ms := now_ms\<rparr>"

definition AdvanceCycle :: "u64 \<Rightarrow> BbrController \<Rightarrow> BbrController" where
  "AdvanceCycle now_ms c =
     (if bb_cycle_start_ms c = 0 then c\<lparr>bb_cycle_start_ms := now_ms\<rparr>
      else
        let phase_duration = (if rf_rtprop (bb_rt c) > 0 then rf_rtprop (bb_rt c) else 1) in
        if now_ms - bb_cycle_start_ms c \<ge> phase_duration
        then c\<lparr>bb_cycle_start_ms := now_ms, bb_cycle_index := (bb_cycle_index c + 1) mod 8\<rparr> else c)"

definition bbr_transition :: "u64 \<Rightarrow> BbrController \<Rightarrow> BbrController" where
  "bbr_transition now_ms c =
     (case bb_state c of
        Bbr_Startup \<Rightarrow> c
      | Bbr_Drain \<Rightarrow> c
      | Bbr_ProbeBw \<Rightarrow>
          let c = AdvanceCycle now_ms c in
          if now_ms - rf_stamp_ms (bb_rt c) \<ge> 10000 then EnterProbeRtt now_ms c else c
      | Bbr_ProbeRtt \<Rightarrow> if now_ms - bb_probe_rtt_enter_ms c \<ge> 200 then ExitProbeRtt now_ms c else c)"

definition bbr_gain :: "BbrController \<Rightarrow> u64" where
  "bbr_gain c =
     (case bb_state c of
        Bbr_Startup \<Rightarrow> kStartupGainQ8 | Bbr_Drain \<Rightarrow> kDrainGainQ8 | Bbr_ProbeRtt \<Rightarrow> 256
      | Bbr_ProbeBw \<Rightarrow> kProbeBwGainsQ8 ! bb_cycle_index c)"

definition bbr_estimate :: "RateSample \<Rightarrow> BbrController \<Rightarrow> BbrController" where
  "bbr_estimate rs c =
     (let c = (if \<not> bb_round_started c \<and> rs_acked_bytes rs > 0
               then c\<lparr>bb_round_started := True, bb_round_start_bytes := bb_bytes_sent c\<rparr> else c);
          c = Bbr_UpdateBtlBw rs c in
      c\<lparr>bb_rt := UpdateRTprop rs (bb_rt c)\<rparr>)"

definition bbr_rates :: "BbrController \<Rightarrow> BbrController" where
  "bbr_rates c =
     (let c = (if bb_btlbw c > 0 then c\<lparr>bb_pacing_rate := SaturatingMulDiv (bb_btlbw c) (bbr_gain c) 256\<rparr> else c) in
      c\<lparr>bb_cwnd := max (SaturatingMulDiv (Bbr_Bdp c) (bbr_gain c) 256) (ucast (bb_mss c) * 4)\<rparr>)"

definition bbr_end_round :: "BbrController \<Rightarrow> BbrController" where
  "bbr_end_round c =
     (if bb_round_started c \<and> bb_bytes_sent c - bb_round_start_bytes c \<ge> bb_round_start_bytes c then
        let c = c\<lparr>bb_round_started := False\<rparr> in
        if bb_state c = Bbr_Startup then CheckStartupDone c else c
      else c)"

definition Bbr_OnAck :: "RateSample \<Rightarrow> BbrController \<Rightarrow> BbrController" where
  "Bbr_OnAck rs c =
     (let c = bbr_estimate rs c;
          c = bbr_transition (rs_now_ms rs) c;
          c = bbr_rates c;
          c = (if bb_state c = Bbr_Drain then CheckDrainDone c else c) in
      bbr_end_round c)"

definition Bbr_CongestionWindow :: "BbrController \<Rightarrow> u32" where
  "Bbr_CongestionWindow c = ucast (min (bb_cwnd c) 0xFFFFFFFF)"

definition Bbr_PacingRate :: "BbrController \<Rightarrow> u32" where
  "Bbr_PacingRate c = ucast (min (bb_pacing_rate c) 0xFFFFFFFF)"

definition Bbr_OnRto :: "BbrController \<Rightarrow> BbrController" where
  "Bbr_OnRto c = c\<lparr>bb_cwnd := ucast (bb_mss c), bb_pacing_rate := 0\<rparr>"

definition Bbr_OnEcnCe :: "BbrController \<Rightarrow> BbrController" where
  "Bbr_OnEcnCe c = c\<lparr>bb_cwnd := max (bb_cwnd c div 2) (ucast (bb_mss c) * 2)\<rparr>"

definition Bbr_Reset :: "BbrController \<Rightarrow> BbrController" where
  "Bbr_Reset c = c\<lparr>bb_btlbw := 0, bb_rt := RtpropFilter_init, bb_state := Bbr_Startup,
     bb_startup_rounds_no_growth := 0, bb_startup_prev_round_max_bw := 0, bb_startup_round_max_bw := 0,
     bb_cycle_index := 0, bb_cycle_start_ms := 0, bb_probe_rtt_enter_ms := 0, bb_pacing_rate := 0,
     bb_cwnd := ucast (bb_mss c) * 2, bb_bytes_sent := 0, bb_round_start_bytes := 0, bb_round_started := False\<rparr>"

definition bbr_ops :: "BbrController controller" where
  "bbr_ops = \<lparr>cc_cwnd = Bbr_CongestionWindow, cc_ssthresh = (\<lambda>_. 0), cc_pacing_rate = Bbr_PacingRate,
     cc_in_fast_recovery = (\<lambda>_. False), cc_on_ack = Bbr_OnAck, cc_on_rto = Bbr_OnRto, cc_on_ecn_ce = Bbr_OnEcnCe,
     cc_fast_recovery_entry = (\<lambda>_ c. c), cc_on_dup_ack = (\<lambda>c. c), cc_fast_recovery_exit = (\<lambda>c. c),
     cc_update_mss = (\<lambda>_ _ c. c), cc_reset = Bbr_Reset\<rparr>"

section \<open>The hybrid controller\<close>

abbreviation kBtlBwWindowRounds :: nat where "kBtlBwWindowRounds \<equiv> 10"

record HybridController =
  hy_mss :: u16
  hy_btlbw :: u64
  hy_window :: "u64 list"
  hy_pos :: nat
  hy_count :: nat
  hy_current :: u64
  hy_delivered :: u64
  hy_round_start_delivered :: u64
  hy_round_target_bytes :: u64
  hy_round_started :: bool
  hy_rt :: RtpropFilter
  hy_cwnd :: u32
  hy_ssthresh :: u32
  hy_fast_recovery :: bool
  hy_pacing_rate :: u64

definition HybridController_init :: "u16 \<Rightarrow> HybridController" where
  "HybridController_init mss = \<lparr>hy_mss = mss, hy_btlbw = 0, hy_window = replicate kBtlBwWindowRounds 0, hy_pos = 0,
     hy_count = 0, hy_current = 0, hy_delivered = 0, hy_round_start_delivered = 0,
     hy_round_target_bytes = ucast mss * 2, hy_round_started = False, hy_rt = RtpropFilter_init,
     hy_cwnd = ucast mss * 2, hy_ssthresh = 0xFFFFFFFF, hy_fast_recovery = False, hy_pacing_rate = 0\<rparr>"

definition EndRound :: "HybridController \<Rightarrow> HybridController" where
  "EndRound c =
     (let c = c\<lparr>hy_window := (hy_window c)[hy_pos c := hy_current c], hy_pos := (hy_pos c + 1) mod kBtlBwWindowRounds,
               hy_count := (if hy_count c < kBtlBwWindowRounds then hy_count c + 1 else hy_count c), hy_current := 0\<rparr> in
      c\<lparr>hy_btlbw := fold max (take (hy_count c) (hy_window c)) 0,
        hy_round_start_delivered := hy_delivered c, hy_round_target_bytes := ucast (hy_cwnd c)\<rparr>)"

definition Hybrid_UpdateBtlBw :: "RateSample \<Rightarrow> HybridController \<Rightarrow> HybridController" where
  "Hybrid_UpdateBtlBw rs c =
     (let rate = rs_delivery_rate_bytes_per_sec rs in
      if rate = 0 then c
      else if rs_app_limited rs then c
      else if rate > hy_current c then c\<lparr>hy_current := rate\<rparr> else c)"

definition Hybrid_Bdp :: "HybridController \<Rightarrow> u64" where
  "Hybrid_Bdp c =
     (let rtprop = rf_rtprop (hy_rt c) in
      if hy_btlbw c = 0 \<or> rtprop = 0 then 0
      else if hy_btlbw c > 0xFFFFFFFFFFFFFFFF div rtprop then 0xFFFFFFFFFFFFFFFF div 1000
      else (hy_btlbw c * rtprop) div 1000)"

definition RecomputeCwnd :: "HybridController \<Rightarrow> HybridController" where
  "RecomputeCwnd c = c\<lparr>hy_cwnd := clamp32 (max (Hybrid_Bdp c) (ucast (hy_mss c) * 4))\<rparr>"

definition Hybrid_OnAck :: "RateSample \<Rightarrow> HybridController \<Rightarrow> HybridController" where
  "Hybrid_OnAck rs c =
     (if hy_fast_recovery c then c
      else
        let c = (if \<not> hy_round_started c
                 then c\<lparr>hy_round_started := True, hy_round_start_delivered := hy_delivered c,
                        hy_round_target_bytes := ucast (hy_cwnd c)\<rparr> else c);
            c = Hybrid_UpdateBtlBw rs c;
            c = c\<lparr>hy_rt := UpdateRTprop rs (hy_rt c)\<rparr>;
            c = c\<lparr>hy_delivered := hy_delivered c + rs_acked_bytes rs\<rparr>;
            c = (if hy_delivered c - hy_round_start_delivered c \<ge> hy_round_target_bytes c then EndRound c else c);
            c = c\<lparr>hy_pacing_rate := hy_btlbw c\<rparr> in
        if hy_btlbw c = 0 \<or> rf_rtprop (hy_rt c) = 0 then
          if rs_acked_bytes rs > 0
          then c\<lparr>hy_cwnd := sat_add32 (hy_cwnd c) (ucast (min (rs_acked_bytes rs) (ucast (hy_mss c))))\<rparr> else c
        else RecomputeCwnd c)"

definition Hybrid_OnFastRecoveryEntry :: "u32 \<Rightarrow> HybridController \<Rightarrow> HybridController" where
  "Hybrid_OnFastRecoveryEntry flight c =
     (let c = c\<lparr>hy_ssthresh := loss_ssthresh flight (hy_mss c)\<rparr> in
      c\<lparr>hy_cwnd := recovery_cwnd (hy_ssthresh c) (hy_mss c), hy_fast_recovery := True\<rparr>)"

definition Hybrid_OnDupAck :: "HybridController \<Rightarrow> HybridController" where
  "Hybrid_OnDupAck c = (if hy_fast_recovery c then c\<lparr>hy_cwnd := clamp32 (ucast (hy_cwnd c) + ucast (hy_mss c))\<rparr> else c)"

definition Hybrid_OnFastRecoveryExit :: "HybridController \<Rightarrow> HybridController" where
  "Hybrid_OnFastRecoveryExit c = c\<lparr>hy_cwnd := hy_ssthresh c, hy_fast_recovery := False\<rparr>"

definition Hybrid_OnRto :: "HybridController \<Rightarrow> HybridController" where
  "Hybrid_OnRto c = c\<lparr>hy_cwnd := ucast (hy_mss c), hy_fast_recovery := False, hy_pacing_rate := 0, hy_btlbw := 0,
     hy_current := 0, hy_pos := 0, hy_count := 0, hy_window := replicate kBtlBwWindowRounds 0,
     hy_rt := RtpropFilter_init, hy_delivered := 0, hy_round_start_delivered := 0,
     hy_round_target_bytes := ucast (hy_mss c) * 2, hy_round_started := False\<rparr>"

definition Hybrid_OnEcnCe :: "HybridController \<Rightarrow> HybridController" where
  "Hybrid_OnEcnCe c = (let c = c\<lparr>hy_ssthresh := loss_ssthresh (hy_cwnd c) (hy_mss c)\<rparr> in c\<lparr>hy_cwnd := hy_ssthresh c\<rparr>)"

definition Hybrid_PacingRate :: "HybridController \<Rightarrow> u32" where
  "Hybrid_PacingRate c = ucast (min (hy_pacing_rate c) 0xFFFFFFFF)"

definition Hybrid_UpdateMss :: "u16 \<Rightarrow> bool \<Rightarrow> HybridController \<Rightarrow> HybridController" where
  "Hybrid_UpdateMss mss pristine c =
     (if mss = 0 \<or> mss = hy_mss c then c
      else
        let c = c\<lparr>hy_mss := mss, hy_cwnd := rescale_cwnd (hy_cwnd c) (hy_mss c) mss pristine\<rparr> in
        c\<lparr>hy_round_target_bytes := ucast (hy_cwnd c)\<rparr>)"

definition Hybrid_Reset :: "HybridController \<Rightarrow> HybridController" where
  "Hybrid_Reset c = c\<lparr>hy_btlbw := 0, hy_current := 0, hy_pos := 0, hy_count := 0,
     hy_window := replicate kBtlBwWindowRounds 0, hy_rt := RtpropFilter_init, hy_cwnd := ucast (hy_mss c) * 2,
     hy_ssthresh := 0xFFFFFFFF, hy_fast_recovery := False, hy_pacing_rate := 0, hy_delivered := 0,
     hy_round_start_delivered := 0, hy_round_target_bytes := ucast (hy_mss c) * 2, hy_round_started := False\<rparr>"

definition hybrid_ops :: "HybridController controller" where
  "hybrid_ops = \<lparr>cc_cwnd = hy_cwnd, cc_ssthresh = hy_ssthresh, cc_pacing_rate = Hybrid_PacingRate,
     cc_in_fast_recovery = hy_fast_recovery, cc_on_ack = Hybrid_OnAck, cc_on_rto = Hybrid_OnRto,
     cc_on_ecn_ce = Hybrid_OnEcnCe, cc_fast_recovery_entry = Hybrid_OnFastRecoveryEntry,
     cc_on_dup_ack = Hybrid_OnDupAck, cc_fast_recovery_exit = Hybrid_OnFastRecoveryExit,
     cc_update_mss = Hybrid_UpdateMss, cc_reset = Hybrid_Reset\<rparr>"

section \<open>The contract of a controller\<close>

datatype cc_op =
  CcAck RateSample | CcRto | CcEcn | CcEntry u32 | CcDupAck | CcExit | CcMss u16 bool | CcReset

fun cc_step :: "'c controller \<Rightarrow> cc_op \<Rightarrow> 'c \<Rightarrow> 'c" where
  "cc_step C (CcAck rs) c = cc_on_ack C rs c"
| "cc_step C CcRto c = cc_on_rto C c"
| "cc_step C CcEcn c = cc_on_ecn_ce C c"
| "cc_step C (CcEntry flight) c = cc_fast_recovery_entry C flight c"
| "cc_step C CcDupAck c = cc_on_dup_ack C c"
| "cc_step C CcExit c = cc_fast_recovery_exit C c"
| "cc_step C (CcMss mss pristine) c = cc_update_mss C mss pristine c"
| "cc_step C CcReset c = cc_reset C c"

locale open_window =
  fixes C :: "'c controller"
    and usable :: "'c \<Rightarrow> bool"
  assumes cwnd_nonzero: "usable c \<Longrightarrow> cc_cwnd C c \<noteq> 0"
    and step_usable: "usable c \<Longrightarrow> usable (cc_step C op c)"

sublocale open_window \<subseteq> machine "cc_step C" usable
  by unfold_locales (rule step_usable)

context open_window
begin

lemma window_stays_open: "usable c \<Longrightarrow> cc_cwnd C (run (cc_step C) ops c) \<noteq> 0"
  by (intro cwnd_nonzero run_inv)

end

section \<open>All three controllers keep it\<close>

lemma ucast_mss_nonzero:
  assumes "(mss :: u16) \<noteq> 0"
  shows "(ucast mss :: u32) \<noteq> 0" "(ucast mss * 2 :: u32) \<noteq> 0" "(ucast mss :: u64) \<noteq> 0"
    "(ucast mss * 2 :: u64) \<noteq> 0" "(ucast mss * 4 :: u64) \<noteq> 0"
proof -
  have m: "0 < unat mss" "unat mss < 65536" using assms unsigned_less [where 'a = nat, of mss] by (auto simp: unat_gt_0)
  have u: "unat (ucast mss :: u32) = unat mss" "unat (ucast mss :: u64) = unat mss"
    using m(2) by (simp_all add: unsigned_ucast_eq take_bit_nat_eq_self)
  have "unat (ucast mss * 2 :: u32) = unat mss * 2" "unat (ucast mss * 2 :: u64) = unat mss * 2"
    "unat (ucast mss * 4 :: u64) = unat mss * 4"
    using m(2) by (simp_all add: unat_word_ariths u)
  with m u show "(ucast mss :: u32) \<noteq> 0" "(ucast mss * 2 :: u32) \<noteq> 0" "(ucast mss :: u64) \<noteq> 0"
    "(ucast mss * 2 :: u64) \<noteq> 0" "(ucast mss * 4 :: u64) \<noteq> 0"
    by (metis less_irrefl mult_is_0 unsigned_0 zero_neq_numeral)+
qed

lemma max_word_nonzero: "b \<noteq> 0 \<Longrightarrow> max a (b :: 'a :: len word) \<noteq> 0"
  by (auto simp: max_def)

lemma sat_add32_nonzero: "c \<noteq> 0 \<Longrightarrow> sat_add32 c i \<noteq> 0"
proof -
  assume c: "c \<noteq> 0"
  have "c + i \<noteq> 0" if "\<not> 0xFFFFFFFF - c < i"
  proof
    assume "c + i = 0"
    then have "i = - c" by (metis add.commute add_eq_0_iff)
    have "(0xFFFFFFFF :: u32) - c = - c - 1" by simp
    then have "0xFFFFFFFF - c < - c"
      using c by (metis neg_equal_0_iff_equal measure_unat word_less_nat_alt)
    with that \<open>i = - c\<close> show False by simp
  qed
  then show ?thesis by (auto simp: sat_add32_def)
qed

lemma unat_ucast_u32_u64: "unat (ucast (c :: u32) :: u64) = unat c"
  using unsigned_less [where 'a = nat, of c] by (simp add: unsigned_ucast_eq take_bit_nat_eq_self)

lemma clamp32_nonzero: "v \<noteq> 0 \<Longrightarrow> clamp32 v \<noteq> 0"
proof -
  assume v: "v \<noteq> 0"
  have "ucast v \<noteq> (0 :: u32)" if "\<not> v > 0xFFFFFFFF"
  proof -
    have "unat v < 2 ^ 32" using that by (simp add: word_less_nat_alt)
    then have "unat (ucast v :: u32) = unat v" by (simp add: unsigned_ucast_eq take_bit_nat_eq_self)
    then show ?thesis using v by (metis unsigned_0 unsigned_eq_0_iff)
  qed
  then show ?thesis by (auto simp: clamp32_def)
qed

lemma loss_ssthresh_nonzero: "mss \<noteq> 0 \<Longrightarrow> loss_ssthresh flight mss \<noteq> 0"
  by (simp add: loss_ssthresh_def max_word_nonzero ucast_mss_nonzero)

lemma window_sum_nonzero:
  assumes "cwnd \<noteq> 0" "k \<le> 3"
  shows "clamp32 (ucast (cwnd :: u32) + ucast (mss :: u16) * k) \<noteq> 0"
proof (rule clamp32_nonzero)
  have c: "0 < unat cwnd" "unat cwnd < 2 ^ 32" using assms(1) unsigned_less [where 'a = nat, of cwnd] by (auto simp: unat_gt_0)
  have m: "unat mss < 65536" "unat (ucast mss :: u64) = unat mss"
    using unsigned_less [where 'a = nat, of mss] by (simp_all add: unsigned_ucast_eq take_bit_nat_eq_self)
  have k: "unat k \<le> 3" using assms(2) by (simp add: word_le_nat_alt)
  then have "unat mss * unat k \<le> 65536 * 3" using m(1) by (intro mult_le_mono) auto
  then have "unat (ucast cwnd + ucast mss * k) = unat cwnd + unat mss * unat k"
    using c m by (simp add: unat_word_ariths unat_ucast_u32_u64)
  with c show "ucast cwnd + ucast mss * k \<noteq> 0" by (metis add_gr_0 less_irrefl unsigned_0)
qed

lemmas window_nonzero =
  ucast_mss_nonzero max_word_nonzero sat_add32_nonzero clamp32_nonzero loss_ssthresh_nonzero

lemma recovery_cwnd_nonzero: "ssthresh \<noteq> 0 \<Longrightarrow> recovery_cwnd ssthresh mss \<noteq> 0"
  unfolding recovery_cwnd_def by (rule window_sum_nonzero) simp_all

lemma dup_ack_nonzero: "cwnd \<noteq> 0 \<Longrightarrow> clamp32 (ucast (cwnd :: u32) + ucast (mss :: u16)) \<noteq> 0"
  using window_sum_nonzero [of cwnd 1 mss] by simp

lemma rescale_cwnd_nonzero: "mss \<noteq> 0 \<Longrightarrow> cwnd \<noteq> 0 \<Longrightarrow> rescale_cwnd cwnd old_mss mss pristine \<noteq> 0"
proof -
  assume m: "mss \<noteq> 0" "cwnd \<noteq> 0"
  have "max (ucast mss) b \<noteq> (0 :: u32)" for b using m(1) by (auto simp: max_def ucast_mss_nonzero)
  then show ?thesis using m by (simp add: rescale_cwnd_def ucast_mss_nonzero)
qed

definition aimd_usable :: "AimdController \<Rightarrow> bool" where
  "aimd_usable c \<longleftrightarrow> am_mss c \<noteq> 0 \<and> am_cwnd c \<noteq> 0 \<and> am_ssthresh c \<noteq> 0"

interpretation aimd: open_window aimd_ops aimd_usable
proof
  fix c op assume "aimd_usable c"
  then show "aimd_usable (cc_step aimd_ops op c)"
    by (cases op) (auto simp: aimd_ops_def aimd_usable_def Aimd_OnAck_def Aimd_OnRto_def Aimd_OnEcnCe_def
        Aimd_OnFastRecoveryEntry_def Aimd_OnDupAck_def Aimd_OnFastRecoveryExit_def Aimd_UpdateMss_def
        Aimd_Reset_def Let_def window_nonzero recovery_cwnd_nonzero dup_ack_nonzero rescale_cwnd_nonzero)
qed (simp add: aimd_ops_def aimd_usable_def)

definition bbr_usable :: "BbrController \<Rightarrow> bool" where
  "bbr_usable c \<longleftrightarrow> bb_mss c \<noteq> 0 \<and> bb_cwnd c \<noteq> 0"

lemma Bbr_CongestionWindow_nonzero: "bb_cwnd c \<noteq> 0 \<Longrightarrow> Bbr_CongestionWindow c \<noteq> 0"
  using clamp32_nonzero [of "bb_cwnd c"] by (auto simp: Bbr_CongestionWindow_def clamp32_def min_def split: if_splits)

lemma bbr_frame:
  "bb_mss (Bbr_UpdateBtlBw rs c) = bb_mss c" "bb_mss (bbr_transition now c) = bb_mss c"
  "bb_mss (CheckDrainDone c) = bb_mss c" "bb_cwnd (CheckDrainDone c) = bb_cwnd c"
  "bb_mss (bbr_estimate rs c) = bb_mss c" "bb_mss (bbr_rates c) = bb_mss c"
  "bb_mss (bbr_end_round c) = bb_mss c" "bb_cwnd (bbr_end_round c) = bb_cwnd c"
  by (simp_all add: bbr_estimate_def bbr_rates_def bbr_end_round_def Bbr_UpdateBtlBw_def bbr_transition_def AdvanceCycle_def EnterProbeRtt_def ExitProbeRtt_def
      CheckDrainDone_def CheckStartupDone_def Let_def split: BbrState.split)

lemma bbr_rates_cwnd: "bb_mss c \<noteq> 0 \<Longrightarrow> bb_cwnd (bbr_rates c) \<noteq> 0"
  by (simp add: bbr_rates_def Let_def window_nonzero)

lemma Bbr_OnAck_usable: "bb_mss c \<noteq> 0 \<Longrightarrow> bbr_usable (Bbr_OnAck rs c)"
  by (simp add: bbr_usable_def Bbr_OnAck_def Let_def bbr_frame bbr_rates_cwnd)

interpretation bbr: open_window bbr_ops bbr_usable
proof
  fix c op assume "bbr_usable c"
  then show "bbr_usable (cc_step bbr_ops op c)"
    using Bbr_OnAck_usable [of c]
    by (cases op) (simp_all add: bbr_ops_def bbr_usable_def Bbr_OnRto_def Bbr_OnEcnCe_def Bbr_Reset_def window_nonzero)
qed (simp add: bbr_ops_def bbr_usable_def Bbr_CongestionWindow_nonzero)

definition hybrid_usable :: "HybridController \<Rightarrow> bool" where
  "hybrid_usable c \<longleftrightarrow> hy_mss c \<noteq> 0 \<and> hy_cwnd c \<noteq> 0 \<and> hy_ssthresh c \<noteq> 0"

lemma hybrid_frame:
  "hy_mss (Hybrid_UpdateBtlBw rs c) = hy_mss c" "hy_cwnd (Hybrid_UpdateBtlBw rs c) = hy_cwnd c"
  "hy_ssthresh (Hybrid_UpdateBtlBw rs c) = hy_ssthresh c" "hy_mss (EndRound c) = hy_mss c"
  "hy_cwnd (EndRound c) = hy_cwnd c" "hy_ssthresh (EndRound c) = hy_ssthresh c"
  by (simp_all add: Hybrid_UpdateBtlBw_def EndRound_def Let_def)

lemma Hybrid_OnAck_usable: "hybrid_usable c \<Longrightarrow> hybrid_usable (Hybrid_OnAck rs c)"
  by (auto simp: hybrid_usable_def Hybrid_OnAck_def RecomputeCwnd_def Let_def hybrid_frame window_nonzero)

interpretation hybrid: open_window hybrid_ops hybrid_usable
proof
  fix c op assume "hybrid_usable c"
  then show "hybrid_usable (cc_step hybrid_ops op c)"
    using Hybrid_OnAck_usable [of c]
    by (cases op) (auto simp: hybrid_ops_def hybrid_usable_def Hybrid_OnRto_def Hybrid_OnEcnCe_def
        Hybrid_OnFastRecoveryEntry_def Hybrid_OnDupAck_def Hybrid_OnFastRecoveryExit_def Hybrid_UpdateMss_def
        Hybrid_Reset_def Let_def window_nonzero recovery_cwnd_nonzero dup_ack_nonzero rescale_cwnd_nonzero)
qed (simp add: hybrid_ops_def hybrid_usable_def)

text \<open>
  C21: Whatever sequence of ACKs, losses, timeouts, ECN marks, MSS changes and resets a connection sees, the
  congestion window of the AIMD, the BBR and the hybrid controller is never zero, so congestion
  control alone can never stop a sender for good.\<close>

theorem congestion_window_never_zero:
  assumes "mss \<noteq> 0"
  shows "cc_cwnd aimd_ops (run (cc_step aimd_ops) ops (AimdController_init mss)) \<noteq> 0 \<and>
    cc_cwnd bbr_ops (run (cc_step bbr_ops) ops (BbrController_init mss)) \<noteq> 0 \<and>
    cc_cwnd hybrid_ops (run (cc_step hybrid_ops) ops (HybridController_init mss)) \<noteq> 0"
proof -
  have "aimd_usable (AimdController_init mss)" "bbr_usable (BbrController_init mss)"
    "hybrid_usable (HybridController_init mss)"
    using assms by (simp_all add: aimd_usable_def AimdController_init_def bbr_usable_def BbrController_init_def
        hybrid_usable_def HybridController_init_def window_nonzero)
  then show ?thesis by (intro conjI aimd.window_stays_open bbr.window_stays_open hybrid.window_stays_open)
qed

theorem congestion_window_never_zero_witness:
  "cc_cwnd aimd_ops (run (cc_step aimd_ops) [CcRto, CcEcn, CcExit] (AimdController_init 1460)) \<noteq> 0"
  using congestion_window_never_zero [where mss = 1460 and ops = "[CcRto, CcEcn, CcExit]"] by simp

section \<open>Leaving the drain state\<close>

lemma bbr_same_estimate:
  "Bbr_Bdp (CheckDrainDone c) = Bbr_Bdp c"
  "Bbr_Bdp (bbr_rates c) = Bbr_Bdp c" "bb_btlbw (bbr_rates c) = bb_btlbw c"
  by (simp_all add: Bbr_Bdp_def CheckDrainDone_def bbr_rates_def Let_def)

lemma CheckDrainDone_stays: "Bbr_Bdp c < bb_cwnd c \<Longrightarrow> CheckDrainDone c = c"
  by (auto simp: CheckDrainDone_def Let_def)

lemma bbr_rates_drain:
  assumes "bb_state c = Bbr_Drain"
  shows "bb_state (bbr_rates c) = Bbr_Drain" "ucast (bb_mss c) * 4 \<le> bb_cwnd (bbr_rates c)"
    "bb_pacing_rate (bbr_rates c) =
       (if bb_btlbw c = 0 then bb_pacing_rate c else SaturatingMulDiv (bb_btlbw c) kDrainGainQ8 256)"
  using assms by (simp_all add: bbr_rates_def Let_def bbr_gain_def word_gt_0)

lemma bbr_estimate_drain:
  "bb_state (bbr_estimate rs c) = bb_state c" "bb_pacing_rate (bbr_estimate rs c) = bb_pacing_rate c"
  by (simp_all add: bbr_estimate_def Bbr_UpdateBtlBw_def Let_def)

lemma bbr_end_round_drain:
  assumes "bb_state c \<noteq> Bbr_Startup"
  shows "bb_state (bbr_end_round c) = bb_state c" "bb_btlbw (bbr_end_round c) = bb_btlbw c"
    "bb_pacing_rate (bbr_end_round c) = bb_pacing_rate c" "Bbr_Bdp (bbr_end_round c) = Bbr_Bdp c"
  using assms by (simp_all add: bbr_end_round_def Let_def Bbr_Bdp_def)

text \<open>
  C38: On a path whose bandwidth-delay product is below four segments, BBR never leaves the drain state: the
  window is floored at four segments, and the drain state is left only when the window is at most the
  bandwidth-delay product. The sender then keeps pacing at \<open>89/256\<close> of the bottleneck bandwidth.\<close>

theorem bbr_drain_stuck:
  assumes "bb_state c = Bbr_Drain" "Bbr_Bdp (Bbr_OnAck rs c) < ucast (bb_mss c) * 4"
  shows "bb_state (Bbr_OnAck rs c) = Bbr_Drain \<and>
    bb_pacing_rate (Bbr_OnAck rs c) =
      (if bb_btlbw (Bbr_OnAck rs c) = 0 then bb_pacing_rate c
       else SaturatingMulDiv (bb_btlbw (Bbr_OnAck rs c)) kDrainGainQ8 256)"
proof -
  let ?e = "bbr_estimate rs c"
  have e: "bb_state ?e = Bbr_Drain" "bb_mss ?e = bb_mss c" "bb_pacing_rate ?e = bb_pacing_rate c"
    using assms(1) by (simp_all add: bbr_estimate_drain bbr_frame)
  note r = bbr_rates_drain [OF e(1)]
  have ack: "Bbr_OnAck rs c = bbr_end_round (CheckDrainDone (bbr_rates ?e))"
    using e(1) r(1) by (simp add: Bbr_OnAck_def bbr_transition_def Let_def)
  have "bb_state (CheckDrainDone (bbr_rates ?e)) \<noteq> Bbr_Startup" using r(1) by (simp add: CheckDrainDone_def Let_def)
  then have "Bbr_Bdp ?e < ucast (bb_mss c) * 4" using assms(2) by (simp add: ack bbr_end_round_drain bbr_same_estimate)
  then have "CheckDrainDone (bbr_rates ?e) = bbr_rates ?e"
    using r(2) by (intro CheckDrainDone_stays) (simp add: bbr_same_estimate e(2))
  then show ?thesis using r e by (simp add: ack bbr_end_round_drain bbr_same_estimate)
qed

text \<open>A 4000 byte/s path with 1 s of delay and an MSS of 1460.\<close>

definition sample_bbr :: BbrController where
  "sample_bbr = (BbrController_init 1460)\<lparr>bb_state := Bbr_Drain\<rparr>"

definition sample_sample :: RateSample where
  "sample_sample = RateSample_init\<lparr>rs_now_ms := 5000, rs_rtt_ms := 1000, rs_acked_bytes := 1460,
     rs_delivery_rate_bytes_per_sec := 4000\<rparr>"

theorem bbr_drain_stuck_witness:
  "Bbr_Bdp (Bbr_OnAck sample_sample sample_bbr) = 4000 \<and> bb_state (Bbr_OnAck sample_sample sample_bbr) = Bbr_Drain \<and>
   bb_pacing_rate (Bbr_OnAck sample_sample sample_bbr) = 1390"
proof -
  have "let c = Bbr_OnAck sample_sample sample_bbr in Bbr_Bdp c = 4000 \<and> bb_btlbw c = 4000" by code_simp
  moreover have "bb_state sample_bbr = Bbr_Drain" "(4000 :: u64) < ucast (bb_mss sample_bbr) * 4"
    "SaturatingMulDiv 4000 kDrainGainQ8 256 = 1390" by code_simp+
  ultimately have f: "bb_state sample_bbr = Bbr_Drain" "Bbr_Bdp (Bbr_OnAck sample_sample sample_bbr) = 4000"
    "(4000 :: u64) < ucast (bb_mss sample_bbr) * 4" "bb_btlbw (Bbr_OnAck sample_sample sample_bbr) = 4000"
    "SaturatingMulDiv 4000 kDrainGainQ8 256 = 1390"
    unfolding Let_def by blast+
  from bbr_drain_stuck [OF f(1), of sample_sample] f show ?thesis by simp
qed

end
