(* ===== verification/TcpSend.thy ===== *)
theory TcpSend
  imports TcpStream Congestion
begin

text \<open>
  The TCP send buffer (\<open>src/tcp/send.h\<close>, \<open>src/tcp/send.cpp\<close>): the queue of unsent application data,
  the retransmission queue, the retransmission and persist timers, SACK and the pacing gate. The
  definitions take the operations \<open>C\<close> of the congestion controller as an argument, where the source
  dispatches with \<open>std::visit\<close> over its variant, so every theorem holds for each algorithm. A \<open>BufferRef\<close> is the
  bytes of the buffer it retains and a \<open>BufferSlice\<close> the bytes it views; \<open>size_t\<close> counters are naturals.
\<close>

section \<open>Data\<close>

definition SequenceBefore :: "u32 \<Rightarrow> u32 \<Rightarrow> bool" where
  "SequenceBefore left right \<longleftrightarrow> sint (left - right) < 0"

definition SequenceAfter :: "u32 \<Rightarrow> u32 \<Rightarrow> bool" where
  "SequenceAfter left right \<longleftrightarrow> sint (left - right) > 0"

definition SaturatingUint32 :: "nat \<Rightarrow> u32" where
  "SaturatingUint32 v = (if v > 0xFFFFFFFF then 0xFFFFFFFF else of_nat v)"

definition SaturatingAdd :: "u64 \<Rightarrow> u64 \<Rightarrow> u64" where
  "SaturatingAdd left right = (if right > 0xFFFFFFFFFFFFFFFF - left then 0xFFFFFFFFFFFFFFFF else left + right)"

definition Subslice :: "nat \<Rightarrow> nat \<Rightarrow> bytes \<Rightarrow> bytes" where
  "Subslice offset len d = (if offset > length d then [] else take len (drop offset d))"

record TcpSendConfig =
  sf_initial_mss :: u16
  sf_window_scale :: u8
  sf_send_queue_limit :: nat
  sf_retransmit_queue_limit :: nat
  sf_min_rto_ms :: u64
  sf_max_rto_ms :: u64
  sf_initial_rto_ms :: u64
  sf_persist_timer_base_ms :: u64
  sf_persist_timer_max_ms :: u64
  sf_max_retransmissions :: nat
  sf_max_persist_probes :: nat
  sf_cc_algorithm :: CongestionAlgorithm

definition Send_Validate :: "TcpSendConfig \<Rightarrow> bool" where
  "Send_Validate f \<longleftrightarrow> sf_initial_mss f \<noteq> 0 \<and> sf_window_scale f \<le> 14 \<and> sf_send_queue_limit f \<noteq> 0 \<and>
     sf_retransmit_queue_limit f \<noteq> 0 \<and> sf_min_rto_ms f \<noteq> 0 \<and> sf_min_rto_ms f \<le> sf_initial_rto_ms f \<and>
     sf_initial_rto_ms f \<le> sf_max_rto_ms f \<and> sf_persist_timer_base_ms f \<noteq> 0 \<and>
     sf_persist_timer_base_ms f \<le> sf_persist_timer_max_ms f \<and> sf_max_retransmissions f \<noteq> 0 \<and>
     sf_max_persist_probes f \<noteq> 0"

record TcpSendNextResult =
  sn_has_segment :: bool
  sn_is_retransmission :: bool
  sn_is_zero_window_probe :: bool
  sn_is_fin :: bool
  sn_set_cwr :: bool
  sn_payload :: bytes
  sn_sequence :: u32

definition TcpSendNextResult_init :: TcpSendNextResult where
  "TcpSendNextResult_init = \<lparr>sn_has_segment = False, sn_is_retransmission = False, sn_is_zero_window_probe = False,
     sn_is_fin = False, sn_set_cwr = False, sn_payload = [], sn_sequence = 0\<rparr>"

record TcpSendAckResult =
  sa_newly_acked :: nat
  sa_duplicate :: bool
  sa_fast_retransmit :: bool
  sa_fully_acked :: bool
  sa_unacceptable :: bool
  sa_retransmit_queue_bytes :: nat

definition TcpSendAckResult_init :: TcpSendAckResult where
  "TcpSendAckResult_init = \<lparr>sa_newly_acked = 0, sa_duplicate = False, sa_fast_retransmit = False, sa_fully_acked = False,
     sa_unacceptable = False, sa_retransmit_queue_bytes = 0\<rparr>"

record SendRecord =
  sr_seq :: u32
  sr_logical_length :: u32
  sr_owner :: "bytes option"
  sr_data :: bytes
  sr_sent_time_ms :: u64
  sr_rto_attempts :: nat
  sr_retransmitted :: bool
  sr_sacked :: bool
  sr_delivery :: PacketDeliveryState

datatype PendingKind =
  PK_None | PK_NewData | PK_RtoRetransmit | PK_FastRetransmit | PK_PersistNew | PK_PersistRetry | PK_PersistExisting
| PK_PersistPromote

record 'c TcpSendBuffer =
  sb_send_queue :: bytes
  sb_send_queue_limit :: nat
  sb_retransmit_queue :: "SendRecord list"
  sb_retransmit_limit :: nat
  sb_retransmit_bytes :: nat
  sb_in_flight_bytes :: nat
  sb_in_flight_sequence :: nat
  sb_persist_probe :: "SendRecord option"
  sb_sacked_bytes :: nat
  sb_sacked_sequence :: u32
  sb_snd_una :: u32
  sb_snd_nxt :: u32
  sb_snd_max :: u32
  sb_cc_algorithm :: CongestionAlgorithm
  sb_controller :: 'c
  sb_sampler :: DeliveryRateSampler
  sb_mss :: u16
  sb_rto_ms :: u64
  sb_rto_deadline_ms :: u64
  sb_min_rto_ms :: u64
  sb_max_rto_ms :: u64
  sb_rto_running :: bool
  sb_srtt_valid :: bool
  sb_srtt_ms :: u64
  sb_rttvar_ms :: u64
  sb_dup_ack_count :: nat
  sb_last_peer_window :: u32
  sb_peer_window_valid :: bool
  sb_fast_retransmit_pending :: bool
  sb_retransmission_count :: nat
  sb_max_retransmissions :: nat
  sb_persist_deadline_ms :: u64
  sb_persist_base_ms :: u64
  sb_persist_max_ms :: u64
  sb_persist_current_ms :: u64
  sb_persist_probe_count :: nat
  sb_max_persist_probes :: nat
  sb_fin_requested :: bool
  sb_fin_sent :: bool
  sb_fin_acked :: bool
  sb_closed :: bool
  sb_next_send_time_ms :: u64
  sb_pending_kind :: PendingKind
  sb_pending_is_fin :: bool
  sb_pending_set_cwr :: bool
  sb_pending_seq :: u32
  sb_pending_len :: nat
  sb_ecn_cwr_queued :: bool
  sb_delivered_ce :: u64

text \<open>The constructor; the controller \<open>c\<close> is the one built for the algorithm.\<close>

definition TcpSendBuffer_init ::
  "u32 \<Rightarrow> u16 \<Rightarrow> nat \<Rightarrow> nat \<Rightarrow> u64 \<Rightarrow> u64 \<Rightarrow> u64 \<Rightarrow> u64 \<Rightarrow> u64 \<Rightarrow> nat \<Rightarrow> nat \<Rightarrow> CongestionAlgorithm \<Rightarrow> 'c \<Rightarrow> 'c TcpSendBuffer" where
  "TcpSendBuffer_init initial_sequence mss queue_limit retransmit_limit initial_rto_ms min_rto_ms max_rto_ms
     persist_base_ms persist_max_ms max_retransmissions max_persist_probes cc_algorithm c =
     \<lparr>sb_send_queue = [], sb_send_queue_limit = queue_limit, sb_retransmit_queue = [],
      sb_retransmit_limit = retransmit_limit, sb_retransmit_bytes = 0, sb_in_flight_bytes = 0,
      sb_in_flight_sequence = 0, sb_persist_probe = None, sb_sacked_bytes = 0, sb_sacked_sequence = 0,
      sb_snd_una = initial_sequence, sb_snd_nxt = initial_sequence, sb_snd_max = initial_sequence,
      sb_cc_algorithm = cc_algorithm, sb_controller = c, sb_sampler = DeliveryRateSampler_init, sb_mss = mss,
      sb_rto_ms = initial_rto_ms, sb_rto_deadline_ms = 0, sb_min_rto_ms = min_rto_ms, sb_max_rto_ms = max_rto_ms,
      sb_rto_running = False, sb_srtt_valid = False, sb_srtt_ms = 0, sb_rttvar_ms = 0, sb_dup_ack_count = 0,
      sb_last_peer_window = 0, sb_peer_window_valid = False, sb_fast_retransmit_pending = False,
      sb_retransmission_count = 0, sb_max_retransmissions = max_retransmissions, sb_persist_deadline_ms = 0,
      sb_persist_base_ms = persist_base_ms, sb_persist_max_ms = persist_max_ms,
      sb_persist_current_ms = persist_base_ms, sb_persist_probe_count = 0,
      sb_max_persist_probes = max_persist_probes, sb_fin_requested = False, sb_fin_sent = False,
      sb_fin_acked = False, sb_closed = False, sb_next_send_time_ms = 0, sb_pending_kind = PK_None,
      sb_pending_is_fin = False, sb_pending_set_cwr = False, sb_pending_seq = 0, sb_pending_len = 0,
      sb_ecn_cwr_queued = False, sb_delivered_ce = 0\<rparr>"

section \<open>Application side\<close>

definition Enqueue :: "bytes option \<Rightarrow> 'c TcpSendBuffer \<Rightarrow> nat \<times> 'c TcpSendBuffer" where
  "Enqueue data b =
     (case data of
        None \<Rightarrow> (0, b)
      | Some d \<Rightarrow>
          if d = [] \<or> sb_fin_requested b \<or> sb_closed b \<or> length (sb_send_queue b) \<ge> sb_send_queue_limit b then (0, b)
          else
            let accepted = min (length d) (sb_send_queue_limit b - length (sb_send_queue b)) in
            if accepted = 0 then (0, b)
            else (accepted, b\<lparr>sb_send_queue := sb_send_queue b @ take accepted d,
                              sb_sampler := ClearAppLimited (sb_sampler b)\<rparr>))"

definition RequestFin :: "'c TcpSendBuffer \<Rightarrow> bool \<times> 'c TcpSendBuffer" where
  "RequestFin b = (if sb_fin_requested b \<or> sb_closed b then (False, b) else (True, b\<lparr>sb_fin_requested := True\<rparr>))"

section \<open>Timers\<close>

definition has_work :: "'c TcpSendBuffer \<Rightarrow> bool" where
  "has_work b \<longleftrightarrow> sb_send_queue b \<noteq> [] \<or> sb_retransmit_queue b \<noteq> [] \<or> sb_persist_probe b \<noteq> None \<or>
     (sb_fin_requested b \<and> \<not> sb_fin_sent b)"

definition RecomputeRto :: "u64 \<Rightarrow> 'c TcpSendBuffer \<Rightarrow> 'c TcpSendBuffer" where
  "RecomputeRto rtt_ms b =
     (let b = (if \<not> sb_srtt_valid b
               then b\<lparr>sb_srtt_ms := rtt_ms, sb_rttvar_ms := rtt_ms div 2, sb_srtt_valid := True\<rparr>
               else
                 let difference = (if sb_srtt_ms b > rtt_ms then sb_srtt_ms b - rtt_ms else rtt_ms - sb_srtt_ms b) in
                 b\<lparr>sb_rttvar_ms := (3 * sb_rttvar_ms b + difference) div 4,
                   sb_srtt_ms := (7 * sb_srtt_ms b + rtt_ms) div 8\<rparr>);
          variation = (if sb_rttvar_ms b > 0xFFFFFFFFFFFFFFFF div 4 then 0xFFFFFFFFFFFFFFFF
                       else max 1 (sb_rttvar_ms b * 4));
          computed = SaturatingAdd (sb_srtt_ms b) variation in
      b\<lparr>sb_rto_ms := (if computed < sb_min_rto_ms b then sb_min_rto_ms b
                      else if sb_max_rto_ms b < computed then sb_max_rto_ms b else computed)\<rparr>)"

definition BackoffRto :: "'c TcpSendBuffer \<Rightarrow> 'c TcpSendBuffer" where
  "BackoffRto b =
     (if sb_rto_ms b \<ge> sb_max_rto_ms b \<or> sb_rto_ms b > sb_max_rto_ms b div 2
      then b\<lparr>sb_rto_ms := sb_max_rto_ms b\<rparr> else b\<lparr>sb_rto_ms := sb_rto_ms b * 2\<rparr>)"

definition ArmRto :: "u64 \<Rightarrow> 'c TcpSendBuffer \<Rightarrow> 'c TcpSendBuffer" where
  "ArmRto now_ms b =
     (if sb_retransmit_queue b = [] then b\<lparr>sb_rto_running := False, sb_rto_deadline_ms := 0\<rparr>
      else b\<lparr>sb_rto_running := True, sb_rto_deadline_ms := SaturatingAdd now_ms (sb_rto_ms b)\<rparr>)"

definition RetransmitExpired :: "u64 \<Rightarrow> 'c TcpSendBuffer \<Rightarrow> bool" where
  "RetransmitExpired now_ms b \<longleftrightarrow>
     \<not> sb_closed b \<and> sb_rto_running b \<and> sb_rto_deadline_ms b \<noteq> 0 \<and> now_ms \<ge> sb_rto_deadline_ms b"

definition ArmPersistTimer :: "u64 \<Rightarrow> 'c TcpSendBuffer \<Rightarrow> 'c TcpSendBuffer" where
  "ArmPersistTimer now_ms b =
     (if sb_closed b \<or> \<not> has_work b \<or> sb_persist_deadline_ms b \<noteq> 0 then b
      else
        let b = b\<lparr>sb_persist_current_ms := sb_persist_base_ms b\<rparr> in
        b\<lparr>sb_persist_deadline_ms := SaturatingAdd now_ms (sb_persist_current_ms b)\<rparr>)"

definition PersistExpired :: "u64 \<Rightarrow> 'c TcpSendBuffer \<Rightarrow> bool" where
  "PersistExpired now_ms b \<longleftrightarrow> \<not> sb_closed b \<and> sb_persist_deadline_ms b \<noteq> 0 \<and> now_ms \<ge> sb_persist_deadline_ms b"

definition ScheduleNextPersist :: "u64 \<Rightarrow> 'c TcpSendBuffer \<Rightarrow> 'c TcpSendBuffer" where
  "ScheduleNextPersist now_ms b =
     (let b = (if sb_persist_current_ms b \<ge> sb_persist_max_ms b \<or> sb_persist_current_ms b > sb_persist_max_ms b div 2
               then b\<lparr>sb_persist_current_ms := sb_persist_max_ms b\<rparr>
               else b\<lparr>sb_persist_current_ms := sb_persist_current_ms b * 2\<rparr>) in
      b\<lparr>sb_persist_deadline_ms := SaturatingAdd now_ms (sb_persist_current_ms b)\<rparr>)"

definition CancelPersist :: "'c TcpSendBuffer \<Rightarrow> 'c TcpSendBuffer" where
  "CancelPersist b =
     b\<lparr>sb_persist_deadline_ms := 0, sb_persist_current_ms := sb_persist_base_ms b, sb_persist_probe_count := 0\<rparr>"

definition CancelTimers :: "'c TcpSendBuffer \<Rightarrow> 'c TcpSendBuffer" where
  "CancelTimers b =
     b\<lparr>sb_rto_running := False, sb_rto_deadline_ms := 0, sb_persist_deadline_ms := 0, sb_next_send_time_ms := 0\<rparr>"

definition Send_Close :: "'c controller \<Rightarrow> 'c TcpSendBuffer \<Rightarrow> 'c TcpSendBuffer" where
  "Send_Close C b =
     (let b = CancelTimers (b\<lparr>sb_closed := True\<rparr>) in
      b\<lparr>sb_send_queue := [], sb_retransmit_queue := [], sb_persist_probe := None, sb_retransmit_bytes := 0,
        sb_in_flight_bytes := 0, sb_in_flight_sequence := 0, sb_sacked_bytes := 0, sb_sacked_sequence := 0,
        sb_fast_retransmit_pending := False, sb_pending_kind := PK_None, sb_next_send_time_ms := 0,
        sb_ecn_cwr_queued := False, sb_pending_set_cwr := False, sb_sampler := Sampler_Reset (sb_sampler b),
        sb_controller := cc_reset C (sb_controller b)\<rparr>)"

definition Send_UpdateMss :: "'c controller \<Rightarrow> u16 \<Rightarrow> 'c TcpSendBuffer \<Rightarrow> 'c TcpSendBuffer" where
  "Send_UpdateMss C mss b =
     (if mss = 0 \<or> mss = sb_mss b then b
      else
        let pristine = (sb_snd_una b = sb_snd_max b \<and> sb_retransmit_queue b = [] \<and> sb_persist_probe b = None) in
        b\<lparr>sb_mss := mss, sb_controller := cc_update_mss C mss pristine (sb_controller b)\<rparr>)"

definition AllAcked :: "'c TcpSendBuffer \<Rightarrow> bool" where
  "AllAcked b \<longleftrightarrow> sb_send_queue b = [] \<and> sb_retransmit_queue b = [] \<and> sb_persist_probe b = None \<and>
     sb_snd_una b = sb_snd_max b \<and> (\<not> sb_fin_requested b \<or> sb_fin_acked b)"

definition ResetPending :: "'c TcpSendBuffer \<Rightarrow> 'c TcpSendBuffer" where
  "ResetPending b = b\<lparr>sb_pending_kind := PK_None, sb_pending_is_fin := False, sb_pending_set_cwr := False,
     sb_pending_seq := 0, sb_pending_len := 0\<rparr>"

section \<open>Choosing the next segment\<close>

definition UsableWindow :: "'c controller \<Rightarrow> u32 \<Rightarrow> 'c TcpSendBuffer \<Rightarrow> nat" where
  "UsableWindow C peer_window b =
     (let allowed = min (unat peer_window) (unat (cc_cwnd C (sb_controller b)));
          pipe = (if sb_in_flight_sequence b > unat (sb_sacked_sequence b)
                  then sb_in_flight_sequence b - unat (sb_sacked_sequence b) else 0) in
      if allowed > pipe then allowed - pipe else 0)"

definition CanSendNew :: "'c controller \<Rightarrow> u32 \<Rightarrow> 'c TcpSendBuffer \<Rightarrow> bool" where
  "CanSendNew C peer_window b \<longleftrightarrow>
     \<not> (peer_window = 0 \<or> UsableWindow C peer_window b = 0 \<or> sb_retransmit_bytes b \<ge> sb_retransmit_limit b) \<and>
     (sb_send_queue b \<noteq> [] \<or> (sb_fin_requested b \<and> \<not> sb_fin_sent b))"

text \<open>The persist probe, as a zero-window probe or promoted into the retransmission queue.\<close>

definition resend_probe ::
  "bool \<Rightarrow> PendingKind \<Rightarrow> SendRecord \<Rightarrow> TcpSendNextResult \<Rightarrow> 'c TcpSendBuffer \<Rightarrow> TcpSendNextResult \<times> 'c TcpSendBuffer" where
  "resend_probe zero_window kind probe r b =
     (let r = r\<lparr>sn_has_segment := True, sn_is_retransmission := True, sn_is_zero_window_probe := zero_window,
                sn_is_fin := unat (sr_logical_length probe) > length (sr_data probe),
                sn_payload := sr_data probe, sn_sequence := sr_seq probe\<rparr> in
      (r, b\<lparr>sb_pending_kind := kind, sb_pending_seq := sr_seq probe,
            sb_pending_len := unat (sr_logical_length probe), sb_pending_is_fin := sn_is_fin r\<rparr>))"

text \<open>The zero-window branch once the persist timer has fired and probes are left.\<close>

definition persist_segment ::
  "TcpSendNextResult \<Rightarrow> 'c TcpSendBuffer \<Rightarrow> TcpSendNextResult \<times> 'c TcpSendBuffer" where
  "persist_segment r b =
     (case sb_persist_probe b of
        Some probe \<Rightarrow> resend_probe True PK_PersistRetry probe r b
      | None \<Rightarrow>
          case sb_retransmit_queue b of
            rec # _ \<Rightarrow>
              let payload_length = (if sr_data rec = [] then 0 else 1 :: nat);
                  fin = (payload_length = 0 \<and> unat (sr_logical_length rec) > length (sr_data rec)) in
              (r\<lparr>sn_has_segment := True, sn_is_retransmission := True, sn_is_zero_window_probe := True,
                 sn_is_fin := fin, sn_payload := take payload_length (sr_data rec), sn_sequence := sr_seq rec\<rparr>,
               b\<lparr>sb_pending_kind := PK_PersistExisting, sb_pending_seq := sr_seq rec,
                 sb_pending_len := payload_length + (if fin then 1 else 0), sb_pending_is_fin := fin\<rparr>)
          | [] \<Rightarrow>
              if sb_retransmit_bytes b \<ge> sb_retransmit_limit b then (r, b)
              else if sb_send_queue b \<noteq> [] then
                (r\<lparr>sn_has_segment := True, sn_is_zero_window_probe := True, sn_payload := take 1 (sb_send_queue b),
                   sn_sequence := sb_snd_nxt b\<rparr>,
                 b\<lparr>sb_pending_kind := PK_PersistNew, sb_pending_seq := sb_snd_nxt b, sb_pending_len := 1\<rparr>)
              else if sb_fin_requested b \<and> \<not> sb_fin_sent b then
                (r\<lparr>sn_has_segment := True, sn_is_zero_window_probe := True, sn_is_fin := True,
                   sn_sequence := sb_snd_nxt b\<rparr>,
                 b\<lparr>sb_pending_kind := PK_PersistNew, sb_pending_is_fin := True, sb_pending_seq := sb_snd_nxt b,
                   sb_pending_len := 1\<rparr>)
              else (r, b))"

definition next_zero_window ::
  "'c controller \<Rightarrow> u64 \<Rightarrow> TcpSendNextResult \<Rightarrow> 'c TcpSendBuffer \<Rightarrow> TcpSendNextResult \<times> 'c TcpSendBuffer" where
  "next_zero_window C now_ms r b =
     (let b = ArmPersistTimer now_ms (b\<lparr>sb_rto_running := False, sb_rto_deadline_ms := 0\<rparr>) in
      if \<not> PersistExpired now_ms b then (r, b)
      else if sb_persist_probe_count b \<ge> sb_max_persist_probes b then (r, Send_Close C b)
      else persist_segment r b)"

definition prepare_retransmission ::
  "u32 \<Rightarrow> SendRecord \<Rightarrow> PendingKind \<Rightarrow> TcpSendNextResult \<Rightarrow> 'c TcpSendBuffer \<Rightarrow> TcpSendNextResult \<times> 'c TcpSendBuffer" where
  "prepare_retransmission peer_window rec kind r b =
     (let payload_length = min (min (length (sr_data rec)) (unat (sb_mss b))) (unat peer_window);
          include_fin = (unat (sr_logical_length rec) > length (sr_data rec) \<and> payload_length = length (sr_data rec) \<and>
                         payload_length < unat peer_window) in
      if payload_length = 0 \<and> \<not> include_fin then (r, b)
      else
        (r\<lparr>sn_has_segment := True, sn_is_retransmission := True, sn_is_fin := include_fin,
           sn_payload := take payload_length (sr_data rec), sn_sequence := sr_seq rec\<rparr>,
         b\<lparr>sb_pending_kind := kind, sb_pending_seq := sr_seq rec,
           sb_pending_len := payload_length + (if include_fin then 1 else 0), sb_pending_is_fin := include_fin\<rparr>))"

definition new_segment ::
  "'c controller \<Rightarrow> u32 \<Rightarrow> TcpSendNextResult \<Rightarrow> 'c TcpSendBuffer \<Rightarrow> TcpSendNextResult \<times> 'c TcpSendBuffer" where
  "new_segment C peer_window r b =
     (let usable = UsableWindow C peer_window b;
          available = sb_retransmit_limit b - sb_retransmit_bytes b;
          payload_length = min (min (min (length (sb_send_queue b)) (unat (sb_mss b))) usable) available;
          fin_due = (sb_fin_requested b \<and> \<not> sb_fin_sent b);
          include_fin = (if payload_length \<noteq> 0
                         then fin_due \<and> payload_length = length (sb_send_queue b) \<and> payload_length < usable \<and>
                              payload_length < available
                         else fin_due \<and> usable \<noteq> 0 \<and> available \<noteq> 0) in
      if payload_length = 0 \<and> \<not> include_fin then (r, b)
      else
        (r\<lparr>sn_has_segment := True, sn_is_fin := include_fin, sn_payload := take payload_length (sb_send_queue b),
           sn_sequence := sb_snd_nxt b\<rparr>,
         b\<lparr>sb_pending_kind := PK_NewData, sb_pending_is_fin := include_fin, sb_pending_seq := sb_snd_nxt b,
           sb_pending_len := payload_length + (if include_fin then 1 else 0)\<rparr>))"

definition next_open_window ::
  "'c controller \<Rightarrow> u32 \<Rightarrow> u64 \<Rightarrow> TcpSendNextResult \<Rightarrow> 'c TcpSendBuffer \<Rightarrow> TcpSendNextResult \<times> 'c TcpSendBuffer" where
  "next_open_window C peer_window now_ms r b =
     (let b = CancelPersist b in
      case sb_persist_probe b of
        Some probe \<Rightarrow>
          if UsableWindow C peer_window b < unat (sr_logical_length probe) then (r, b)
          else resend_probe (sn_is_zero_window_probe r) PK_PersistPromote probe r b
      | None \<Rightarrow>
          let b = (if sb_retransmit_queue b \<noteq> [] \<and> \<not> sb_rto_running b then ArmRto now_ms b else b) in
          if sb_fast_retransmit_pending b \<and> sb_retransmit_queue b \<noteq> []
          then prepare_retransmission peer_window (hd (sb_retransmit_queue b)) PK_FastRetransmit r b
          else if RetransmitExpired now_ms b \<and> sb_retransmit_queue b \<noteq> []
          then prepare_retransmission peer_window (hd (sb_retransmit_queue b)) PK_RtoRetransmit r b
          else if \<not> CanSendNew C peer_window b then (r, b)
          else if sb_next_send_time_ms b \<noteq> 0 \<and> now_ms < sb_next_send_time_ms b then (r, b)
          else new_segment C peer_window r b)"

definition NextSegment ::
  "'c controller \<Rightarrow> u32 \<Rightarrow> u64 \<Rightarrow> 'c TcpSendBuffer \<Rightarrow> TcpSendNextResult \<times> 'c TcpSendBuffer" where
  "NextSegment C peer_window now_ms b =
     (if sb_closed b \<or> sb_pending_kind b \<noteq> PK_None then (TcpSendNextResult_init, b)
      else
        let b = (if \<not> sb_peer_window_valid b
                 then b\<lparr>sb_last_peer_window := peer_window, sb_peer_window_valid := True\<rparr> else b);
            b = b\<lparr>sb_pending_set_cwr := sb_ecn_cwr_queued b\<rparr>;
            r = TcpSendNextResult_init\<lparr>sn_set_cwr := sb_pending_set_cwr b\<rparr> in
        if peer_window = 0 then next_zero_window C now_ms r b else next_open_window C peer_window now_ms r b)"

section \<open>Recording what was sent\<close>

text \<open>The payload of the pending segment in the buffer handed over by the caller; \<open>None\<close> when it is not there.\<close>

definition backing :: "bytes option \<Rightarrow> nat \<Rightarrow> nat \<Rightarrow> bytes option" where
  "backing owner payload_offset payload_length =
     (if payload_length = 0 then Some []
      else case owner of
        None \<Rightarrow> None
      | Some data \<Rightarrow>
          if payload_offset > length data \<or> payload_length > length data - payload_offset then None
          else Some (take payload_length (drop payload_offset data)))"

definition pending_payload_length :: "'c TcpSendBuffer \<Rightarrow> nat" where
  "pending_payload_length b = sb_pending_len b - (if sb_pending_is_fin b then 1 else 0)"

definition pending_record :: "bytes option \<Rightarrow> bytes \<Rightarrow> u64 \<Rightarrow> 'c TcpSendBuffer \<Rightarrow> SendRecord" where
  "pending_record owner data now_ms b =
     \<lparr>sr_seq = sb_pending_seq b, sr_logical_length = SaturatingUint32 (sb_pending_len b), sr_owner = owner,
      sr_data = data, sr_sent_time_ms = now_ms, sr_rto_attempts = 0, sr_retransmitted = False, sr_sacked = False,
      sr_delivery = Sampler_OnPacketSent now_ms (sb_sampler b) PacketDeliveryState_init\<rparr>"

definition advance_sequence :: "'c TcpSendBuffer \<Rightarrow> 'c TcpSendBuffer" where
  "advance_sequence b =
     (let b = b\<lparr>sb_send_queue := drop (pending_payload_length b) (sb_send_queue b),
               sb_retransmit_bytes := sb_retransmit_bytes b + sb_pending_len b,
               sb_snd_nxt := sb_snd_nxt b + of_nat (sb_pending_len b)\<rparr>;
          b = (if SequenceAfter (sb_snd_nxt b) (sb_snd_max b) then b\<lparr>sb_snd_max := sb_snd_nxt b\<rparr> else b) in
      if sb_pending_is_fin b then b\<lparr>sb_fin_sent := True\<rparr> else b)"

text \<open>The timer, the application-limited mark and the pacing deadline after new data was sent.\<close>

definition after_store :: "'c controller \<Rightarrow> u64 \<Rightarrow> 'c TcpSendBuffer \<Rightarrow> 'c TcpSendBuffer" where
  "after_store C now_ms b =
     (let b = (if \<not> sb_rto_running b then ArmRto now_ms b else b);
          b = (if \<not> sb_pending_is_fin b \<and> sb_send_queue b = [] \<and> sb_in_flight_sequence b \<noteq> 0
               then b\<lparr>sb_sampler := MarkAppLimited (sb_sampler b)\<rparr> else b);
          pr = cc_pacing_rate C (sb_controller b) in
      if pr > 0 \<and> sb_pending_len b > 0
      then b\<lparr>sb_next_send_time_ms := SaturatingAdd now_ms ((of_nat (sb_pending_len b) * 1000) div ucast pr)\<rparr>
      else b)"

definition StoreNewRecord ::
  "'c controller \<Rightarrow> bytes option \<Rightarrow> nat \<Rightarrow> u64 \<Rightarrow> 'c TcpSendBuffer \<Rightarrow> bool \<times> 'c TcpSendBuffer" where
  "StoreNewRecord C owner payload_offset now_ms b =
     (let payload_length = pending_payload_length b in
      if payload_length > length (sb_send_queue b) \<or> sb_pending_len b > sb_retransmit_limit b - sb_retransmit_bytes b
      then (False, b)
      else
        case backing owner payload_offset payload_length of
          None \<Rightarrow> (False, b)
        | Some data \<Rightarrow>
            let rec = pending_record owner data now_ms b;
                drains_queue = (\<not> sb_pending_is_fin b \<and> payload_length = length (sb_send_queue b));
                pipe_not_full = (sb_in_flight_sequence b + sb_pending_len b < unat (cc_cwnd C (sb_controller b)));
                rec = rec\<lparr>sr_delivery := (sr_delivery rec)\<lparr>pd_app_limited := drains_queue \<and> pipe_not_full\<rparr>\<rparr>;
                b = b\<lparr>sb_retransmit_queue := sb_retransmit_queue b @ [rec]\<rparr>;
                b = advance_sequence b;
                b = b\<lparr>sb_in_flight_bytes := sb_in_flight_bytes b + payload_length,
                      sb_in_flight_sequence := sb_in_flight_sequence b + sb_pending_len b\<rparr> in
            (True, after_store C now_ms b))"

definition store_probe :: "bytes option \<Rightarrow> nat \<Rightarrow> u64 \<Rightarrow> 'c TcpSendBuffer \<Rightarrow> bool \<times> 'c TcpSendBuffer" where
  "store_probe owner payload_offset now_ms b =
     (let payload_length = pending_payload_length b in
      if payload_length > length (sb_send_queue b) \<or> sb_pending_len b > sb_retransmit_limit b - sb_retransmit_bytes b
      then (False, b)
      else
        case backing owner payload_offset payload_length of
          None \<Rightarrow> (False, b)
        | Some data \<Rightarrow>
            let probe = (pending_record owner data now_ms b)\<lparr>sr_retransmitted := True\<rparr> in
            (True, advance_sequence (b\<lparr>sb_persist_probe := Some probe\<rparr>)))"

definition promote_probe :: "u64 \<Rightarrow> 'c TcpSendBuffer \<Rightarrow> bool \<times> 'c TcpSendBuffer" where
  "promote_probe now_ms b =
     (case sb_persist_probe b of
        None \<Rightarrow> (False, b)
      | Some probe \<Rightarrow>
          let rec = probe\<lparr>sr_sent_time_ms := now_ms, sr_retransmitted := True\<rparr> in
          (True, ArmRto now_ms (b\<lparr>sb_persist_probe := None,
             sb_in_flight_bytes := sb_in_flight_bytes b + length (sr_data rec),
             sb_in_flight_sequence := sb_in_flight_sequence b + unat (sr_logical_length rec),
             sb_retransmit_queue := sb_retransmit_queue b @ [rec]\<rparr>)))"

definition rto_retransmit :: "'c controller \<Rightarrow> u64 \<Rightarrow> 'c TcpSendBuffer \<Rightarrow> bool \<times> 'c TcpSendBuffer" where
  "rto_retransmit C now_ms b =
     (case sb_retransmit_queue b of
        [] \<Rightarrow> (False, b)
      | rec # rest \<Rightarrow>
          let first_timeout = (sr_rto_attempts rec = 0);
              rec = rec\<lparr>sr_retransmitted := True, sr_sent_time_ms := now_ms, sr_rto_attempts := sr_rto_attempts rec + 1\<rparr>;
              flight = SaturatingUint32 (sb_in_flight_sequence b);
              c = (if first_timeout \<and> sb_cc_algorithm b \<in> {CA_Aimd, CA_HybridBdpAimd}
                   then cc_fast_recovery_entry C flight (sb_controller b) else sb_controller b);
              b = b\<lparr>sb_retransmit_queue := rec # rest, sb_retransmission_count := sb_retransmission_count b + 1,
                    sb_controller := cc_on_rto C c, sb_fast_retransmit_pending := False\<rparr>;
              b = ArmRto now_ms (BackoffRto b) in
          (True, if sr_rto_attempts rec \<ge> sb_max_retransmissions b then Send_Close C b else b))"

definition fast_retransmit :: "u64 \<Rightarrow> 'c TcpSendBuffer \<Rightarrow> bool \<times> 'c TcpSendBuffer" where
  "fast_retransmit now_ms b =
     (case sb_retransmit_queue b of
        [] \<Rightarrow> (False, b)
      | rec # rest \<Rightarrow>
          let rec = rec\<lparr>sr_retransmitted := True, sr_sent_time_ms := now_ms,
                        sr_delivery := (sr_delivery rec)\<lparr>pd_retransmitted := True\<rparr>\<rparr> in
          (True, ArmRto now_ms (b\<lparr>sb_retransmit_queue := rec # rest,
             sb_retransmission_count := sb_retransmission_count b + 1, sb_fast_retransmit_pending := False\<rparr>)))"

definition OnSent :: "'c controller \<Rightarrow> bytes option \<Rightarrow> nat \<Rightarrow> u64 \<Rightarrow> 'c TcpSendBuffer \<Rightarrow> 'c TcpSendBuffer" where
  "OnSent C owner payload_offset now_ms b =
     (let kind = sb_pending_kind b in
      if kind = PK_None then b
      else
        let (accepted, b) =
              (case kind of
                 PK_NewData \<Rightarrow> StoreNewRecord C owner payload_offset now_ms b
               | PK_PersistNew \<Rightarrow> store_probe owner payload_offset now_ms b
               | PK_PersistPromote \<Rightarrow> promote_probe now_ms b
               | PK_RtoRetransmit \<Rightarrow> rto_retransmit C now_ms b
               | PK_FastRetransmit \<Rightarrow> fast_retransmit now_ms b
               | PK_PersistRetry \<Rightarrow>
                   (case sb_persist_probe b of
                      None \<Rightarrow> (False, b)
                    | Some probe \<Rightarrow> (True, b\<lparr>sb_persist_probe := Some (probe\<lparr>sr_retransmitted := True\<rparr>)\<rparr>))
               | PK_PersistExisting \<Rightarrow>
                   (case sb_retransmit_queue b of
                      [] \<Rightarrow> (False, b)
                    | rec # rest \<Rightarrow> (True, b\<lparr>sb_retransmit_queue := rec\<lparr>sr_retransmitted := True\<rparr> # rest\<rparr>))
               | PK_None \<Rightarrow> (True, b));
            b = (if accepted \<and> kind \<in> {PK_PersistNew, PK_PersistRetry, PK_PersistExisting}
                 then ScheduleNextPersist now_ms (b\<lparr>sb_persist_probe_count := sb_persist_probe_count b + 1\<rparr>) else b);
            b = (if accepted \<and> sb_pending_set_cwr b then b\<lparr>sb_ecn_cwr_queued := False\<rparr> else b) in
        ResetPending b)"

section \<open>Acknowledgments\<close>

text \<open>
  The local variables of \<open>OnAck\<close> together with the members its loop assigns. A step of the loop
  acknowledges the whole front record, or a part of it.
\<close>

record AckScan =
  ak_remaining :: nat
  ak_payload :: nat
  ak_rtt_sample :: "u64 option"
  ak_covers_retransmission :: bool
  ak_partial_rto_recovery :: bool
  ak_delivery :: "PacketDeliveryState option"
  ak_retransmit_bytes :: nat
  ak_in_flight_sequence :: nat
  ak_in_flight_bytes :: nat
  ak_sacked_bytes :: nat
  ak_sacked_sequence :: u32
  ak_fin_acked :: bool

definition ack_take :: "nat \<Rightarrow> SendRecord \<Rightarrow> AckScan \<Rightarrow> AckScan" where
  "ack_take n rec a =
     (let payload_take = min n (length (sr_data rec)) in
      a\<lparr>ak_delivery := (if ak_delivery a = None \<and> n = unat (sr_logical_length rec)
                        then Some (sr_delivery rec) else ak_delivery a),
        ak_retransmit_bytes := ak_retransmit_bytes a - n, ak_in_flight_sequence := ak_in_flight_sequence a - n,
        ak_in_flight_bytes := ak_in_flight_bytes a - payload_take, ak_payload := ak_payload a + payload_take,
        ak_remaining := ak_remaining a - n,
        ak_covers_retransmission := ak_covers_retransmission a \<or> sr_retransmitted rec\<rparr>)"

definition unsack :: "nat \<Rightarrow> nat \<Rightarrow> AckScan \<Rightarrow> AckScan" where
  "unsack payload sequence a =
     a\<lparr>ak_sacked_bytes := (if ak_sacked_bytes a \<ge> payload then ak_sacked_bytes a - payload else 0),
       ak_sacked_sequence := (if unat (ak_sacked_sequence a) \<ge> sequence
                              then ak_sacked_sequence a - of_nat sequence else 0)\<rparr>"

definition ack_whole :: "u64 \<Rightarrow> SendRecord \<Rightarrow> AckScan \<Rightarrow> AckScan" where
  "ack_whole now_ms rec a =
     (let n = unat (sr_logical_length rec);
          a = ack_take n rec a;
          a = (if ak_rtt_sample a = None \<and> \<not> sr_retransmitted rec \<and> now_ms \<ge> sr_sent_time_ms rec
               then a\<lparr>ak_rtt_sample := Some (now_ms - sr_sent_time_ms rec)\<rparr> else a);
          a = (if n > length (sr_data rec) then a\<lparr>ak_fin_acked := True\<rparr> else a) in
      if sr_sacked rec then unsack (length (sr_data rec)) n a else a)"

definition ack_part :: "SendRecord \<Rightarrow> AckScan \<Rightarrow> SendRecord \<times> AckScan" where
  "ack_part rec a =
     (let n = ak_remaining a;
          payload_take = min n (length (sr_data rec));
          a = ack_take n rec a;
          data = Subslice payload_take (length (sr_data rec) - payload_take) (sr_data rec);
          a = (if sr_sacked rec then unsack payload_take n a else a) in
      (rec\<lparr>sr_seq := sr_seq rec + of_nat n, sr_logical_length := sr_logical_length rec - of_nat n, sr_data := data,
           sr_owner := (if data = [] then None else sr_owner rec), sr_sacked := False\<rparr>,
       a\<lparr>ak_partial_rto_recovery := sr_rto_attempts rec \<noteq> 0\<rparr>))"

fun ack_loop :: "u64 \<Rightarrow> SendRecord list \<Rightarrow> AckScan \<Rightarrow> SendRecord list \<times> AckScan" where
  "ack_loop now_ms [] a = ([], a)"
| "ack_loop now_ms (rec # rq) a =
     (if ak_remaining a = 0 then (rec # rq, a)
      else if ak_remaining a \<ge> unat (sr_logical_length rec) then ack_loop now_ms rq (ack_whole now_ms rec a)
      else let (rec, a) = ack_part rec a in (rec # rq, a))"

definition ack_probe :: "SendRecord option \<Rightarrow> AckScan \<Rightarrow> SendRecord option \<times> AckScan" where
  "ack_probe probe a =
     (case probe of
        None \<Rightarrow> (None, a)
      | Some rec \<Rightarrow>
          if ak_remaining a = 0 then (Some rec, a)
          else
            let n = min (ak_remaining a) (unat (sr_logical_length rec));
                payload_take = min n (length (sr_data rec));
                a = a\<lparr>ak_retransmit_bytes := ak_retransmit_bytes a - n, ak_payload := ak_payload a + payload_take,
                      ak_remaining := ak_remaining a - n\<rparr> in
            if n = unat (sr_logical_length rec)
            then (None, if n > length (sr_data rec) then a\<lparr>ak_fin_acked := True\<rparr> else a)
            else (Some (rec\<lparr>sr_seq := sr_seq rec + of_nat n, sr_logical_length := sr_logical_length rec - of_nat n,
                            sr_data := Subslice payload_take (length (sr_data rec) - payload_take) (sr_data rec)\<rparr>), a))"

definition scan_start :: "nat \<Rightarrow> 'c TcpSendBuffer \<Rightarrow> AckScan" where
  "scan_start n b = \<lparr>ak_remaining = n, ak_payload = 0, ak_rtt_sample = None, ak_covers_retransmission = False,
     ak_partial_rto_recovery = False, ak_delivery = None, ak_retransmit_bytes = sb_retransmit_bytes b,
     ak_in_flight_sequence = sb_in_flight_sequence b, ak_in_flight_bytes = sb_in_flight_bytes b,
     ak_sacked_bytes = sb_sacked_bytes b, ak_sacked_sequence = sb_sacked_sequence b, ak_fin_acked = sb_fin_acked b\<rparr>"

definition scan_store :: "AckScan \<Rightarrow> 'c TcpSendBuffer \<Rightarrow> 'c TcpSendBuffer" where
  "scan_store a b = b\<lparr>sb_retransmit_bytes := ak_retransmit_bytes a, sb_in_flight_sequence := ak_in_flight_sequence a,
     sb_in_flight_bytes := ak_in_flight_bytes a, sb_sacked_bytes := ak_sacked_bytes a,
     sb_sacked_sequence := ak_sacked_sequence a, sb_fin_acked := ak_fin_acked a\<rparr>"

text \<open>Restarting the persist timer when the peer has closed its window.\<close>

definition restart_persist :: "'c TcpSendBuffer \<Rightarrow> 'c TcpSendBuffer" where
  "restart_persist b = b\<lparr>sb_rto_running := False, sb_rto_deadline_ms := 0, sb_persist_probe_count := 0,
     sb_persist_current_ms := sb_persist_base_ms b, sb_persist_deadline_ms := 0\<rparr>"

definition duplicate_ack ::
  "'c controller \<Rightarrow> u32 \<Rightarrow> u64 \<Rightarrow> bool \<Rightarrow> 'c TcpSendBuffer \<Rightarrow> TcpSendAckResult \<times> 'c TcpSendBuffer" where
  "duplicate_ack C peer_window now_ms ack_only b =
     (let has_outstanding = (sb_retransmit_queue b \<noteq> [] \<or> sb_persist_probe b \<noteq> None);
          qualifying = (ack_only \<and> has_outstanding \<and> peer_window \<noteq> 0 \<and> sb_peer_window_valid b \<and>
                        peer_window = sb_last_peer_window b);
          in_fast_recovery = cc_in_fast_recovery C (sb_controller b);
          count = (if qualifying then sb_dup_ack_count b + 1 else 0);
          fast = (qualifying \<and> count = 3 \<and> sb_retransmit_queue b \<noteq> [] \<and> \<not> in_fast_recovery);
          c = sb_controller b;
          c = (if qualifying \<and> in_fast_recovery then cc_on_dup_ack C c else c);
          c = (if fast then cc_fast_recovery_entry C (SaturatingUint32 (sb_in_flight_sequence b)) c else c);
          b = b\<lparr>sb_dup_ack_count := count, sb_controller := c,
                sb_fast_retransmit_pending := sb_fast_retransmit_pending b \<or> fast,
                sb_last_peer_window := peer_window, sb_peer_window_valid := True\<rparr>;
          b = (if peer_window = 0 then ArmPersistTimer now_ms (restart_persist b)
               else
                 let b = CancelPersist b in
                 if sb_retransmit_queue b \<noteq> [] \<and> \<not> sb_rto_running b then ArmRto now_ms b else b) in
      (TcpSendAckResult_init\<lparr>sa_duplicate := True, sa_fast_retransmit := fast,
         sa_fully_acked := (sb_retransmit_queue b = [] \<and> sb_persist_probe b = None),
         sa_retransmit_queue_bytes := sb_in_flight_bytes b\<rparr>, b))"

text \<open>The rate sample of the ACK and the controller's reaction to it.\<close>

definition feed_controller :: "'c controller \<Rightarrow> AckScan \<Rightarrow> u64 \<Rightarrow> 'c TcpSendBuffer \<Rightarrow> 'c TcpSendBuffer" where
  "feed_controller C a now_ms b =
     (let (rs, sampler) =
            (case ak_delivery a of
               Some delivery \<Rightarrow>
                 Sampler_OnAck delivery (of_nat (ak_payload a)) now_ms (of_nat (sb_in_flight_bytes b)) (sb_sampler b)
             | None \<Rightarrow>
                 (RateSample_init\<lparr>rs_now_ms := now_ms, rs_acked_bytes := of_nat (ak_payload a),
                    rs_inflight_bytes := of_nat (sb_in_flight_bytes b)\<rparr>, sb_sampler b));
          rs = rs\<lparr>rs_delivered_ce := sb_delivered_ce b\<rparr>;
          b = b\<lparr>sb_sampler := sampler\<rparr> in
      if cc_in_fast_recovery C (sb_controller b)
      then b\<lparr>sb_controller := cc_fast_recovery_exit C (sb_controller b), sb_fast_retransmit_pending := False\<rparr>
      else b\<lparr>sb_controller := cc_on_ack C rs (sb_controller b)\<rparr>)"

definition rearm_timers :: "u32 \<Rightarrow> u64 \<Rightarrow> bool \<Rightarrow> 'c TcpSendBuffer \<Rightarrow> 'c TcpSendBuffer" where
  "rearm_timers peer_window now_ms partial b =
     (let b = (if sb_retransmit_queue b = [] then b\<lparr>sb_rto_running := False, sb_rto_deadline_ms := 0\<rparr>
               else if peer_window \<noteq> 0 then ArmRto now_ms b else b);
          b = (if partial \<and> peer_window \<noteq> 0 \<and> sb_retransmit_queue b \<noteq> []
               then b\<lparr>sb_fast_retransmit_pending := True, sb_rto_running := True, sb_rto_deadline_ms := now_ms\<rparr> else b) in
      if peer_window = 0 then
        let b = restart_persist b in if has_work b then ArmPersistTimer now_ms b else CancelPersist b
      else CancelPersist b)"

definition new_ack ::
  "'c controller \<Rightarrow> u32 \<Rightarrow> u32 \<Rightarrow> u64 \<Rightarrow> 'c TcpSendBuffer \<Rightarrow> TcpSendAckResult \<times> 'c TcpSendBuffer" where
  "new_ack C acknowledgment peer_window now_ms b =
     (let (rq, a) = ack_loop now_ms (sb_retransmit_queue b) (scan_start (unat (acknowledgment - sb_snd_una b)) b);
          (probe, a) = ack_probe (sb_persist_probe b) a;
          b = scan_store a (b\<lparr>sb_retransmit_queue := rq, sb_persist_probe := probe\<rparr>);
          b = b\<lparr>sb_snd_una := acknowledgment, sb_dup_ack_count := 0, sb_last_peer_window := peer_window,
                sb_peer_window_valid := True\<rparr>;
          b = (case ak_rtt_sample a of
                 Some rtt \<Rightarrow> if \<not> ak_covers_retransmission a then RecomputeRto rtt b else b
               | None \<Rightarrow> b);
          b = feed_controller C a now_ms b;
          b = rearm_timers peer_window now_ms (ak_partial_rto_recovery a) b in
      (TcpSendAckResult_init\<lparr>sa_newly_acked := ak_payload a,
         sa_fully_acked := (sb_retransmit_queue b = [] \<and> sb_persist_probe b = None),
         sa_retransmit_queue_bytes := sb_in_flight_bytes b\<rparr>, b))"

definition Send_OnAck ::
  "'c controller \<Rightarrow> u32 \<Rightarrow> u32 \<Rightarrow> u64 \<Rightarrow> bool \<Rightarrow> bool \<Rightarrow> 'c TcpSendBuffer \<Rightarrow> TcpSendAckResult \<times> 'c TcpSendBuffer" where
  "Send_OnAck C acknowledgment peer_window now_ms ack_only ece b =
     (if SequenceAfter acknowledgment (sb_snd_max b) then
        (TcpSendAckResult_init\<lparr>sa_unacceptable := True, sa_retransmit_queue_bytes := sb_in_flight_bytes b\<rparr>, b)
      else if SequenceBefore acknowledgment (sb_snd_una b) then
        (TcpSendAckResult_init\<lparr>sa_retransmit_queue_bytes := sb_in_flight_bytes b\<rparr>, b)
      else
        let b = (if ece \<and> \<not> sb_ecn_cwr_queued b
                 then b\<lparr>sb_ecn_cwr_queued := True, sb_delivered_ce := sb_delivered_ce b + 1,
                        sb_controller := cc_on_ecn_ce C (sb_controller b)\<rparr> else b) in
        if acknowledgment = sb_snd_una b then duplicate_ack C peer_window now_ms ack_only b
        else new_ack C acknowledgment peer_window now_ms b)"

text \<open>Selective acknowledgments.\<close>

definition sack_covers :: "SendRecord \<Rightarrow> TcpSackBlock \<Rightarrow> bool" where
  "sack_covers rec block \<longleftrightarrow> sb_left_edge block \<noteq> sb_right_edge block \<and>
     \<not> SequenceBefore (sr_seq rec) (sb_left_edge block) \<and>
     \<not> SequenceAfter (sr_seq rec + sr_logical_length rec) (sb_right_edge block)"

fun sack_records :: "TcpSackBlockList \<Rightarrow> SendRecord list \<Rightarrow> SendRecord list \<times> nat \<times> u32 \<times> nat" where
  "sack_records blocks [] = ([], 0, 0, 0)"
| "sack_records blocks (rec # rq) =
     (let (rq, bytes, sequence, count) = sack_records blocks rq in
      if sr_sacked rec then (rec # rq, bytes, sequence, count + 1)
      else if list_ex (sack_covers rec) blocks
      then (rec\<lparr>sr_sacked := True\<rparr> # rq, bytes + length (sr_data rec), sequence + sr_logical_length rec, count + 1)
      else (rec # rq, bytes, sequence, count))"

definition OnSack :: "'c controller \<Rightarrow> TcpSackBlockList \<Rightarrow> 'c TcpSendBuffer \<Rightarrow> nat \<times> 'c TcpSendBuffer" where
  "OnSack C blocks b =
     (if blocks = [] \<or> sb_retransmit_queue b = [] \<or> sb_closed b then (0, b)
      else
        let (rq, newly_sacked, sequence, count) = sack_records blocks (sb_retransmit_queue b);
            b = b\<lparr>sb_retransmit_queue := rq, sb_sacked_bytes := sb_sacked_bytes b + newly_sacked,
                  sb_sacked_sequence := sb_sacked_sequence b + sequence\<rparr> in
        (newly_sacked,
         if count \<ge> 3 \<and> \<not> cc_in_fast_recovery C (sb_controller b) \<and> sb_retransmit_queue b \<noteq> []
         then b\<lparr>sb_controller := cc_fast_recovery_entry C (SaturatingUint32 (sb_in_flight_sequence b)) (sb_controller b),
                sb_fast_retransmit_pending := True\<rparr>
         else b))"

end
