(* ===== verification/TcpSendCorrect.thy ===== *)
theory TcpSendCorrect
  imports TcpSend
begin

text \<open>
  The send buffer is correct. The first part is the arithmetic of a chain of pieces (sequence number, length,
  bytes) and of what an acknowledgment leaves of it. Then come the view of the buffer that matters for
  correctness, the effect of every operation on it and the invariant. The last part relates the buffer to
  the stream the application wrote: every segment carries the bytes of its sequence numbers.
\<close>

section \<open>Chains of pieces\<close>

type_synonym piece = "u32 \<times> u32 \<times> bytes"

fun chain :: "u32 \<Rightarrow> piece list \<Rightarrow> u32 \<Rightarrow> bool" where
  "chain s [] e \<longleftrightarrow> s = e"
| "chain s ((q, n, d) # ps) e \<longleftrightarrow> q = s \<and> chain (s + n) ps e"

text \<open>Every piece is its bytes, except that the last one may end with the FIN.\<close>

fun pieces_ok :: "bool \<Rightarrow> piece list \<Rightarrow> bool" where
  "pieces_ok fin [] \<longleftrightarrow> \<not> fin"
| "pieces_ok fin ((q, n, d) # ps) \<longleftrightarrow>
     (if fin \<and> ps = [] then unat n = length d + 1 else unat n = length d \<and> d \<noteq> [] \<and> pieces_ok fin ps)"

fun units :: "piece list \<Rightarrow> nat" where
  "units [] = 0"
| "units ((q, n, d) # ps) = unat n + units ps"

fun bytes_of :: "piece list \<Rightarrow> bytes" where
  "bytes_of [] = []"
| "bytes_of ((q, n, d) # ps) = d @ bytes_of ps"

text \<open>What an acknowledgment of \<open>k\<close> sequence numbers leaves.\<close>

fun adv :: "nat \<Rightarrow> piece list \<Rightarrow> piece list" where
  "adv k [] = []"
| "adv k ((q, n, d) # ps) =
     (if k = 0 then (q, n, d) # ps
      else if k \<ge> unat n then adv (k - unat n) ps
      else (q + of_nat k, n - of_nat k, drop k d) # ps)"

lemma chain_append: "chain s (ps @ qs) e \<longleftrightarrow> chain s ps (s + of_nat (units ps)) \<and> chain (s + of_nat (units ps)) qs e"
  by (induction ps arbitrary: s) (auto simp: ac_simps)

lemma chain_end: "chain s ps e \<Longrightarrow> e = s + of_nat (units ps)"
  by (induction s ps e rule: chain.induct) (auto simp: ac_simps)

lemma total_append [simp]: "units (ps @ qs) = units ps + units qs"
  by (induction ps rule: units.induct) auto

lemma bytes_of_append [simp]: "bytes_of (ps @ qs) = bytes_of ps @ bytes_of qs"
  by (induction ps rule: bytes_of.induct) auto

lemma pieces_ok_append:
  "pieces_ok f (ps @ qs) \<longleftrightarrow> (if qs = [] then pieces_ok f ps else pieces_ok False ps \<and> pieces_ok f qs)"
  by (induction f ps rule: pieces_ok.induct) auto

lemma pieces_total: "pieces_ok f ps \<Longrightarrow> units ps = length (bytes_of ps) + (if f then 1 else 0)"
  by (induction f ps rule: pieces_ok.induct) (auto split: if_splits)

lemma adv_0 [simp]: "adv 0 ps = ps"
  by (cases ps) auto

lemma adv_append: "pieces_ok f ps \<Longrightarrow> adv k ps @ adv (k - units ps) qs = adv k (ps @ qs)"
  by (induction k ps arbitrary: f rule: adv.induct) (auto split: if_splits)

lemma unat_part:
  assumes "k < unat (n :: u32)"
  shows "unat (n - of_nat k) = unat n - k"
proof -
  have "unat (of_nat k :: u32) = k" using assms unsigned_less [where 'a = nat, of n] by (simp add: unsigned_of_nat take_bit_nat_eq_self)
  then show ?thesis using assms by (simp add: unat_sub word_le_nat_alt)
qed

lemma adv_chain:
  assumes "chain s ps e" "k \<le> units ps"
  shows "chain (s + of_nat k) (adv k ps) e"
  using assms
proof (induction k ps arbitrary: s rule: adv.induct)
  case (2 k q n d ps)
  show ?case
  proof (cases "k \<ge> unat n")
    case True
    have "s + n + of_nat (k - unat n) = s + of_nat k" using True by (simp add: of_nat_diff)
    moreover have "chain (s + n) ps e" "k - unat n \<le> units ps" using 2(2,3) by auto
    ultimately show ?thesis using 2(1) [of "s + n"] 2(2) True by (cases "k = 0") auto
  next
    case False
    with 2 show ?thesis by (auto simp: ac_simps)
  qed
qed auto

lemma adv_ok:
  "pieces_ok f ps \<Longrightarrow> k \<le> units ps \<Longrightarrow> pieces_ok (f \<and> k < units ps) (adv k ps)"
proof (induction k ps rule: adv.induct)
  case (2 k q n d ps)
  show ?case
  proof (cases "k \<ge> unat n \<and> k \<noteq> 0")
    case True
    moreover have "k - unat n < units ps \<longleftrightarrow> k < unat n + units ps" using True by auto
    ultimately show ?thesis using 2 by (cases "f \<and> ps = []") (auto split: if_splits)
  next
    case False
    with 2 show ?thesis by (auto simp: unat_part split: if_splits)
  qed
qed auto

lemma adv_total: "k \<le> units ps \<Longrightarrow> units (adv k ps) = units ps - k"
  by (induction k ps rule: adv.induct) (auto simp: unat_part)

lemma adv_bytes: "pieces_ok f ps \<Longrightarrow> k \<le> units ps \<Longrightarrow> bytes_of (adv k ps) = drop k (bytes_of ps)"
  by (induction k ps rule: adv.induct) (auto split: if_splits)

lemma adv_all: "k \<ge> units ps \<Longrightarrow> pieces_ok f ps \<Longrightarrow> adv k ps = []"
  by (induction k ps arbitrary: f rule: adv.induct) (auto simp: neq_Nil_conv split: if_splits)

section \<open>The acknowledgment loop\<close>

definition piece_of :: "SendRecord \<Rightarrow> piece" where
  "piece_of rec = (sr_seq rec, sr_logical_length rec, sr_data rec)"

lemma piece_simps [simp]:
  "pieces_ok f (piece_of rec # ps) \<longleftrightarrow>
     (if f \<and> ps = [] then unat (sr_logical_length rec) = length (sr_data rec) + 1
      else unat (sr_logical_length rec) = length (sr_data rec) \<and> sr_data rec \<noteq> [] \<and> pieces_ok f ps)"
  "units (piece_of rec # ps) = unat (sr_logical_length rec) + units ps"
  "bytes_of (piece_of rec # ps) = sr_data rec @ bytes_of ps"
  "chain s (piece_of rec # ps) e \<longleftrightarrow> sr_seq rec = s \<and> chain (s + sr_logical_length rec) ps e"
  "adv k (piece_of rec # ps) =
     (if k = 0 then piece_of rec # ps
      else if k \<ge> unat (sr_logical_length rec) then adv (k - unat (sr_logical_length rec)) ps
      else (sr_seq rec + of_nat k, sr_logical_length rec - of_nat k, drop k (sr_data rec)) # ps)"
  by (simp_all add: piece_of_def)

lemma ack_whole_fields:
  assumes "n = unat (sr_logical_length rec)"
  shows "ak_remaining (ack_whole now rec a) = ak_remaining a - n"
    "ak_payload (ack_whole now rec a) = ak_payload a + min n (length (sr_data rec))"
    "ak_retransmit_bytes (ack_whole now rec a) = ak_retransmit_bytes a - n"
    "ak_in_flight_sequence (ack_whole now rec a) = ak_in_flight_sequence a - n"
    "ak_in_flight_bytes (ack_whole now rec a) = ak_in_flight_bytes a - min n (length (sr_data rec))"
    "ak_fin_acked (ack_whole now rec a) \<longleftrightarrow> ak_fin_acked a \<or> n > length (sr_data rec)"
  by (simp_all add: ack_whole_def ack_take_def unsack_def Let_def assms)

lemma Subslice_tail: "Subslice (min k (length d)) (length d - min k (length d)) d = drop k d"
  by (simp add: Subslice_def min_def)

lemma unsack_fields [simp]:
  "ak_remaining (unsack p n a) = ak_remaining a" "ak_payload (unsack p n a) = ak_payload a"
  "ak_retransmit_bytes (unsack p n a) = ak_retransmit_bytes a"
  "ak_in_flight_sequence (unsack p n a) = ak_in_flight_sequence a"
  "ak_in_flight_bytes (unsack p n a) = ak_in_flight_bytes a" "ak_fin_acked (unsack p n a) = ak_fin_acked a"
  by (simp_all add: unsack_def)

lemma ack_part_fields:
  fixes a
  defines "k \<equiv> ak_remaining a"
  shows "piece_of (fst (ack_part rec a)) = (sr_seq rec + of_nat k, sr_logical_length rec - of_nat k, drop k (sr_data rec))"
    "ak_remaining (snd (ack_part rec a)) = 0"
    "ak_payload (snd (ack_part rec a)) = ak_payload a + min k (length (sr_data rec))"
    "ak_retransmit_bytes (snd (ack_part rec a)) = ak_retransmit_bytes a - k"
    "ak_in_flight_sequence (snd (ack_part rec a)) = ak_in_flight_sequence a - k"
    "ak_in_flight_bytes (snd (ack_part rec a)) = ak_in_flight_bytes a - min k (length (sr_data rec))"
    "ak_fin_acked (snd (ack_part rec a)) = ak_fin_acked a"
  by (simp_all add: ack_part_def ack_take_def Let_def piece_of_def Subslice_tail k_def)

lemma ack_loop_fields:
  assumes "pieces_ok f (map piece_of rq)" "ack_loop now rq a = (rq', a')"
  defines "t \<equiv> units (map piece_of rq)" and "l \<equiv> length (bytes_of (map piece_of rq))"
  shows "map piece_of rq' = adv (ak_remaining a) (map piece_of rq) \<and> ak_remaining a' = ak_remaining a - t \<and>
    ak_payload a' = ak_payload a + min (ak_remaining a) l \<and>
    ak_retransmit_bytes a' = ak_retransmit_bytes a - min (ak_remaining a) t \<and>
    ak_in_flight_sequence a' = ak_in_flight_sequence a - min (ak_remaining a) t \<and>
    ak_in_flight_bytes a' = ak_in_flight_bytes a - min (ak_remaining a) l \<and>
    (ak_fin_acked a' \<longleftrightarrow> ak_fin_acked a \<or> f \<and> ak_remaining a \<ge> t)"
  using assms(1,2) unfolding t_def l_def
proof (induction now rq a arbitrary: rq' a' rule: ack_loop.induct)
  case (1 now a)
  then show ?case by auto
next
  case (2 now rec rq a)
  let ?n = "unat (sr_logical_length rec)" and ?d = "sr_data rec"
  consider "ak_remaining a = 0" | "ak_remaining a \<noteq> 0" "ak_remaining a \<ge> ?n" | "ak_remaining a \<noteq> 0" "ak_remaining a < ?n"
    by linarith
  then show ?case
  proof cases
    case 1
    with 2 show ?thesis by (cases "f \<and> rq = []") auto
  next
    case whole: 2
    show ?thesis
    proof (cases "f \<and> rq = []")
      case True
      then have "ack_whole now rec a = a'" "rq' = []" "?n = length ?d + 1"
        using whole 2(2,3) by simp_all
      with True whole show ?thesis by (auto simp: ack_whole_fields [OF refl])
    next
      case False
      then have ok: "?n = length ?d" "pieces_ok f (map piece_of rq)" using 2(2) by auto
      have "ack_loop now rq (ack_whole now rec a) = (rq', a')" using whole 2(3) by simp
      note ih = 2(1) [OF whole(1) whole(2) ok(2) this]
      note w = ack_whole_fields [OF refl, where rec = rec and a = a and now = now, unfolded ok(1)]
      have m: "min (ak_remaining a) (length ?d + x) = length ?d + min (ak_remaining a - length ?d) x" for x
        using whole(2) ok(1) by simp
      have e: "ak_remaining a - length ?d \<ge> x \<longleftrightarrow> ak_remaining a \<ge> length ?d + x" for x
        using whole(2) ok(1) by arith
      show ?thesis using ih whole unfolding w by (simp add: ok(1) m e)
    qed
  next
    case 3
    then have r: "rq' = fst (ack_part rec a) # rq" "a' = snd (ack_part rec a)"
      using 2(3) by (auto simp: split_beta)
    show ?thesis using 3 2(2) by (cases "f \<and> rq = []") (auto simp: r ack_part_fields)
  qed
qed

definition opt_list :: "'a option \<Rightarrow> 'a list" where
  "opt_list x = (case x of None \<Rightarrow> [] | Some y \<Rightarrow> [y])"

lemma opt_list_simps [simp]: "opt_list None = []" "opt_list (Some y) = [y]" "opt_list x = [] \<longleftrightarrow> x = None"
  by (auto simp: opt_list_def split: option.split)

lemma ack_probe_fields:
  assumes "pieces_ok f (map piece_of (opt_list probe))" "ack_probe probe a = (probe', a')"
  defines "ps \<equiv> map piece_of (opt_list probe)"
  shows "map piece_of (opt_list probe') = adv (ak_remaining a) ps \<and>
    ak_payload a' = ak_payload a + min (ak_remaining a) (length (bytes_of ps)) \<and>
    ak_retransmit_bytes a' = ak_retransmit_bytes a - min (ak_remaining a) (units ps) \<and>
    ak_in_flight_sequence a' = ak_in_flight_sequence a \<and> ak_in_flight_bytes a' = ak_in_flight_bytes a \<and>
    (ak_fin_acked a' \<longleftrightarrow> ak_fin_acked a \<or> f \<and> ak_remaining a \<ge> units ps)"
proof (cases probe)
  case None
  then show ?thesis using assms by (simp add: ack_probe_def)
next
  case (Some rec)
  let ?k = "ak_remaining a" and ?n = "unat (sr_logical_length rec)"
  have ok: "?n = length (sr_data rec) + (if f then 1 else 0)" "?n \<noteq> 0"
    using assms(1) Some by (auto split: if_splits)
  consider "?k = 0" | "?k \<noteq> 0" "?k \<ge> ?n" | "?k \<noteq> 0" "?k < ?n" by linarith
  then show ?thesis
  proof cases
    case 1
    then show ?thesis using assms(2) Some ok by (auto simp: ack_probe_def ps_def)
  next
    case 2
    then have "min ?k ?n = ?n" by simp
    then show ?thesis using 2 assms(2) Some ok
      by (cases f; cases "?k = ?n") (auto simp: ack_probe_def ps_def Let_def)
  next
    case 3
    then have m: "min ?k ?n = ?k" by simp
    then show ?thesis using 3 assms(2) Some ok
      by (auto simp: ack_probe_def ps_def Let_def piece_of_def Subslice_tail split: if_splits)
  qed
qed

section \<open>The view of the buffer\<close>

record SendCore =
  co_queue :: bytes
  co_rq :: "piece list"
  co_probe :: "piece list"
  co_rbytes :: nat
  co_ibytes :: nat
  co_iseq :: nat
  co_una :: u32
  co_nxt :: u32
  co_max :: u32
  co_freq :: bool
  co_fsent :: bool
  co_facked :: bool
  co_closed :: bool
  co_qlimit :: nat
  co_limit :: nat
  co_mss :: u16

definition core :: "'c TcpSendBuffer \<Rightarrow> SendCore" where
  "core b = \<lparr>co_queue = sb_send_queue b, co_rq = map piece_of (sb_retransmit_queue b),
     co_probe = map piece_of (opt_list (sb_persist_probe b)), co_rbytes = sb_retransmit_bytes b,
     co_ibytes = sb_in_flight_bytes b, co_iseq = sb_in_flight_sequence b, co_una = sb_snd_una b,
     co_nxt = sb_snd_nxt b, co_max = sb_snd_max b, co_freq = sb_fin_requested b, co_fsent = sb_fin_sent b,
     co_facked = sb_fin_acked b, co_closed = sb_closed b, co_qlimit = sb_send_queue_limit b,
     co_limit = sb_retransmit_limit b, co_mss = sb_mss b\<rparr>"

definition close_core :: "SendCore \<Rightarrow> SendCore" where
  "close_core c = c\<lparr>co_queue := [], co_rq := [], co_probe := [], co_rbytes := 0, co_ibytes := 0, co_iseq := 0,
     co_closed := True\<rparr>"

text \<open>The segment that waits for \<open>OnSent\<close>.\<close>

definition pend :: "'c TcpSendBuffer \<Rightarrow> PendingKind \<times> bool \<times> u32 \<times> nat" where
  "pend b = (sb_pending_kind b, sb_pending_is_fin b, sb_pending_seq b, sb_pending_len b)"

lemma core_frame [simp]:
  "core (RecomputeRto rtt b) = core b" "core (BackoffRto b) = core b" "core (ArmRto now b) = core b"
  "core (ArmPersistTimer now b) = core b" "core (ScheduleNextPersist now b) = core b"
  "core (CancelPersist b) = core b" "core (CancelTimers b) = core b" "core (ResetPending b) = core b"
  "core (restart_persist b) = core b"
  "core (feed_controller C a now b) = core b" "core (rearm_timers w now p b) = core b"
  by (simp_all add: core_def RecomputeRto_def BackoffRto_def ArmRto_def ArmPersistTimer_def ScheduleNextPersist_def
      CancelPersist_def CancelTimers_def ResetPending_def restart_persist_def feed_controller_def
      rearm_timers_def Let_def split: option.split prod.split)

lemma pend_frame [simp]:
  "pend (RecomputeRto rtt b) = pend b" "pend (ArmRto now b) = pend b"
  "pend (ArmPersistTimer now b) = pend b" "pend (ScheduleNextPersist now b) = pend b"
  "pend (CancelPersist b) = pend b" "pend (CancelTimers b) = pend b"
  "pend (restart_persist b) = pend b" "pend (Send_UpdateMss C mss b) = pend b"
  "pend (feed_controller C a now b) = pend b" "pend (rearm_timers w now p b) = pend b"
  by (simp_all add: pend_def RecomputeRto_def ArmRto_def ArmPersistTimer_def ScheduleNextPersist_def
      CancelPersist_def CancelTimers_def restart_persist_def Send_UpdateMss_def feed_controller_def
      rearm_timers_def Let_def split: option.split prod.split)

lemma core_Close [simp]: "core (Send_Close C b) = close_core (core b)"
  by (simp add: core_def close_core_def Send_Close_def CancelTimers_def Let_def)

section \<open>Comparison of sequence numbers\<close>

lemma sint_u32:
  "sint (w :: u32) < 0 \<longleftrightarrow> unat w \<ge> 2 ^ 31" "sint w > 0 \<longleftrightarrow> 0 < unat w \<and> unat w < 2 ^ 31"
proof -
  obtain n where n: "uint w = int n" "unat w = n" "n < 2 ^ 32"
    using unsigned_less [where 'a = nat, of w] that [of "unat w"] by simp
  have wrap: "(int n + 2147483648) mod 4294967296 = int n - 2147483648" if "\<not> n < 2147483648"
    using n(3) that mod_add_self2 [of "int n - 2147483648" 4294967296] by (simp add: add.commute)
  have "sint w = (if n < 2 ^ 31 then int n else int n - 2 ^ 32)"
    unfolding sint_uint signed_take_bit_eq_take_bit_shift n(1) using n(3)
    by (auto simp: take_bit_eq_mod wrap)
  then show "sint w < 0 \<longleftrightarrow> unat w \<ge> 2 ^ 31" "sint w > 0 \<longleftrightarrow> 0 < unat w \<and> unat w < 2 ^ 31" using n by auto
qed

lemma unat_of_nat_u32: "n < 2 ^ 32 \<Longrightarrow> unat (of_nat n :: u32) = n"
  by (simp add: unsigned_of_nat take_bit_nat_eq_self)

lemma SequenceAfter_advance: "0 < n \<Longrightarrow> n < 2 ^ 31 \<Longrightarrow> SequenceAfter (s + of_nat n) s"
  by (simp add: SequenceAfter_def sint_u32 unat_of_nat_u32)

lemma ack_in_window:
  assumes "\<not> SequenceAfter ack (una + of_nat n)" "\<not> SequenceBefore ack una" "n < 2 ^ 31"
  shows "unat (ack - una) \<le> n"
proof (rule ccontr)
  assume "\<not> unat (ack - una) \<le> n"
  moreover have d: "unat (ack - una) < 2 ^ 31" using assms(2) by (simp add: SequenceBefore_def sint_u32)
  moreover have "unat (of_nat n :: u32) = n" using assms(3) by (simp add: unat_of_nat_u32)
  ultimately have "unat (ack - una - of_nat n) = unat (ack - una) - n" by (simp add: unat_sub word_le_nat_alt)
  moreover have "ack - una - of_nat n = ack - (una + of_nat n)" by simp
  ultimately show False using assms(1) d \<open>\<not> unat (ack - una) \<le> n\<close> by (auto simp: SequenceAfter_def sint_u32)
qed

section \<open>The invariant\<close>

definition flight :: "SendCore \<Rightarrow> piece list" where
  "flight c = co_rq c @ co_probe c"

text \<open>The bytes of the application that are not acknowledged yet.\<close>

definition outstanding :: "SendCore \<Rightarrow> bytes" where
  "outstanding c = bytes_of (flight c) @ co_queue c"

definition open_ok :: "SendCore \<Rightarrow> bool" where
  "open_ok c \<longleftrightarrow> chain (co_una c) (flight c) (co_nxt c) \<and> co_max c = co_nxt c \<and>
     pieces_ok (co_fsent c \<and> \<not> co_facked c) (flight c) \<and> co_rbytes c = units (flight c) \<and>
     co_rbytes c \<le> co_limit c \<and> co_iseq c = units (co_rq c) \<and> co_ibytes c = length (bytes_of (co_rq c)) \<and>
     (co_fsent c \<longrightarrow> co_freq c \<and> co_queue c = []) \<and> (co_facked c \<longrightarrow> co_fsent c \<and> flight c = [])"

definition closed_ok :: "SendCore \<Rightarrow> bool" where
  "closed_ok c \<longleftrightarrow> co_queue c = [] \<and> co_rq c = [] \<and> co_probe c = [] \<and> co_rbytes c = 0 \<and> co_ibytes c = 0 \<and> co_iseq c = 0"

definition core_inv :: "SendCore \<Rightarrow> bool" where
  "core_inv c \<longleftrightarrow> co_limit c < 2 ^ 31 \<and> co_mss c \<noteq> 0 \<and> length (co_queue c) \<le> co_qlimit c \<and>
     (if co_closed c then closed_ok c else open_ok c)"

definition pend_ok :: "SendCore \<Rightarrow> PendingKind \<times> bool \<times> u32 \<times> nat \<Rightarrow> bool" where
  "pend_ok c = (\<lambda>(kind, fin, seq, len).
     (kind = PK_None \<longrightarrow> co_closed c \<or> \<not> fin) \<and>
     (kind \<in> {PK_NewData, PK_PersistNew} \<longrightarrow> \<not> co_closed c \<and> co_probe c = [] \<and> seq = co_nxt c \<and> len > 0 \<and>
        len - (if fin then 1 else 0) \<le> length (co_queue c) \<and>
        (fin \<longrightarrow> co_freq c \<and> \<not> co_fsent c \<and> len - 1 = length (co_queue c))))"

definition send_inv :: "'c TcpSendBuffer \<Rightarrow> bool" where
  "send_inv b \<longleftrightarrow> core_inv (core b) \<and> pend_ok (core b) (pend b)"

lemma close_core_inv: "core_inv c \<Longrightarrow> core_inv (close_core c)"
  by (simp add: core_inv_def close_core_def closed_ok_def)

lemma pend_ok_cong:
  "pend_ok c p \<Longrightarrow> co_closed c' = co_closed c \<Longrightarrow> (co_probe c = [] \<Longrightarrow> co_probe c' = []) \<Longrightarrow> co_nxt c' = co_nxt c \<Longrightarrow>
     co_queue c' = co_queue c \<Longrightarrow> co_freq c' = co_freq c \<Longrightarrow> co_fsent c' = co_fsent c \<Longrightarrow> pend_ok c' p"
  by (auto simp: pend_ok_def split: prod.splits)

section \<open>The chosen segment\<close>

definition seg_ok :: "SendCore \<Rightarrow> TcpSendNextResult \<Rightarrow> bool" where
  "seg_ok c r \<longleftrightarrow> \<not> co_facked c \<and>
     (\<exists>k. sn_sequence r = co_una c + of_nat k \<and> k \<le> units (flight c) \<and>
        k + length (sn_payload r) \<le> length (outstanding c) \<and>
        sn_payload r = take (length (sn_payload r)) (drop k (outstanding c)) \<and>
        (sn_is_fin r \<longrightarrow> co_freq c \<and> k + length (sn_payload r) = length (outstanding c)))"

text \<open>A segment made of the first \<open>m\<close> bytes of a piece of the flight.\<close>

lemma seg_ok_piece:
  assumes "open_ok c" "flight c = xs @ (q, n, d) # ys" "sn_sequence r = q" "m \<le> length d" "sn_payload r = take m d"
    "sn_is_fin r \<Longrightarrow> unat n > length d \<and> m = length d"
  shows "seg_ok c r"
proof -
  have ch: "chain (co_una c) (flight c) (co_nxt c)" and ok: "pieces_ok (co_fsent c \<and> \<not> co_facked c) (flight c)"
    using assms(1) by (simp_all add: open_ok_def)
  have q: "q = co_una c + of_nat (units xs)" using ch assms(2) by (simp add: chain_append)
  have p: "pieces_ok False xs" "pieces_ok (co_fsent c \<and> \<not> co_facked c) ((q, n, d) # ys)"
    using ok assms(2) by (simp_all add: pieces_ok_append)
  have u: "units xs = length (bytes_of xs)" using pieces_total [OF p(1)] by simp
  have fin: "ys = []" "co_fsent c" if "unat n > length d" using p(2) that by (auto split: if_splits)
  have "co_freq c \<and> co_queue c = []" if "sn_is_fin r" using fin(2) assms(1,6) that by (simp add: open_ok_def)
  with fin(1) assms(6) have "co_freq c \<and> units xs + m = length (outstanding c)" if "sn_is_fin r"
    using that by (simp add: outstanding_def assms(2) u)
  moreover have "\<not> co_facked c" using assms(1,2) by (auto simp: open_ok_def)
  ultimately show ?thesis using q u assms(3-5)
    by (auto simp: seg_ok_def outstanding_def assms(2) min_def intro!: exI [of _ "units xs"])
qed

text \<open>A segment made of the first \<open>m\<close> unsent bytes.\<close>

lemma seg_ok_new:
  assumes "open_ok c" "\<not> co_fsent c" "sn_sequence r = co_nxt c" "m \<le> length (co_queue c)"
    "sn_payload r = take m (co_queue c)" "sn_is_fin r \<Longrightarrow> co_freq c \<and> m = length (co_queue c)"
  shows "seg_ok c r"
proof -
  have "units (flight c) = length (bytes_of (flight c))" "co_nxt c = co_una c + of_nat (units (flight c))"
    using assms(1,2) pieces_total [of False "flight c"] chain_end [of "co_una c" "flight c" "co_nxt c"]
    by (simp_all add: open_ok_def)
  moreover have "\<not> co_facked c" using assms(1,2) by (auto simp: open_ok_def)
  ultimately show ?thesis using assms(3-6)
    by (auto simp: seg_ok_def outstanding_def min_def intro!: exI [of _ "units (flight c)"])
qed

text \<open>What choosing a segment does: nothing to the view, and the segment is a piece of the stream.\<close>

definition next_ok :: "'c TcpSendBuffer \<Rightarrow> TcpSendNextResult \<times> 'c TcpSendBuffer \<Rightarrow> bool" where
  "next_ok b x \<longleftrightarrow> core (snd x) = core b \<and> pend_ok (core b) (pend (snd x)) \<and>
     (sn_has_segment (fst x) \<longrightarrow> seg_ok (core b) (fst x))"

definition idle_open :: "'c TcpSendBuffer \<Rightarrow> bool" where
  "idle_open b \<longleftrightarrow> open_ok (core b) \<and> \<not> sb_closed b \<and> sb_pending_kind b = PK_None \<and> \<not> sb_pending_is_fin b \<and>
     sb_mss b \<noteq> 0"

lemma next_ok_cong: "core b = core b' \<Longrightarrow> next_ok b x = next_ok b' x"
  by (simp add: next_ok_def)

lemma idle_open_cong: "core b = core b' \<Longrightarrow> pend b = pend b' \<Longrightarrow> idle_open b \<longleftrightarrow> idle_open b'"
  by (auto simp: idle_open_def pend_def core_def)

lemma core_fields:
  "co_queue (core b) = sb_send_queue b" "co_rq (core b) = map piece_of (sb_retransmit_queue b)"
  "co_probe (core b) = map piece_of (opt_list (sb_persist_probe b))" "co_nxt (core b) = sb_snd_nxt b"
  "co_freq (core b) = sb_fin_requested b" "co_fsent (core b) = sb_fin_sent b" "co_closed (core b) = sb_closed b"
  "co_rbytes (core b) = sb_retransmit_bytes b" "co_limit (core b) = sb_retransmit_limit b"
  "co_una (core b) = sb_snd_una b" "co_max (core b) = sb_snd_max b" "co_facked (core b) = sb_fin_acked b"
  "co_qlimit (core b) = sb_send_queue_limit b" "co_ibytes (core b) = sb_in_flight_bytes b"
  "co_iseq (core b) = sb_in_flight_sequence b" "co_mss (core b) = sb_mss b"
  by (simp_all add: core_def)

lemma core_pending [simp]:
  "core (b\<lparr>sb_pending_kind := k\<rparr>) = core b" "core (b\<lparr>sb_pending_is_fin := f\<rparr>) = core b"
  "core (b\<lparr>sb_pending_seq := q\<rparr>) = core b" "core (b\<lparr>sb_pending_len := n\<rparr>) = core b"
  "core (b\<lparr>sb_pending_set_cwr := x\<rparr>) = core b" "core (b\<lparr>sb_rto_running := x\<rparr>) = core b"
  "core (b\<lparr>sb_rto_deadline_ms := t\<rparr>) = core b" "core (b\<lparr>sb_last_peer_window := w\<rparr>) = core b"
  "core (b\<lparr>sb_peer_window_valid := x\<rparr>) = core b"
  by (simp_all add: core_def)

lemma resend_probe_ok:
  assumes "idle_open b" "sb_persist_probe b = Some probe" "kind \<notin> {PK_None, PK_NewData, PK_PersistNew}"
  shows "next_ok b (resend_probe z kind probe r b)"
proof -
  have "flight (core b) = co_rq (core b) @ (sr_seq probe, sr_logical_length probe, sr_data probe) # []"
    by (simp add: flight_def core_fields assms(2) piece_of_def)
  moreover have "open_ok (core b)" using assms(1) by (simp add: idle_open_def)
  ultimately have "seg_ok (core b) (fst (resend_probe z kind probe r b))"
    by (rule_tac m = "length (sr_data probe)" in seg_ok_piece) (auto simp: resend_probe_def Let_def)
  then show ?thesis using assms(3) by (simp add: next_ok_def resend_probe_def Let_def pend_ok_def pend_def)
qed

lemma seg_ok_front:
  assumes "open_ok (core b)" "sb_retransmit_queue b = rec # rest" "m \<le> length (sr_data rec)"
    "sn_is_fin r \<Longrightarrow> unat (sr_logical_length rec) > length (sr_data rec) \<and> m = length (sr_data rec)"
    "sn_sequence r = sr_seq rec" "sn_payload r = take m (sr_data rec)"
  shows "seg_ok (core b) r"
proof -
  have "flight (core b) = [] @ (sr_seq rec, sr_logical_length rec, sr_data rec) # map piece_of rest @ co_probe (core b)"
    by (simp add: flight_def core_fields assms(2) piece_of_def)
  from seg_ok_piece [OF assms(1) this assms(5,3,6,4)] show ?thesis .
qed

lemma prepare_retransmission_ok:
  assumes "idle_open b" "sb_retransmit_queue b \<noteq> []" "kind \<notin> {PK_None, PK_NewData, PK_PersistNew}" "\<not> sn_has_segment r"
  shows "next_ok b (prepare_retransmission w (hd (sb_retransmit_queue b)) kind r b)"
proof -
  obtain rec rest where rq: "sb_retransmit_queue b = rec # rest" using assms(2) by (cases "sb_retransmit_queue b") auto
  let ?m = "min (min (length (sr_data rec)) (unat (sb_mss b))) (unat w)"
  let ?x = "prepare_retransmission w rec kind r b"
  have "sn_has_segment (fst ?x) \<longrightarrow> seg_ok (core b) (fst ?x)"
    using assms(1,4) by (auto simp: prepare_retransmission_def Let_def idle_open_def intro!: seg_ok_front [OF _ rq, of ?m])
  then show ?thesis using assms
    by (auto simp: next_ok_def prepare_retransmission_def Let_def pend_ok_def pend_def idle_open_def core_fields rq)
qed

lemma next_ok_none: "idle_open b \<Longrightarrow> \<not> sn_has_segment r \<Longrightarrow> next_ok b (r, b)"
  by (simp add: next_ok_def pend_ok_def pend_def idle_open_def core_fields)

lemma new_segment_cases:
  fixes r b
  assumes "sb_mss b \<noteq> 0"
  obtains "new_segment C w r b = (r, b)"
  | m fin where "new_segment C w r b =
      (r\<lparr>sn_has_segment := True, sn_is_fin := fin, sn_payload := take m (sb_send_queue b), sn_sequence := sb_snd_nxt b\<rparr>,
       b\<lparr>sb_pending_kind := PK_NewData, sb_pending_is_fin := fin, sb_pending_seq := sb_snd_nxt b,
         sb_pending_len := m + (if fin then 1 else 0)\<rparr>)"
    "m \<le> length (sb_send_queue b)" "m \<noteq> 0 \<or> fin"
    "fin \<Longrightarrow> sb_fin_requested b \<and> \<not> sb_fin_sent b \<and> m = length (sb_send_queue b)"
proof -
  define usable where "usable = UsableWindow C w b"
  define available where "available = sb_retransmit_limit b - sb_retransmit_bytes b"
  define m where "m = min (min (min (length (sb_send_queue b)) (unat (sb_mss b))) usable) available"
  define due where "due \<longleftrightarrow> sb_fin_requested b \<and> \<not> sb_fin_sent b"
  define fin where "fin = (if m \<noteq> 0 then due \<and> m = length (sb_send_queue b) \<and> m < usable \<and> m < available
      else due \<and> usable \<noteq> 0 \<and> available \<noteq> 0)"
  have x: "new_segment C w r b = (if m = 0 \<and> \<not> fin then (r, b) else
      (r\<lparr>sn_has_segment := True, sn_is_fin := fin, sn_payload := take m (sb_send_queue b), sn_sequence := sb_snd_nxt b\<rparr>,
       b\<lparr>sb_pending_kind := PK_NewData, sb_pending_is_fin := fin, sb_pending_seq := sb_snd_nxt b,
         sb_pending_len := m + (if fin then 1 else 0)\<rparr>))"
    unfolding new_segment_def Let_def usable_def [symmetric] available_def [symmetric] m_def [symmetric]
      due_def [symmetric] fin_def [symmetric] ..
  have mss: "unat (sb_mss b) \<noteq> 0" using assms by (simp add: unat_eq_0)
  have len: "m \<le> length (sb_send_queue b)" by (simp add: m_def)
  have "due \<and> m = length (sb_send_queue b)" if "fin" "m = 0"
    using that mss by (auto simp: fin_def m_def min_def split: if_splits)
  then have fin: "due \<and> m = length (sb_send_queue b)" if "fin" using that by (cases "m = 0") (auto simp: fin_def)
  show thesis
  proof (cases "m = 0 \<and> \<not> fin")
    case True
    then show thesis using x that(1) by simp
  next
    case False
    then show thesis by (intro that(2) [of m fin] len) (use x fin in \<open>auto simp: due_def\<close>)
  qed
qed

lemma new_segment_ok:
  assumes "idle_open b" "sb_persist_probe b = None" "\<not> sn_has_segment r"
  shows "next_ok b (new_segment C w r b)"
proof -
  have o: "open_ok (core b)" and mss: "sb_mss b \<noteq> 0" using assms(1) by (simp_all add: idle_open_def)
  from mss show ?thesis
  proof (cases rule: new_segment_cases [of b C w r])
    case 1
    then show ?thesis using next_ok_none [OF assms(1,3)] by simp
  next
    case (2 m fin)
    have sent: "\<not> sb_fin_sent b" using 2(2-4) o by (auto simp: open_ok_def core_fields)
    have "seg_ok (core b) (fst (new_segment C w r b))"
      by (rule seg_ok_new [OF o, of _ m]) (use sent 2 in \<open>simp_all add: core_fields\<close>)
    moreover have "pend_ok (core b) (pend (snd (new_segment C w r b)))"
      using 2 assms(1,2) by (auto simp: pend_ok_def pend_def idle_open_def core_fields)
    ultimately show ?thesis by (simp add: next_ok_def 2(1))
  qed
qed

lemma persist_segment_ok:
  assumes "idle_open b" "\<not> sn_has_segment r" "\<not> sn_is_fin r" "sn_payload r = []"
  shows "next_ok b (persist_segment r b)"
proof (cases "sb_persist_probe b")
  case (Some probe)
  then show ?thesis using resend_probe_ok [OF assms(1) Some, of PK_PersistRetry] by (simp add: persist_segment_def)
next
  case None
  have o: "open_ok (core b)" using assms(1) by (simp add: idle_open_def)
  show ?thesis
  proof (cases "sb_retransmit_queue b")
    case (Cons rec rest)
    have "seg_ok (core b) (fst (persist_segment r b))"
      by (rule seg_ok_front [OF o Cons, of "if sr_data rec = [] then 0 else 1"])
        (simp_all add: persist_segment_def None Cons Let_def Suc_le_eq split: if_splits)
    then show ?thesis by (simp add: next_ok_def persist_segment_def None Cons Let_def pend_ok_def pend_def)
  next
    case Nil
    let ?x = "persist_segment r b"
    have sent: "\<not> sb_fin_sent b" if "sn_has_segment (fst ?x)"
      using that assms(2) o by (auto simp: persist_segment_def None Nil open_ok_def core_fields split: if_splits)
    have "sn_has_segment (fst ?x) \<longrightarrow> seg_ok (core b) (fst ?x)"
      using assms(2-4) sent
      by (auto simp: persist_segment_def None Nil core_fields Suc_le_eq
          intro!: seg_ok_new [OF o, of _ "if sb_send_queue b = [] then 0 else 1"] split: if_splits)
    moreover have "pend_ok (core b) (pend (snd ?x))"
      using assms(1,2) sent None Nil
      by (auto simp: persist_segment_def pend_ok_def pend_def idle_open_def core_fields Suc_le_eq split: if_splits)
    ultimately show ?thesis by (simp add: next_ok_def persist_segment_def None Nil)
  qed
qed

lemma next_open_window_ok:
  assumes "idle_open b" "\<not> sn_has_segment r"
  shows "next_ok b (next_open_window C w now r b)"
proof -
  let ?b = "CancelPersist b"
  have i: "idle_open ?b" using assms(1) by (simp add: idle_open_cong [of ?b b])
  have n: "next_ok b x = next_ok ?b x" for x :: "TcpSendNextResult \<times> 'a TcpSendBuffer" by (rule next_ok_cong) simp
  show ?thesis
  proof (cases "sb_persist_probe ?b")
    case (Some probe)
    show ?thesis using resend_probe_ok [OF i Some, of PK_PersistPromote] next_ok_none [OF i assms(2)]
      by (simp add: next_open_window_def Let_def Some n)
  next
    case None
    define c where "c = (if sb_retransmit_queue ?b \<noteq> [] \<and> \<not> sb_rto_running ?b then ArmRto now ?b else ?b)"
    have c: "core c = core b" "pend c = pend b" by (simp_all add: c_def)
    have probe: "sb_persist_probe c = None" using None by (simp add: c_def ArmRto_def)
    have i': "idle_open c" using assms(1) idle_open_cong [OF c(1,2)] by simp
    have n': "next_ok b x = next_ok c x" for x :: "TcpSendNextResult \<times> 'a TcpSendBuffer" by (rule next_ok_cong) (simp add: c)
    show ?thesis unfolding next_open_window_def Let_def n' None option.case c_def [symmetric]
      using prepare_retransmission_ok [OF i' _ _ assms(2)] next_ok_none [OF i' assms(2)] new_segment_ok [OF i' probe assms(2)]
      by simp
  qed
qed

lemma next_zero_window_ok:
  fixes r :: TcpSendNextResult
  assumes "idle_open b" "\<not> sn_has_segment r" "\<not> sn_is_fin r" "sn_payload r = []"
  shows "next_ok b (next_zero_window C now r b) \<or> (\<exists>b'. core b' = core b \<and> next_zero_window C now r b = (r, Send_Close C b'))"
proof -
  define c where "c = ArmPersistTimer now (b\<lparr>sb_rto_running := False, sb_rto_deadline_ms := 0\<rparr>)"
  have c: "core c = core b" "pend c = pend b" by (simp_all add: c_def) (simp add: pend_def)
  have i: "idle_open c" using assms(1) idle_open_cong [OF c] by simp
  have n: "next_ok b x = next_ok c x" for x :: "TcpSendNextResult \<times> 'a TcpSendBuffer" by (rule next_ok_cong) (simp add: c)
  show ?thesis unfolding next_zero_window_def Let_def c_def [symmetric] n
    using next_ok_none [OF i assms(2)] persist_segment_ok [OF i assms(2-4)] c(1) by auto
qed

lemma next_ok_inv: "core_inv (core b) \<Longrightarrow> next_ok b x \<Longrightarrow> send_inv (snd x)"
  by (simp add: next_ok_def send_inv_def)

lemma Close_kind: "sb_pending_kind (Send_Close C b) = PK_None"
  by (simp add: Send_Close_def Let_def)

lemma Close_inv: "core_inv (core b) \<Longrightarrow> send_inv (Send_Close C b)"
  by (simp add: send_inv_def close_core_inv pend_ok_def pend_def Close_kind) (simp add: close_core_def)

lemma NextSegment_effect:
  fixes b :: "'c TcpSendBuffer" and C w now
  assumes inv: "send_inv b"
  defines "x \<equiv> NextSegment C w now b"
  shows "send_inv (snd x) \<and> (sn_has_segment (fst x) \<longrightarrow> \<not> sb_closed b \<and> seg_ok (core b) (fst x)) \<and>
    (core (snd x) = core b \<or> core (snd x) = close_core (core b))"
proof (cases "sb_closed b \<or> sb_pending_kind b \<noteq> PK_None")
  case True
  then show ?thesis using inv by (simp add: x_def NextSegment_def TcpSendNextResult_init_def)
next
  case False
  define c where "c = (let b = (if \<not> sb_peer_window_valid b
      then b\<lparr>sb_last_peer_window := w, sb_peer_window_valid := True\<rparr> else b) in b\<lparr>sb_pending_set_cwr := sb_ecn_cwr_queued b\<rparr>)"
  define r where "r = TcpSendNextResult_init\<lparr>sn_set_cwr := sb_pending_set_cwr c\<rparr>"
  have c: "core c = core b" "pend c = pend b" by (simp_all add: c_def Let_def pend_def)
  have r: "\<not> sn_has_segment r" "\<not> sn_is_fin r" "sn_payload r = []" by (simp_all add: r_def TcpSendNextResult_init_def)
  have ci: "core_inv (core c)" using inv by (simp add: c send_inv_def)
  have "idle_open b" using inv False
    by (auto simp: idle_open_def send_inv_def core_inv_def core_fields pend_ok_def pend_def)
  then have i: "idle_open c" using idle_open_cong [OF c] by simp
  have x: "x = (if w = 0 then next_zero_window C now r c else next_open_window C w now r c)"
    using False by (simp add: x_def NextSegment_def Let_def r_def c_def)
  consider "next_ok c x" | c' where "core c' = core c" "x = (r, Send_Close C c')"
    using next_zero_window_ok [OF i r, of C now] next_open_window_ok [OF i r(1), of C w now] x by (auto split: if_splits)
  then show ?thesis
  proof cases
    case 1
    with next_ok_inv [OF ci 1] False show ?thesis by (auto simp: next_ok_def c)
  next
    case 2
    then show ?thesis using Close_inv [of c' C] ci r(1) by (simp add: c)
  qed
qed

section \<open>Recording the segment\<close>

definition push_core :: "bool \<Rightarrow> nat \<Rightarrow> SendCore \<Rightarrow> SendCore" where
  "push_core fin len c = c\<lparr>co_queue := drop (len - (if fin then 1 else 0)) (co_queue c),
     co_rbytes := co_rbytes c + len, co_nxt := co_nxt c + of_nat len, co_max := co_nxt c + of_nat len,
     co_fsent := co_fsent c \<or> fin\<rparr>"

definition store_core :: "bool \<Rightarrow> nat \<Rightarrow> bytes \<Rightarrow> SendCore \<Rightarrow> SendCore" where
  "store_core fin len data c = (push_core fin len c)\<lparr>co_rq := co_rq c @ [(co_nxt c, of_nat len, data)],
     co_ibytes := co_ibytes c + length data, co_iseq := co_iseq c + len\<rparr>"

definition probe_core :: "bool \<Rightarrow> nat \<Rightarrow> bytes \<Rightarrow> SendCore \<Rightarrow> SendCore" where
  "probe_core fin len data c = (push_core fin len c)\<lparr>co_probe := [(co_nxt c, of_nat len, data)]\<rparr>"

text \<open>The pending segment can be recorded.\<close>

definition storable :: "SendCore \<Rightarrow> bool \<Rightarrow> nat \<Rightarrow> bytes \<Rightarrow> bool" where
  "storable c fin len data \<longleftrightarrow> core_inv c \<and> \<not> co_closed c \<and> co_probe c = [] \<and> len > 0 \<and>
     len - (if fin then 1 else 0) \<le> length (co_queue c) \<and>
     (fin \<longrightarrow> co_freq c \<and> \<not> co_fsent c \<and> len - 1 = length (co_queue c)) \<and>
     len \<le> co_limit c - co_rbytes c \<and> length data = len - (if fin then 1 else 0)"

lemma storable_open:
  assumes "storable c fin len data"
  shows "open_ok c" "\<not> co_fsent c" "\<not> co_facked c" "unat (of_nat len :: u32) = len" "len < 2 ^ 31"
    "flight c = co_rq c"
proof -
  show o: "open_ok c" using assms by (simp add: storable_def core_inv_def)
  show n: "\<not> co_fsent c" using assms o by (auto simp: storable_def open_ok_def)
  then show "\<not> co_facked c" using o by (simp add: open_ok_def)
  show l: "len < 2 ^ 31" using assms unfolding storable_def core_inv_def by linarith
  then show "unat (of_nat len :: u32) = len" by (simp add: unat_of_nat_u32)
  show "flight c = co_rq c" using assms by (simp add: storable_def flight_def)
qed

lemma pushed_flight:
  "storable c fin len data \<Longrightarrow> flight (store_core fin len data c) = flight c @ [(co_nxt c, of_nat len, data)]"
  "storable c fin len data \<Longrightarrow> flight (probe_core fin len data c) = flight c @ [(co_nxt c, of_nat len, data)]"
  by (simp_all add: storable_def flight_def store_core_def probe_core_def push_core_def)

lemma pushed_open:
  assumes "storable c fin len data"
  shows "open_ok (store_core fin len data c)" "open_ok (probe_core fin len data c)"
proof -
  note f = storable_open [OF assms]
  let ?fl = "flight c @ [(co_nxt c, of_nat len, data)]"
  have o: "chain (co_una c) (flight c) (co_nxt c)" "pieces_ok False (flight c)" "co_rbytes c = units (flight c)"
    using f by (simp_all add: open_ok_def)
  have "chain (co_una c) ?fl (co_nxt c + of_nat len)"
    using o(1) chain_end [OF o(1)] by (simp add: chain_append)
  moreover have "pieces_ok fin ?fl" using o(2) f(4) assms by (auto simp: pieces_ok_append storable_def)
  moreover have "units ?fl = co_rbytes c + len" "co_rbytes c + len \<le> co_limit c"
    using o(3) f(1,4) assms by (auto simp: storable_def open_ok_def)
  moreover have "fin \<Longrightarrow> co_freq c \<and> drop (len - 1) (co_queue c) = []" using assms by (simp add: storable_def)
  ultimately show "open_ok (store_core fin len data c)" "open_ok (probe_core fin len data c)"
    using f pushed_flight [OF assms]
    by (auto simp: open_ok_def store_core_def probe_core_def push_core_def)
qed

lemma pushed_inv:
  assumes "storable c fin len data"
  shows "core_inv (store_core fin len data c)" "core_inv (probe_core fin len data c)"
  using pushed_open [OF assms] assms
  by (auto simp: core_inv_def storable_def store_core_def probe_core_def push_core_def)

lemma pushed_outstanding:
  assumes "storable c fin len data" "data = take (len - (if fin then 1 else 0)) (co_queue c)"
  shows "outstanding (store_core fin len data c) = outstanding c" "outstanding (probe_core fin len data c) = outstanding c"
  using assms pushed_flight [OF assms(1)]
  by (auto simp: outstanding_def) (simp_all add: store_core_def probe_core_def push_core_def split: if_splits)

lemma core_upd [simp]:
  "core (b\<lparr>sb_retransmit_queue := rq\<rparr>) = (core b)\<lparr>co_rq := map piece_of rq\<rparr>"
  "core (b\<lparr>sb_persist_probe := p\<rparr>) = (core b)\<lparr>co_probe := map piece_of (opt_list p)\<rparr>"
  "core (b\<lparr>sb_in_flight_bytes := n\<rparr>) = (core b)\<lparr>co_ibytes := n\<rparr>"
  "core (b\<lparr>sb_in_flight_sequence := n\<rparr>) = (core b)\<lparr>co_iseq := n\<rparr>"
  "core (b\<lparr>sb_sampler := x\<rparr>) = core b" "core (b\<lparr>sb_next_send_time_ms := t\<rparr>) = core b"
  "core (b\<lparr>sb_persist_probe_count := n\<rparr>) = core b" "core (b\<lparr>sb_ecn_cwr_queued := q\<rparr>) = core b"
  "core (b\<lparr>sb_retransmission_count := n\<rparr>) = core b" "core (b\<lparr>sb_fast_retransmit_pending := q\<rparr>) = core b"
  "core (b\<lparr>sb_controller := k\<rparr>) = core b" "core (b\<lparr>sb_delivered_ce := ce\<rparr>) = core b"
  "core (b\<lparr>sb_dup_ack_count := n\<rparr>) = core b" "core (b\<lparr>sb_snd_una := u\<rparr>) = (core b)\<lparr>co_una := u\<rparr>"
  by (simp_all add: core_def)

lemma pend_upd [simp]:
  "pend (b\<lparr>sb_dup_ack_count := n\<rparr>) = pend b" "pend (b\<lparr>sb_controller := k\<rparr>) = pend b"
  "pend (b\<lparr>sb_fast_retransmit_pending := x\<rparr>) = pend b" "pend (b\<lparr>sb_last_peer_window := w\<rparr>) = pend b"
  "pend (b\<lparr>sb_peer_window_valid := x\<rparr>) = pend b" "pend (b\<lparr>sb_ecn_cwr_queued := x\<rparr>) = pend b"
  "pend (b\<lparr>sb_delivered_ce := ce\<rparr>) = pend b"
  by (simp_all add: pend_def)

lemma backing_length: "backing owner off n = Some d \<Longrightarrow> length d = n"
  by (auto simp: backing_def split: if_splits option.splits)

lemma core_advance_sequence:
  "sb_snd_max b = sb_snd_nxt b \<Longrightarrow> 0 < sb_pending_len b \<Longrightarrow> sb_pending_len b < 2 ^ 31 \<Longrightarrow>
     core (advance_sequence b) = push_core (sb_pending_is_fin b) (sb_pending_len b) (core b)"
  by (simp add: advance_sequence_def Let_def SequenceAfter_advance core_def push_core_def pending_payload_length_def)

lemma piece_of_pending:
  "sb_pending_len b < 2 ^ 31 \<Longrightarrow>
     piece_of (pending_record owner data now b) = (sb_pending_seq b, of_nat (sb_pending_len b), data)"
  by (simp add: piece_of_def pending_record_def SaturatingUint32_def)

lemma pending_storable:
  assumes "send_inv b" "sb_pending_kind b \<in> {PK_NewData, PK_PersistNew}"
    "sb_pending_len b \<le> sb_retransmit_limit b - sb_retransmit_bytes b"
    "backing owner off (pending_payload_length b) = Some data"
  shows "storable (core b) (sb_pending_is_fin b) (sb_pending_len b) data" "sb_pending_seq b = sb_snd_nxt b"
    "sb_snd_max b = sb_snd_nxt b" "0 < sb_pending_len b" "sb_pending_len b < 2 ^ 31"
proof -
  have "pend_ok (core b) (pend b)" "core_inv (core b)" using assms(1) by (simp_all add: send_inv_def)
  then show s: "storable (core b) (sb_pending_is_fin b) (sb_pending_len b) data" "sb_pending_seq b = sb_snd_nxt b"
    using assms(2,3) backing_length [OF assms(4)]
    by (auto simp: pend_ok_def pend_def storable_def core_fields pending_payload_length_def)
  show "sb_snd_max b = sb_snd_nxt b" using storable_open(1) [OF s(1)] by (simp add: open_ok_def core_fields)
  show "0 < sb_pending_len b" using s(1) by (simp add: storable_def)
  show "sb_pending_len b < 2 ^ 31" using storable_open(5) [OF s(1)] .
qed

lemma core_after_store [simp]: "core (after_store C now b) = core b"
  by (simp add: after_store_def Let_def)

lemma advance_sequence_fields:
  "sb_in_flight_bytes (advance_sequence b) = sb_in_flight_bytes b"
  "sb_in_flight_sequence (advance_sequence b) = sb_in_flight_sequence b"
  "sb_pending_len (advance_sequence b) = sb_pending_len b"
  by (simp_all add: advance_sequence_def Let_def)

lemma core_store:
  assumes "storable (core b) (sb_pending_is_fin b) (sb_pending_len b) data" "sb_snd_max b = sb_snd_nxt b"
    "piece_of rec = (sb_snd_nxt b, of_nat (sb_pending_len b), data)"
  shows "core ((advance_sequence (b\<lparr>sb_retransmit_queue := sb_retransmit_queue b @ [rec]\<rparr>))
      \<lparr>sb_in_flight_bytes := sb_in_flight_bytes b + length data,
        sb_in_flight_sequence := sb_in_flight_sequence b + sb_pending_len b\<rparr>) =
    store_core (sb_pending_is_fin b) (sb_pending_len b) data (core b)"
proof -
  have "0 < sb_pending_len b" "sb_pending_len b < 2 ^ 31"
    using assms(1) storable_open(5) [OF assms(1)] by (simp_all add: storable_def)
  then show ?thesis
    by (simp add: core_advance_sequence assms(2,3) store_core_def push_core_def core_fields)
qed

lemma StoreNewRecord_effect:
  fixes b :: "'c TcpSendBuffer"
  assumes "send_inv b" "sb_pending_kind b = PK_NewData" "StoreNewRecord C owner off now b = (acc, b')"
  obtains "b' = b"
  | data where "backing owner off (pending_payload_length b) = Some data"
    "storable (core b) (sb_pending_is_fin b) (sb_pending_len b) data"
    "core b' = store_core (sb_pending_is_fin b) (sb_pending_len b) data (core b)"
proof (cases "pending_payload_length b > length (sb_send_queue b) \<or>
    sb_pending_len b > sb_retransmit_limit b - sb_retransmit_bytes b")
  case guard: False
  show thesis
  proof (cases "backing owner off (pending_payload_length b)")
    case (Some data)
    have kind: "sb_pending_kind b \<in> {PK_NewData, PK_PersistNew}" using assms(2) by simp
    from guard have "sb_pending_len b \<le> sb_retransmit_limit b - sb_retransmit_bytes b" by simp
    note s = pending_storable [OF assms(1) kind this Some]
    let ?rec = "pending_record owner data now b"
    let ?s = "(sr_delivery ?rec)\<lparr>pd_app_limited := (\<not> sb_pending_is_fin b \<and> pending_payload_length b = length (sb_send_queue b)) \<and>
        sb_in_flight_sequence b + sb_pending_len b < unat (cc_cwnd C (sb_controller b))\<rparr>"
    have rec: "piece_of (?rec\<lparr>sr_delivery := ?s\<rparr>) = (sb_snd_nxt b, of_nat (sb_pending_len b), data)"
      using piece_of_pending [OF s(5), of owner data now] s(2) by (simp add: piece_of_def)
    have "core b' = core ((advance_sequence (b\<lparr>sb_retransmit_queue := sb_retransmit_queue b @ [?rec\<lparr>sr_delivery := ?s\<rparr>]\<rparr>))
      \<lparr>sb_in_flight_bytes := sb_in_flight_bytes b + length data,
        sb_in_flight_sequence := sb_in_flight_sequence b + sb_pending_len b\<rparr>)"
      using assms(3) guard Some backing_length [OF Some]
      by (auto simp: StoreNewRecord_def Let_def advance_sequence_fields)
    then show thesis using core_store [OF s(1,3) rec] that(2) [OF Some s(1)] by simp
  qed (use assms(3) guard that(1) in \<open>simp add: StoreNewRecord_def Let_def\<close>)
next
  case True
  then show thesis using assms(3) that(1) by (simp only: StoreNewRecord_def Let_def if_True prod.inject)
qed

lemma store_probe_effect:
  fixes b :: "'c TcpSendBuffer"
  assumes "send_inv b" "sb_pending_kind b = PK_PersistNew" "store_probe owner off now b = (acc, b')"
  obtains "b' = b"
  | data where "backing owner off (pending_payload_length b) = Some data"
    "storable (core b) (sb_pending_is_fin b) (sb_pending_len b) data"
    "core b' = probe_core (sb_pending_is_fin b) (sb_pending_len b) data (core b)"
proof (cases "pending_payload_length b > length (sb_send_queue b) \<or>
    sb_pending_len b > sb_retransmit_limit b - sb_retransmit_bytes b")
  case guard: False
  show thesis
  proof (cases "backing owner off (pending_payload_length b)")
    case (Some data)
    have kind: "sb_pending_kind b \<in> {PK_NewData, PK_PersistNew}" using assms(2) by simp
    from guard have "sb_pending_len b \<le> sb_retransmit_limit b - sb_retransmit_bytes b" by simp
    note s = pending_storable [OF assms(1) kind this Some]
    let ?rec = "(pending_record owner data now b)\<lparr>sr_retransmitted := True\<rparr>"
    have rec: "piece_of ?rec = (sb_snd_nxt b, of_nat (sb_pending_len b), data)"
      using piece_of_pending [OF s(5), of owner data now] s(2) by (simp add: piece_of_def)
    have "b' = advance_sequence (b\<lparr>sb_persist_probe := Some ?rec\<rparr>)"
      using assms(3) guard Some by (simp add: store_probe_def Let_def)
    then have "core b' = probe_core (sb_pending_is_fin b) (sb_pending_len b) data (core b)"
      using rec s(3-5) by (simp add: core_advance_sequence probe_core_def push_core_def core_fields)
    then show thesis using that(2) [OF Some s(1)] by simp
  qed (use assms(3) guard that(1) in \<open>simp add: store_probe_def Let_def\<close>)
next
  case True
  then show thesis using assms(3) that(1) by (simp only: store_probe_def Let_def if_True prod.inject)
qed

definition promote_core :: "SendCore \<Rightarrow> SendCore" where
  "promote_core c = c\<lparr>co_rq := co_rq c @ co_probe c, co_probe := [],
     co_ibytes := co_ibytes c + length (bytes_of (co_probe c)), co_iseq := co_iseq c + units (co_probe c)\<rparr>"

lemma promote_core_props:
  "flight (promote_core c) = flight c" "outstanding (promote_core c) = outstanding c"
  "core_inv c \<Longrightarrow> core_inv (promote_core c)"
proof -
  show f: "flight (promote_core c) = flight c" "outstanding (promote_core c) = outstanding c"
    by (simp_all add: flight_def outstanding_def promote_core_def)
  have "open_ok (promote_core c)" if "open_ok c"
    using that by (simp add: open_ok_def f) (simp add: promote_core_def flight_def)
  moreover have "closed_ok (promote_core c)" if "closed_ok c"
    using that by (simp add: closed_ok_def promote_core_def)
  ultimately show "core_inv c \<Longrightarrow> core_inv (promote_core c)"
    by (auto simp: core_inv_def) (simp_all add: promote_core_def)
qed

lemma promote_probe_effect: "core (snd (promote_probe now b)) \<in> {core b, promote_core (core b)}"
  by (auto simp: promote_probe_def Let_def promote_core_def core_fields piece_of_def split: option.split)

lemma piece_of_stamp [simp]:
  "piece_of (rec\<lparr>sr_retransmitted := x\<rparr>) = piece_of rec" "piece_of (rec\<lparr>sr_sent_time_ms := t\<rparr>) = piece_of rec"
  "piece_of (rec\<lparr>sr_rto_attempts := n\<rparr>) = piece_of rec" "piece_of (rec\<lparr>sr_delivery := d\<rparr>) = piece_of rec"
  "piece_of (rec\<lparr>sr_sacked := x\<rparr>) = piece_of rec"
  by (simp_all add: piece_of_def)

lemma core_self:
  "sb_retransmit_queue b = rec # rq \<Longrightarrow> (core b)\<lparr>co_rq := piece_of rec # map piece_of rq\<rparr> = core b"
  "sb_persist_probe b = Some rec \<Longrightarrow> (core b)\<lparr>co_probe := [piece_of rec]\<rparr> = core b"
  by (simp_all add: core_def)

lemma fast_retransmit_effect: "core (snd (fast_retransmit now b)) = core b"
  by (cases "sb_retransmit_queue b") (simp_all add: fast_retransmit_def Let_def core_self)

lemma rto_retransmit_effect: "core (snd (rto_retransmit C now b)) \<in> {core b, close_core (core b)}"
  by (cases "sb_retransmit_queue b") (simp_all add: rto_retransmit_def Let_def core_self)

text \<open>What recording a segment does to the view.\<close>

definition sent_core :: "bytes option \<Rightarrow> nat \<Rightarrow> 'c TcpSendBuffer \<Rightarrow> SendCore \<Rightarrow> bool" where
  "sent_core owner off b c' \<longleftrightarrow> c' \<in> {core b, close_core (core b), promote_core (core b)} \<or>
     (sb_pending_kind b \<in> {PK_NewData, PK_PersistNew} \<and>
      (\<exists>data. backing owner off (pending_payload_length b) = Some data \<and>
         storable (core b) (sb_pending_is_fin b) (sb_pending_len b) data \<and>
         c' \<in> {store_core (sb_pending_is_fin b) (sb_pending_len b) data (core b),
               probe_core (sb_pending_is_fin b) (sb_pending_len b) data (core b)}))"

lemma OnSent_effect:
  assumes "send_inv b"
  shows "sent_core owner off b (core (OnSent C owner off now b))"
proof (cases "sb_pending_kind b")
  case PK_None
  then show ?thesis by (simp add: OnSent_def sent_core_def)
next
  case PK_NewData
  obtain acc b' where x: "StoreNewRecord C owner off now b = (acc, b')" by fastforce
  then have "core (OnSent C owner off now b) = core b'" by (simp add: OnSent_def PK_NewData Let_def)
  moreover from assms PK_NewData x have "sent_core owner off b (core b')"
    by (rule StoreNewRecord_effect) (auto simp: sent_core_def PK_NewData)
  ultimately show ?thesis by simp
next
  case PK_PersistNew
  obtain acc b' where x: "store_probe owner off now b = (acc, b')" by fastforce
  then have "core (OnSent C owner off now b) = core b'" by (simp add: OnSent_def PK_PersistNew Let_def)
  moreover from assms PK_PersistNew x have "sent_core owner off b (core b')"
    by (rule store_probe_effect) (auto simp: sent_core_def PK_PersistNew)
  ultimately show ?thesis by simp
next
  case PK_RtoRetransmit
  then have "core (OnSent C owner off now b) = core (snd (rto_retransmit C now b))" by (simp add: OnSent_def Let_def split_beta)
  then show ?thesis using rto_retransmit_effect [of C now b] by (auto simp: sent_core_def)
next
  case PK_FastRetransmit
  then have "core (OnSent C owner off now b) = core (snd (fast_retransmit now b))" by (simp add: OnSent_def Let_def split_beta)
  then show ?thesis using fast_retransmit_effect [of now b] by (auto simp: sent_core_def)
next
  case PK_PersistPromote
  then have "core (OnSent C owner off now b) = core (snd (promote_probe now b))" by (simp add: OnSent_def Let_def split_beta)
  then show ?thesis using promote_probe_effect [of now b] by (auto simp: sent_core_def)
next
  case PK_PersistRetry
  then have "core (OnSent C owner off now b) = core b"
    by (cases "sb_persist_probe b") (simp_all add: OnSent_def Let_def core_self)
  then show ?thesis by (simp add: sent_core_def)
next
  case PK_PersistExisting
  then have "core (OnSent C owner off now b) = core b"
    by (cases "sb_retransmit_queue b") (simp_all add: OnSent_def Let_def core_self)
  then show ?thesis by (simp add: sent_core_def)
qed

lemma OnSent_pend: "sb_pending_kind b \<noteq> PK_None \<Longrightarrow> pend (OnSent C owner off now b) = (PK_None, False, 0, 0)"
  by (simp add: OnSent_def Let_def split_beta ResetPending_def pend_def)

lemma sent_core_inv: "core_inv (core b) \<Longrightarrow> sent_core owner off b c \<Longrightarrow> core_inv c"
  by (auto simp: sent_core_def close_core_inv promote_core_props pushed_inv)

lemma OnSent_inv: "send_inv b \<Longrightarrow> send_inv (OnSent C owner off now b)"
proof (cases "sb_pending_kind b = PK_None")
  case False
  assume inv: "send_inv b"
  have "pend_ok c (PK_None, False, 0, 0)" for c by (simp add: pend_ok_def)
  then show ?thesis using sent_core_inv [OF _ OnSent_effect [OF inv]] inv by (simp add: send_inv_def OnSent_pend [OF False])
qed (simp add: OnSent_def)

section \<open>Acknowledging\<close>

definition ack_core :: "nat \<Rightarrow> u32 \<Rightarrow> SendCore \<Rightarrow> SendCore" where
  "ack_core k una c = c\<lparr>co_rq := adv k (co_rq c), co_probe := adv (k - units (co_rq c)) (co_probe c),
     co_rbytes := co_rbytes c - k, co_ibytes := co_ibytes c - min k (length (bytes_of (co_rq c))),
     co_iseq := co_iseq c - min k (units (co_rq c)), co_una := una,
     co_facked := co_facked c \<or> (co_fsent c \<and> \<not> co_facked c \<and> k \<ge> units (flight c))\<rparr>"

lemma flight_parts:
  assumes "open_ok c"
  obtains f g where "pieces_ok f (co_rq c)" "pieces_ok g (co_probe c)" "co_fsent c \<and> \<not> co_facked c \<longleftrightarrow> f \<or> g"
    "f \<Longrightarrow> co_probe c = []" "\<not> (f \<and> g)" "g \<Longrightarrow> co_probe c \<noteq> []"
proof -
  define h where "h \<longleftrightarrow> co_fsent c \<and> \<not> co_facked c"
  have h: "pieces_ok h (flight c)" using assms by (simp add: open_ok_def h_def)
  show thesis
  proof (cases "co_probe c = []")
    case True
    with h show thesis by (intro that [of h False]) (simp_all add: flight_def h_def [symmetric])
  next
    case False
    with h show thesis by (intro that [of False h]) (simp_all add: flight_def pieces_ok_append h_def [symmetric])
  qed
qed

lemma ack_core_flight: "open_ok c \<Longrightarrow> flight (ack_core k una c) = adv k (flight c)"
  by (erule flight_parts) (simp add: flight_def ack_core_def adv_append)

lemma ack_core_open:
  assumes "open_ok c" "k \<le> units (flight c)"
  shows "open_ok (ack_core k (co_una c + of_nat k) c)"
proof -
  let ?d = "ack_core k (co_una c + of_nat k) c" and ?f = "co_fsent c \<and> \<not> co_facked c"
  have fl: "flight ?d = adv k (flight c)" using ack_core_flight [OF assms(1)] .
  have o: "chain (co_una c) (flight c) (co_nxt c)" "pieces_ok ?f (flight c)" "co_rbytes c = units (flight c)"
    "co_rbytes c \<le> co_limit c" "co_iseq c = units (co_rq c)" "co_ibytes c = length (bytes_of (co_rq c))"
    "co_max c = co_nxt c" "co_fsent c \<longrightarrow> co_freq c \<and> co_queue c = []" "co_facked c \<longrightarrow> co_fsent c \<and> flight c = []"
    using assms(1) by (simp_all add: open_ok_def)
  obtain f where f: "pieces_ok f (co_rq c)" by (rule flight_parts [OF assms(1)])
  have rq: "units (adv k (co_rq c)) = units (co_rq c) - k \<and> bytes_of (adv k (co_rq c)) = drop k (bytes_of (co_rq c))"
    using adv_total [of k "co_rq c"] adv_bytes [OF f, of k] adv_all [OF _ f, of k] pieces_total [OF f]
    by (cases "k \<le> units (co_rq c)") auto
  have ok: "pieces_ok (?f \<and> k < units (flight c)) (adv k (flight c))" using adv_ok [OF o(2) assms(2)] .
  have ch: "chain (co_una c + of_nat k) (adv k (flight c)) (co_nxt c)" using adv_chain [OF o(1) assms(2)] .
  have all: "adv k (flight c) = []" if "k \<ge> units (flight c)" using adv_all [OF that o(2)] .
  have tot: "units (adv k (flight c)) = units (flight c) - k" using adv_total [OF assms(2)] .
  have flag: "(co_fsent ?d \<and> \<not> co_facked ?d) = (?f \<and> k < units (flight c))" by (auto simp: ack_core_def)
  have d: "co_una ?d = co_una c + of_nat k" "co_nxt ?d = co_nxt c" "co_max ?d = co_max c" "co_rbytes ?d = co_rbytes c - k"
    "co_limit ?d = co_limit c" "co_rq ?d = adv k (co_rq c)" "co_fsent ?d = co_fsent c" "co_freq ?d = co_freq c"
    "co_queue ?d = co_queue c" "co_iseq ?d = units (co_rq c) - k" "co_ibytes ?d = length (bytes_of (co_rq c)) - k"
    using o by (auto simp: ack_core_def)
  have "adv k (flight c) = [] \<and> co_fsent c" if "co_facked ?d" using that o(9) all by (auto simp: ack_core_def)
  then show ?thesis unfolding open_ok_def fl flag unfolding d using o(3-8) ok ch tot rq by simp
qed

lemma ack_core_outstanding:
  assumes "open_ok c" "k \<le> units (flight c)"
  shows "outstanding (ack_core k una c) = drop (min k (length (bytes_of (flight c)))) (outstanding c)"
proof -
  have "bytes_of (adv k (flight c)) = drop k (bytes_of (flight c))"
    using assms by (intro adv_bytes) (auto simp: open_ok_def)
  then show ?thesis by (simp add: outstanding_def ack_core_flight [OF assms(1)] min_def) (simp add: ack_core_def)
qed

lemma core_scan_store:
  "core (scan_store a b) = (core b)\<lparr>co_rbytes := ak_retransmit_bytes a, co_iseq := ak_in_flight_sequence a,
     co_ibytes := ak_in_flight_bytes a, co_facked := ak_fin_acked a\<rparr>"
  by (simp add: core_def scan_store_def)

lemma new_ack_core:
  assumes "ack_loop now (sb_retransmit_queue b) (scan_start (unat (ack - sb_snd_una b)) b) = (rq, a)"
    "ack_probe (sb_persist_probe b) a = (probe, a')"
  shows "core (snd (new_ack C ack w now b)) = (core b)\<lparr>co_rq := map piece_of rq, co_probe := map piece_of (opt_list probe),
      co_rbytes := ak_retransmit_bytes a', co_iseq := ak_in_flight_sequence a', co_ibytes := ak_in_flight_bytes a',
      co_facked := ak_fin_acked a', co_una := ack\<rparr>" (is ?core)
    "sa_newly_acked (fst (new_ack C ack w now b)) = ak_payload a'"
    "pend (snd (new_ack C ack w now b)) = pend b" (is ?pend)
proof -
  have r: "core (case x of Some rtt \<Rightarrow> if p then RecomputeRto rtt d else d | None \<Rightarrow> d) = core d"
    "pend (case x of Some rtt \<Rightarrow> if p then RecomputeRto rtt d else d | None \<Rightarrow> d) = pend d"
    for x p and d :: "'a TcpSendBuffer" by (simp_all split: option.split)
  show ?core using assms by (simp add: new_ack_def Let_def r core_scan_store)
  show "sa_newly_acked (fst (new_ack C ack w now b)) = ak_payload a'" using assms
    by (simp add: new_ack_def Let_def TcpSendAckResult_init_def)
  show ?pend using assms by (simp add: new_ack_def Let_def r) (simp add: pend_def scan_store_def)
qed

lemma new_ack_effect:
  assumes "open_ok (core b)" "unat (ack - sb_snd_una b) \<le> units (flight (core b))"
  defines "k \<equiv> unat (ack - sb_snd_una b)"
  shows "core (snd (new_ack C ack w now b)) = ack_core k ack (core b)"
    "sa_newly_acked (fst (new_ack C ack w now b)) = min k (length (bytes_of (flight (core b))))"
proof -
  obtain rq a probe a' where l: "ack_loop now (sb_retransmit_queue b) (scan_start k b) = (rq, a)"
    and p: "ack_probe (sb_persist_probe b) a = (probe, a')" by (metis surj_pair)
  note na = new_ack_core [OF l [unfolded k_def] p]
  obtain f g where fg: "pieces_ok f (co_rq (core b))" "pieces_ok g (co_probe (core b))"
    "co_fsent (core b) \<and> \<not> co_facked (core b) \<longleftrightarrow> f \<or> g" "f \<Longrightarrow> co_probe (core b) = []" "\<not> (f \<and> g)"
    "g \<Longrightarrow> co_probe (core b) \<noteq> []"
    by (rule flight_parts [OF assms(1)]) blast
  note lf = ack_loop_fields [OF fg(1) [unfolded core_fields] l, unfolded core_fields(2) [symmetric]]
  note pf = ack_probe_fields [OF fg(2) [unfolded core_fields] p, unfolded core_fields(3) [symmetric]]
  have s: "ak_remaining (scan_start k b) = k" "ak_payload (scan_start k b) = 0"
    "ak_retransmit_bytes (scan_start k b) = co_rbytes (core b)" "ak_in_flight_sequence (scan_start k b) = co_iseq (core b)"
    "ak_in_flight_bytes (scan_start k b) = co_ibytes (core b)" "ak_fin_acked (scan_start k b) = co_facked (core b)"
    by (simp_all add: scan_start_def core_fields)
  let ?u = "units (co_rq (core b))" and ?v = "units (co_probe (core b))"
  let ?m = "length (bytes_of (co_rq (core b)))" and ?n = "length (bytes_of (co_probe (core b)))"
  have kb: "k \<le> ?u + ?v" using assms(2) by (simp add: k_def flight_def)
  have u: "?u = ?m + (if f then 1 else 0)" "?v = ?n + (if g then 1 else 0)" using pieces_total fg(1,2) by auto
  have rb: "co_rbytes (core b) - min k ?u - min (k - ?u) ?v = co_rbytes (core b) - k" using kb by auto
  have pay: "min k ?m + min (k - ?u) ?n = min k (?m + ?n)" using u fg(4) by (cases f) auto
  have fin: "(f \<and> k \<ge> ?u \<or> g \<and> k - ?u \<ge> ?v) = ((f \<or> g) \<and> k \<ge> ?u + ?v)"
    using u fg(4,6) by (cases f; cases g) auto
  have facked: "ak_fin_acked a' = (co_facked (core b) \<or> (f \<or> g) \<and> k \<ge> units (flight (core b)))"
    using lf pf fin by (simp add: s flight_def disj_ac)
  then have fa: "ak_fin_acked a' = (co_facked (core b) \<or>
      (co_fsent (core b) \<and> \<not> co_facked (core b) \<and> k \<ge> units (flight (core b))))" using fg(3) by blast
  have eqs: "map piece_of rq = adv k (co_rq (core b))" "map piece_of (opt_list probe) = adv (k - ?u) (co_probe (core b))"
    "ak_retransmit_bytes a' = co_rbytes (core b) - k" "ak_in_flight_sequence a' = co_iseq (core b) - min k ?u"
    "ak_in_flight_bytes a' = co_ibytes (core b) - min k ?m"
    using lf pf rb by (simp_all add: s)
  show "core (snd (new_ack C ack w now b)) = ack_core k ack (core b)"
    unfolding na(1) eqs fa ack_core_def by simp
  show "sa_newly_acked (fst (new_ack C ack w now b)) = min k (length (bytes_of (flight (core b))))"
    unfolding na(2) using lf pf pay by (simp add: s flight_def)
qed

lemma core_duplicate_ack:
  "core (snd (duplicate_ack C w now only b)) = core b" "pend (snd (duplicate_ack C w now only b)) = pend b"
  "sa_newly_acked (fst (duplicate_ack C w now only b)) = 0"
  by (simp_all add: duplicate_ack_def Let_def TcpSendAckResult_init_def)

lemma new_ack_closed:
  assumes "closed_ok (core b)"
  shows "core (snd (new_ack C ack w now b)) = (core b)\<lparr>co_una := ack\<rparr>" "sa_newly_acked (fst (new_ack C ack w now b)) = 0"
proof -
  have q: "sb_retransmit_queue b = []" "sb_persist_probe b = None" "co_rq (core b) = []" "co_probe (core b) = []"
    using assms by (simp_all add: closed_ok_def core_fields)
  let ?a = "scan_start (unat (ack - sb_snd_una b)) b"
  have "ack_loop now (sb_retransmit_queue b) ?a = ([], ?a)" "ack_probe (sb_persist_probe b) ?a = (None, ?a)"
    by (simp_all add: q ack_probe_def)
  note na = new_ack_core [OF this]
  show "core (snd (new_ack C ack w now b)) = (core b)\<lparr>co_una := ack\<rparr>"
    unfolding na(1) using q by (simp add: scan_start_def core_def)
  show "sa_newly_acked (fst (new_ack C ack w now b)) = 0" unfolding na(2) by (simp add: scan_start_def)
qed

lemma new_ack_pend: "pend (snd (new_ack C ack w now b)) = pend b"
  by (metis new_ack_core(3) surj_pair)

definition acked_core :: "u32 \<Rightarrow> SendCore \<Rightarrow> nat \<Rightarrow> SendCore \<Rightarrow> bool" where
  "acked_core ack c n c' \<longleftrightarrow> c' = c \<and> n = 0 \<or> co_closed c \<and> c' = c\<lparr>co_una := ack\<rparr> \<and> n = 0 \<or>
     \<not> co_closed c \<and> unat (ack - co_una c) \<le> units (flight c) \<and> c' = ack_core (unat (ack - co_una c)) ack c \<and>
     n = min (unat (ack - co_una c)) (length (bytes_of (flight c)))"

lemma Send_OnAck_effect:
  assumes inv: "send_inv b"
  shows "acked_core ack (core b) (sa_newly_acked (fst (Send_OnAck C ack w now only ece b)))
      (core (snd (Send_OnAck C ack w now only ece b)))"
    "pend (snd (Send_OnAck C ack w now only ece b)) = pend b"
proof -
  define c where "c = (if ece \<and> \<not> sb_ecn_cwr_queued b then b\<lparr>sb_ecn_cwr_queued := True,
      sb_delivered_ce := sb_delivered_ce b + 1, sb_controller := cc_on_ecn_ce C (sb_controller b)\<rparr> else b)"
  have c: "core c = core b" "pend c = pend b" by (simp_all add: c_def)
  have una: "sb_snd_una c = sb_snd_una b" by (simp add: c_def)
  define ignored where "ignored \<longleftrightarrow> SequenceAfter ack (sb_snd_max b) \<or> SequenceBefore ack (sb_snd_una b)"
  have x: "Send_OnAck C ack w now only ece b = (if ack = sb_snd_una b then duplicate_ack C w now only c else new_ack C ack w now c)"
    if "\<not> ignored" using that by (simp add: Send_OnAck_def ignored_def Let_def c_def)
  have i: "core (snd (Send_OnAck C ack w now only ece b)) = core b" "pend (snd (Send_OnAck C ack w now only ece b)) = pend b"
    "sa_newly_acked (fst (Send_OnAck C ack w now only ece b)) = 0" if "ignored"
    using that by (auto simp: Send_OnAck_def ignored_def TcpSendAckResult_init_def)
  show "pend (snd (Send_OnAck C ack w now only ece b)) = pend b"
    using i x c(2) by (cases ignored) (auto simp: core_duplicate_ack new_ack_pend)
  consider "ignored" | "\<not> ignored" "ack = sb_snd_una b" | "\<not> ignored" "ack \<noteq> sb_snd_una b" "sb_closed b"
    | "\<not> ignored" "ack \<noteq> sb_snd_una b" "\<not> sb_closed b" by blast
  then show "acked_core ack (core b) (sa_newly_acked (fst (Send_OnAck C ack w now only ece b)))
      (core (snd (Send_OnAck C ack w now only ece b)))"
  proof cases
    case 3
    then have "closed_ok (core c)" using inv by (simp add: send_inv_def core_inv_def core_fields c)
    from new_ack_closed [OF this] 3 show ?thesis by (simp add: x acked_core_def c core_fields)
  next
    case 4
    then have o: "open_ok (core b)" "co_limit (core b) < 2 ^ 31"
      using inv by (simp_all add: send_inv_def core_inv_def core_fields)
    have "units (flight (core b)) < 2 ^ 31" "sb_snd_max b = sb_snd_una b + of_nat (units (flight (core b)))"
      using o chain_end [of "sb_snd_una b" "flight (core b)" "sb_snd_nxt b"] by (auto simp: open_ok_def core_fields)
    then have "unat (ack - sb_snd_una c) \<le> units (flight (core c))"
      using ack_in_window [of ack "sb_snd_una b"] 4(1) by (simp add: ignored_def una c)
    from new_ack_effect [OF _ this] o(1) this 4 show ?thesis by (simp add: x acked_core_def c una core_fields)
  qed (use i x in \<open>auto simp: acked_core_def core_duplicate_ack c\<close>)
qed

lemma acked_core_inv:
  assumes "core_inv c" "acked_core ack c n c'"
  shows "core_inv c'"
proof -
  consider "c' = c" | "co_closed c" "c' = c\<lparr>co_una := ack\<rparr>"
    | "\<not> co_closed c" "unat (ack - co_una c) \<le> units (flight c)" "c' = ack_core (unat (ack - co_una c)) ack c"
    using assms(2) by (auto simp: acked_core_def)
  then show ?thesis
  proof cases
    case 2
    then show ?thesis using assms(1) by (simp add: core_inv_def closed_ok_def)
  next
    case 3
    have "co_una c + of_nat (unat (ack - co_una c)) = ack" by simp
    then have "open_ok c'" using ack_core_open [OF _ 3(2)] 3(1,3) assms(1) by (simp add: core_inv_def)
    then show ?thesis using assms(1) 3 by (simp add: core_inv_def) (simp add: ack_core_def)
  qed (use assms in simp)
qed

lemma acked_core_pend:
  assumes "pend_ok c p" "acked_core ack c n c'"
  shows "pend_ok c' p"
  using assms(2) unfolding acked_core_def
  by (elim disjE conjE) (auto intro!: pend_ok_cong [OF assms(1)] simp: ack_core_def)

section \<open>Every operation keeps the invariant\<close>

lemma Enqueue_effect:
  "core (snd (Enqueue d b)) = (core b)\<lparr>co_queue := sb_send_queue b @ take (fst (Enqueue d b)) (case d of None \<Rightarrow> [] | Some x \<Rightarrow> x)\<rparr>"
  "pend (snd (Enqueue d b)) = pend b"
  "fst (Enqueue d b) \<noteq> 0 \<Longrightarrow> \<not> sb_fin_requested b \<and> \<not> sb_closed b"
  "length (sb_send_queue b) \<le> sb_send_queue_limit b \<Longrightarrow>
     length (sb_send_queue b) + fst (Enqueue d b) \<le> sb_send_queue_limit b"
  by (auto simp: Enqueue_def core_def pend_def Let_def split: option.splits)

lemma open_ok_queue: "open_ok c \<Longrightarrow> \<not> co_freq c \<Longrightarrow> open_ok (c\<lparr>co_queue := q\<rparr>)"
  by (auto simp: open_ok_def flight_def)

lemma Enqueue_inv:
  assumes "send_inv b"
  shows "send_inv (snd (Enqueue d b))"
proof (cases "fst (Enqueue d b) = 0")
  case True
  then have "core (snd (Enqueue d b)) = core b" by (simp add: Enqueue_effect(1)) (simp add: core_def)
  then show ?thesis using assms by (simp add: send_inv_def Enqueue_effect(2))
next
  case False
  note e = Enqueue_effect(3) [OF False] and l = Enqueue_effect(4) [of b d]
  define q where "q = sb_send_queue b @ take (fst (Enqueue d b)) (case d of None \<Rightarrow> [] | Some x \<Rightarrow> x)"
  have "length q \<le> sb_send_queue_limit b" "length (sb_send_queue b) \<le> length q"
    using assms l by (auto simp: q_def send_inv_def core_inv_def core_fields)
  moreover have "open_ok ((core b)\<lparr>co_queue := q\<rparr>)"
    using assms e by (intro open_ok_queue) (auto simp: send_inv_def core_inv_def core_fields)
  ultimately have "core_inv ((core b)\<lparr>co_queue := q\<rparr>)" using assms e by (simp add: send_inv_def core_inv_def core_fields)
  moreover have "pend_ok ((core b)\<lparr>co_queue := q\<rparr>) (pend b)"
    using assms e \<open>length (sb_send_queue b) \<le> length q\<close>
    by (auto simp: send_inv_def pend_ok_def pend_def core_fields)
  ultimately show ?thesis by (simp add: send_inv_def Enqueue_effect(1,2) q_def)
qed

lemma RequestFin_effect:
  "core (snd (RequestFin b)) = (if sb_fin_requested b \<or> sb_closed b then core b else (core b)\<lparr>co_freq := True\<rparr>)"
  "pend (snd (RequestFin b)) = pend b"
  by (auto simp: RequestFin_def core_def pend_def)

lemma open_ok_fin: "open_ok c \<Longrightarrow> open_ok (c\<lparr>co_freq := True\<rparr>)"
  by (simp add: open_ok_def flight_def)

lemma RequestFin_inv:
  assumes "send_inv b"
  shows "send_inv (snd (RequestFin b))"
proof -
  have "core_inv ((core b)\<lparr>co_freq := True\<rparr>)"
    using assms open_ok_fin [of "core b"] by (simp add: send_inv_def core_inv_def closed_ok_def split: if_splits)
  moreover have "pend_ok ((core b)\<lparr>co_freq := True\<rparr>) (pend b)"
    using assms by (simp add: send_inv_def pend_ok_def case_prod_unfold)
  ultimately show ?thesis using assms by (simp add: send_inv_def RequestFin_effect)
qed

lemma sack_records_pieces: "map piece_of (fst (sack_records blocks rq)) = map piece_of rq"
  by (induction rq) (auto simp: split_beta Let_def)

lemma OnSack_effect: "core (snd (OnSack C blocks b)) = core b" "pend (snd (OnSack C blocks b)) = pend b"
  using sack_records_pieces [of blocks "sb_retransmit_queue b"]
  by (auto simp: OnSack_def Let_def split_beta) (simp_all add: core_def pend_def)

lemma UpdateMss_effect:
  "core (Send_UpdateMss C mss b) = (if mss = 0 then core b else (core b)\<lparr>co_mss := mss\<rparr>)"
  by (simp add: Send_UpdateMss_def core_def Let_def)

lemma UpdateMss_inv: "send_inv b \<Longrightarrow> send_inv (Send_UpdateMss C mss b)"
  by (auto simp: send_inv_def UpdateMss_effect core_inv_def open_ok_def flight_def closed_ok_def pend_ok_def split: prod.splits)

datatype send_op =
  SoEnqueue "bytes option" | SoFin | SoNext u32 u64 | SoSent "bytes option" nat u64 | SoAck u32 u32 u64 bool bool
| SoSack TcpSackBlockList | SoMss u16 | SoReset | SoPersist u64 | SoCancel

fun send_step :: "'c controller \<Rightarrow> send_op \<Rightarrow> 'c TcpSendBuffer \<Rightarrow> 'c TcpSendBuffer" where
  "send_step C (SoEnqueue d) b = snd (Enqueue d b)"
| "send_step C SoFin b = snd (RequestFin b)"
| "send_step C (SoNext peer_window now) b = snd (NextSegment C peer_window now b)"
| "send_step C (SoSent owner off now) b = OnSent C owner off now b"
| "send_step C (SoAck ack peer_window now ack_only ece) b = snd (Send_OnAck C ack peer_window now ack_only ece b)"
| "send_step C (SoSack blocks) b = snd (OnSack C blocks b)"
| "send_step C (SoMss mss) b = Send_UpdateMss C mss b"
| "send_step C SoReset b = ResetPending b"
| "send_step C (SoPersist now) b = ArmPersistTimer now b"
| "send_step C SoCancel b = CancelTimers b"

lemma send_step_inv: "send_inv b \<Longrightarrow> send_inv (send_step C op b)"
proof (cases op)
  case (SoAck ack w now only ece)
  assume "send_inv b"
  with Send_OnAck_effect [OF this, where C = C and ack = ack and w = w and now = now and only = only and ece = ece] SoAck show ?thesis
    by (auto simp: send_inv_def intro: acked_core_inv acked_core_pend)
next
  case SoReset
  assume "send_inv b"
  then show ?thesis using SoReset by (simp add: send_inv_def pend_ok_def) (simp add: ResetPending_def pend_def)
qed (simp_all add: Enqueue_inv RequestFin_inv NextSegment_effect OnSent_inv UpdateMss_inv, simp_all add: send_inv_def OnSack_effect)

interpretation sender: machine "send_step C" send_inv for C
  by unfold_locales (rule send_step_inv)

section \<open>The stream of the application\<close>

text \<open>
  The reachable send buffers of a connection with initial sequence number \<open>isn\<close>, with the bytes the
  application has handed over so far and how many of them are acknowledged. The caller of \<open>OnSent\<close> hands over a
  buffer that holds the payload of the segment it serialized.
\<close>

inductive sends :: "'c controller \<Rightarrow> u32 \<Rightarrow> 'c TcpSendBuffer \<Rightarrow> bytes \<Rightarrow> nat \<Rightarrow> bool" for C isn where
  start: "mss \<noteq> 0 \<Longrightarrow> retransmit_limit < 2 ^ 31 \<Longrightarrow>
    sends C isn (TcpSendBuffer_init isn mss queue_limit retransmit_limit initial_rto min_rto max_rto persist_base
      persist_max max_retransmissions max_probes alg c) [] 0"
| enqueue: "sends C isn b D n \<Longrightarrow>
    sends C isn (snd (Enqueue (Some d) b)) (D @ take (fst (Enqueue (Some d) b)) d) n"
| request_fin: "sends C isn b D n \<Longrightarrow> sends C isn (snd (RequestFin b)) D n"
| next_segment: "sends C isn b D n \<Longrightarrow> sends C isn (snd (NextSegment C w now b)) D n"
| sent: "sends C isn b D n \<Longrightarrow>
    (\<And>data. sb_pending_kind b \<in> {PK_NewData, PK_PersistNew} \<Longrightarrow>
       backing owner off (pending_payload_length b) = Some data \<Longrightarrow>
       data = take (pending_payload_length b) (sb_send_queue b)) \<Longrightarrow>
    sends C isn (OnSent C owner off now b) D n"
| ack: "sends C isn b D n \<Longrightarrow>
    sends C isn (snd (Send_OnAck C acknowledgment w now ack_only ece b)) D
      (n + sa_newly_acked (fst (Send_OnAck C acknowledgment w now ack_only ece b)))"
| sack: "sends C isn b D n \<Longrightarrow> sends C isn (snd (OnSack C blocks b)) D n"
| update_mss: "sends C isn b D n \<Longrightarrow> sends C isn (Send_UpdateMss C m b) D n"
| reset_pending: "sends C isn b D n \<Longrightarrow> sends C isn (ResetPending b) D n"
| arm_persist: "sends C isn b D n \<Longrightarrow> sends C isn (ArmPersistTimer now b) D n"
| cancel_timers: "sends C isn b D n \<Longrightarrow> sends C isn (CancelTimers b) D n"

definition stream_ok :: "u32 \<Rightarrow> SendCore \<Rightarrow> bytes \<Rightarrow> nat \<Rightarrow> bool" where
  "stream_ok isn c D n \<longleftrightarrow> n \<le> length D \<and> (\<not> co_closed c \<longrightarrow> outstanding c = drop n D \<and>
     co_una c = isn + of_nat (n + (if co_facked c then 1 else 0)))"

lemma init_inv:
  assumes "mss \<noteq> 0" "retransmit_limit < 2 ^ 31"
  shows "send_inv (TcpSendBuffer_init isn mss queue_limit retransmit_limit initial_rto min_rto max_rto persist_base
      persist_max max_retransmissions max_probes alg c)"
  using assms by (simp add: send_inv_def core_inv_def open_ok_def core_fields flight_def pend_ok_def pend_def TcpSendBuffer_init_def)

lemma stream_ok_close: "stream_ok isn c D n \<Longrightarrow> stream_ok isn (close_core c) D n"
  by (simp add: stream_ok_def close_core_def)

lemma stream_ok_cong:
  "stream_ok isn c D n \<Longrightarrow> outstanding c' = outstanding c \<Longrightarrow> co_una c' = co_una c \<Longrightarrow> co_facked c' = co_facked c \<Longrightarrow>
     co_closed c' = co_closed c \<Longrightarrow> stream_ok isn c' D n"
  by (simp add: stream_ok_def)

lemma stream_ok_sent:
  assumes "stream_ok isn (core b) D n" "sent_core owner off b c'"
    "\<And>data. sb_pending_kind b \<in> {PK_NewData, PK_PersistNew} \<Longrightarrow> backing owner off (pending_payload_length b) = Some data \<Longrightarrow>
       data = take (pending_payload_length b) (sb_send_queue b)"
  shows "stream_ok isn c' D n"
proof -
  have same: "co_una (store_core f l d c) = co_una c" "co_una (probe_core f l d c) = co_una c"
    "co_facked (store_core f l d c) = co_facked c" "co_facked (probe_core f l d c) = co_facked c"
    "co_closed (store_core f l d c) = co_closed c" "co_closed (probe_core f l d c) = co_closed c"
    "co_una (promote_core c) = co_una c" "co_facked (promote_core c) = co_facked c"
    "co_closed (promote_core c) = co_closed c" for f l d c
    by (simp_all add: store_core_def probe_core_def push_core_def promote_core_def)
  consider "c' = core b" | "c' = close_core (core b)" | "c' = promote_core (core b)"
    | data where "storable (core b) (sb_pending_is_fin b) (sb_pending_len b) data"
      "data = take (pending_payload_length b) (sb_send_queue b)"
      "c' = store_core (sb_pending_is_fin b) (sb_pending_len b) data (core b) \<or>
       c' = probe_core (sb_pending_is_fin b) (sb_pending_len b) data (core b)"
    using assms(2,3) by (auto simp: sent_core_def)
  then show ?thesis
  proof cases
    case 4
    then show ?thesis using pushed_outstanding [OF 4(1)] same
      by (auto intro!: stream_ok_cong [OF assms(1)] simp: pending_payload_length_def core_fields)
  qed (use assms(1) in \<open>auto intro: stream_ok_close stream_ok_cong simp: promote_core_props same\<close>)
qed

lemma fin_units:
  assumes "u = l + (if s \<and> \<not> a then 1 else 0)" "k \<le> u" "a \<Longrightarrow> u = 0"
  shows "k + (if a then 1 else 0) = min k l + (if a \<or> (s \<and> \<not> a \<and> u \<le> k) then 1 else (0 :: nat))"
  using assms by (cases a; cases s) auto

lemma stream_ok_acked:
  assumes "stream_ok isn c D n" "core_inv c" "acked_core ack c m c'"
  shows "stream_ok isn c' D (n + m)"
proof -
  consider "c' = c" "m = 0" | "co_closed c" "c' = c\<lparr>co_una := ack\<rparr>" "m = 0"
    | "\<not> co_closed c" "unat (ack - co_una c) \<le> units (flight c)" "c' = ack_core (unat (ack - co_una c)) ack c"
      "m = min (unat (ack - co_una c)) (length (bytes_of (flight c)))"
    using assms(3) by (auto simp: acked_core_def)
  then show ?thesis
  proof cases
    case 3
    let ?k = "unat (ack - co_una c)"
    have o: "open_ok c" using assms(2) 3(1) by (simp add: core_inv_def)
    have out: "outstanding c' = drop m (outstanding c)" using ack_core_outstanding [OF o 3(2)] 3(3,4) by simp
    have d: "outstanding c = drop n D" "n \<le> length D" "co_una c = isn + of_nat (n + (if co_facked c then 1 else 0))"
      using assms(1) 3(1) by (simp_all add: stream_ok_def)
    have "m \<le> length (outstanding c)" using 3(4) by (simp add: outstanding_def)
    then have "n + m \<le> length D" using d(1,2) by simp
    moreover have "co_una c' = isn + of_nat (n + m + (if co_facked c' then 1 else 0))"
    proof -
      have t: "units (flight c) = length (bytes_of (flight c)) + (if co_fsent c \<and> \<not> co_facked c then 1 else 0)"
        using o pieces_total by (auto simp: open_ok_def)
      have "co_facked c \<Longrightarrow> units (flight c) = 0" using o by (simp add: open_ok_def)
      from fin_units [OF t 3(2) this] have "?k + (if co_facked c then 1 else 0) = m + (if co_facked c' then 1 else 0)"
        by (simp add: 3(3,4) ack_core_def)
      then have e: "(n + (if co_facked c then 1 else 0)) + ?k = n + m + (if co_facked c' then 1 else 0)" by linarith
      have "co_una c + of_nat k = isn + of_nat ((n + (if co_facked c then 1 else 0)) + k)" for k
        by (simp only: d(3) of_nat_add add.assoc)
      from this [of ?k] show ?thesis unfolding e by (simp add: 3(3) ack_core_def)
    qed
    moreover have "\<not> co_closed c'" using 3(1,3) by (simp add: ack_core_def)
    ultimately show ?thesis using out d(1) by (simp add: stream_ok_def add.commute)
  qed (use assms(1) in \<open>auto simp: stream_ok_def\<close>)
qed

lemma sends_inv: "sends C isn b D n \<Longrightarrow> send_inv b \<and> stream_ok isn (core b) D n"
proof (induction rule: sends.induct)
  case (start mss retransmit_limit)
  then show ?case
    by (simp add: init_inv stream_ok_def outstanding_def flight_def core_fields) (simp add: TcpSendBuffer_init_def)
next
  case (enqueue b D n d)
  define k where "k = fst (Enqueue (Some d) b)"
  have "outstanding ((core b)\<lparr>co_queue := sb_send_queue b @ take k d\<rparr>) = outstanding (core b) @ take k d"
    by (simp add: outstanding_def flight_def core_fields)
  then show ?case using enqueue.IH Enqueue_inv [of b "Some d"]
    by (auto simp: Enqueue_effect(1) k_def [symmetric] stream_ok_def)
next
  case (request_fin b D n)
  then show ?case using RequestFin_inv [of b]
    by (auto simp: RequestFin_effect intro!: stream_ok_cong [of isn "core b" D n] simp: outstanding_def flight_def)
next
  case (next_segment b D n w now)
  then show ?case using NextSegment_effect [of b C w now] by (auto intro: stream_ok_close)
next
  case (sent b D n owner off now)
  then show ?case using OnSent_inv [of b C owner off now] stream_ok_sent [OF _ OnSent_effect] by blast
next
  case (ack b D n acknowledgment w now ack_only ece)
  then have inv: "send_inv b" "stream_ok isn (core b) D n" by simp_all
  then have "core_inv (core b)" by (simp add: send_inv_def)
  from stream_ok_acked [OF inv(2) this Send_OnAck_effect(1) [OF inv(1)]]
  show ?case using send_step_inv [OF inv(1), of C "SoAck acknowledgment w now ack_only ece"] by simp
next
  case (sack b D n blocks)
  then show ?case using send_step_inv [of b C "SoSack blocks"] by (simp add: OnSack_effect)
next
  case (update_mss b D n m)
  then show ?case using UpdateMss_inv [of b C m]
    by (auto simp: UpdateMss_effect intro!: stream_ok_cong [of isn "core b" D n] simp: outstanding_def flight_def)
next
  case (reset_pending b D n)
  then show ?case using send_step_inv [of b C SoReset] by simp
next
  case (arm_persist b D n now)
  then show ?case using send_step_inv [of b C "SoPersist now"] by simp
next
  case (cancel_timers b D n)
  then show ?case using send_step_inv [of b C SoCancel] by simp
qed

text \<open>
  C2: Every segment the send buffer chooses, be it new data, a retransmission or a zero-window probe,
  carries exactly the bytes the application wrote at the stream positions of its sequence numbers, all of them not yet
  acknowledged; a FIN is only sent once the application asked for it, right after the last byte.
  This holds for every congestion controller and after any interleaving of writes, transmissions,
  acknowledgments (also forged ones), SACK blocks, MSS changes and timeouts.\<close>

theorem send_segments_carry_stream:
  assumes "sends C isn b D n" "NextSegment C w now b = (r, b')" "sn_has_segment r"
  shows "\<exists>p. sn_sequence r = isn + of_nat p \<and> n \<le> p \<and> p + length (sn_payload r) \<le> length D \<and>
    sn_payload r = take (length (sn_payload r)) (drop p D) \<and>
    (sn_is_fin r \<longrightarrow> sb_fin_requested b \<and> p + length (sn_payload r) = length D)"
proof -
  have inv: "send_inv b" "stream_ok isn (core b) D n" using sends_inv [OF assms(1)] by simp_all
  from NextSegment_effect [OF inv(1), of C w now] assms(2,3)
  have "\<not> co_closed (core b)" "seg_ok (core b) r" by (simp_all add: core_fields)
  then obtain k where k: "sn_sequence r = co_una (core b) + of_nat k" "k + length (sn_payload r) \<le> length (drop n D)"
    "sn_payload r = take (length (sn_payload r)) (drop k (drop n D))"
    "sn_is_fin r \<Longrightarrow> sb_fin_requested b \<and> k + length (sn_payload r) = length (drop n D)"
    "co_una (core b) = isn + of_nat n" "n \<le> length D"
    using inv(2) by (auto simp: seg_ok_def stream_ok_def core_fields)
  have pay: "sn_payload r = take (length (sn_payload r)) (drop (n + k) D)" using k(3) by (simp add: add.commute)
  show ?thesis by (rule exI [of _ "n + k"]) (use k pay in \<open>auto simp: add.assoc\<close>)
qed

text \<open>Three bytes written, two of them sent into a window of two, and the timeout of that segment.\<close>

definition sample_sender :: "AimdController TcpSendBuffer" where
  "sample_sender = snd (Enqueue (Some [1, 2, 3])
     (TcpSendBuffer_init 1000 1460 100 100 1000 200 60000 500 60000 15 15 CA_Aimd (AimdController_init 1460)))"

definition sample_sent :: "AimdController TcpSendBuffer" where
  "sample_sent = OnSent aimd_ops (Some [0, 1, 2]) 1 0 (snd (NextSegment aimd_ops 2 0 sample_sender))"

lemma sample_sends: "sends aimd_ops 1000 sample_sender [1, 2, 3] 0" "sends aimd_ops 1000 sample_sent [1, 2, 3] 0"
proof -
  let ?i = "TcpSendBuffer_init 1000 1460 100 100 1000 200 60000 500 60000 15 15 CA_Aimd (AimdController_init 1460)"
  let ?n = "snd (NextSegment aimd_ops 2 0 sample_sender)"
  have "sends aimd_ops 1000 ?i [] 0" by (rule sends.start) simp_all
  from sends.enqueue [OF this, of "[1, 2, 3]"]
  show s: "sends aimd_ops 1000 sample_sender [1, 2, 3] 0" by (simp add: sample_sender_def Enqueue_def TcpSendBuffer_init_def)
  have "pending_payload_length ?n = 2" "take 2 (sb_send_queue ?n) = [1, 2]" "backing (Some [0, 1, 2]) 1 2 = Some [1, 2]"
    by code_simp+
  with sends.next_segment [OF s, of 2 0] show "sends aimd_ops 1000 sample_sent [1, 2, 3] 0"
    unfolding sample_sent_def by (intro sends.sent) simp_all
qed

theorem send_segments_carry_stream_witness:
  "\<exists>p. sn_sequence (fst (NextSegment aimd_ops 10 5000 sample_sent)) = 1000 + of_nat p \<and> p + 2 \<le> 3 \<and>
     [1, 2] = take 2 (drop p [1, 2, 3 :: u8])"
proof -
  let ?r = "fst (NextSegment aimd_ops 10 5000 sample_sent)"
  have "let r = ?r in sn_has_segment r \<and> sn_payload r = [1, 2]" by code_simp
  then have f: "sn_has_segment ?r" "sn_payload ?r = [1, 2]" unfolding Let_def by blast+
  have l: "length (sn_payload ?r) = 2" "length [1, 2, 3 :: u8] = 3" by (simp_all add: f(2))
  from send_segments_carry_stream [OF sample_sends(2) prod.collapse [symmetric] f(1), unfolded l, unfolded f(2)]
  show ?thesis by blast
qed

text \<open>
  C10: For a nonzero MSS and a retransmission queue limit below \<open>2^31\<close>, the queues of the send buffer
  are consistent whatever the application, the peer and the timers do: the
  records in flight are consecutive from \<open>snd_una\<close> to \<open>snd_nxt\<close>, their lengths add up to the
  counters used for the congestion window, and both the unsent and the retransmission queue stay
  within their limits.\<close>

theorem send_buffer_invariant:
  assumes "mss \<noteq> 0" "retransmit_limit < 2 ^ 31"
    "b = run (send_step C) ops (TcpSendBuffer_init isn mss queue_limit retransmit_limit initial_rto min_rto max_rto
    persist_base persist_max max_retransmissions max_probes alg c)"
  shows "length (sb_send_queue b) \<le> sb_send_queue_limit b \<and>
    sb_in_flight_sequence b = units (map piece_of (sb_retransmit_queue b)) \<and>
    sb_in_flight_bytes b = length (bytes_of (map piece_of (sb_retransmit_queue b))) \<and>
    sb_retransmit_bytes b = units (map piece_of (sb_retransmit_queue b @ opt_list (sb_persist_probe b))) \<and>
    (sb_closed b \<or> sb_retransmit_bytes b \<le> sb_retransmit_limit b \<and> sb_snd_max b = sb_snd_nxt b \<and>
       chain (sb_snd_una b) (map piece_of (sb_retransmit_queue b @ opt_list (sb_persist_probe b))) (sb_snd_nxt b))"
proof -
  have "send_inv b" unfolding assms(3) by (intro sender.run_inv init_inv assms(1,2))
  then have "core_inv (core b)" by (simp add: send_inv_def)
  then show ?thesis by (cases "sb_closed b") (simp_all add: core_inv_def closed_ok_def open_ok_def flight_def core_fields)
qed

theorem send_buffer_invariant_witness:
  "chain 1000 (map piece_of (sb_retransmit_queue sample_sent)) 1002 \<and> sb_in_flight_bytes sample_sent = 2"
proof -
  have b: "sample_sent = run (send_step aimd_ops) [SoEnqueue (Some [1, 2, 3]), SoNext 2 0, SoSent (Some [0, 1, 2]) 1 0]
     (TcpSendBuffer_init 1000 1460 100 100 1000 200 60000 500 60000 15 15 CA_Aimd (AimdController_init 1460))"
    by (simp add: sample_sent_def sample_sender_def)
  have "sb_persist_probe sample_sent = None" "\<not> sb_closed sample_sent" "sb_snd_una sample_sent = 1000"
    "sb_snd_nxt sample_sent = 1002" "sb_in_flight_bytes sample_sent = 2" by code_simp+
  with send_buffer_invariant [OF _ _ b] show ?thesis by simp
qed

section \<open>Progress\<close>

lemma prepare_retransmission_progress:
  assumes "open_ok (core b)" "sb_retransmit_queue b = rec # rest" "sb_mss b' \<noteq> 0" "w \<noteq> 0"
  shows "sn_has_segment (fst (prepare_retransmission w rec kind r b')) \<and>
    sn_sequence (fst (prepare_retransmission w rec kind r b')) = sb_snd_una b"
proof -
  have w: "unat (sb_mss b') > 0" "unat w > 0" using assms(3,4) by (simp_all add: word_gt_0 unat_gt_0)
  have "pieces_ok (co_fsent (core b) \<and> \<not> co_facked (core b)) (flight (core b))" "sr_seq rec = sb_snd_una b"
    using assms(1,2) by (auto simp: open_ok_def flight_def core_fields)
  then have "sr_data rec \<noteq> [] \<or> unat (sr_logical_length rec) > length (sr_data rec)"
    using assms(2) by (auto simp: flight_def core_fields split: if_splits)
  then show ?thesis using w \<open>sr_seq rec = sb_snd_una b\<close>
    by (auto simp: prepare_retransmission_def Let_def min_def)
qed

lemma new_segment_progress:
  assumes "sb_mss b \<noteq> 0" "UsableWindow C w b \<noteq> 0" "sb_retransmit_bytes b < sb_retransmit_limit b"
    "sb_send_queue b \<noteq> [] \<or> sb_fin_requested b \<and> \<not> sb_fin_sent b"
  shows "sn_has_segment (fst (new_segment C w r b)) \<and> sn_sequence (fst (new_segment C w r b)) = sb_snd_nxt b"
proof -
  have "unat (sb_mss b) \<noteq> 0" using assms(1) by (simp add: unat_eq_0)
  then have pos: "sb_send_queue b \<noteq> [] \<Longrightarrow> min (min (min (length (sb_send_queue b)) (unat (sb_mss b))) (UsableWindow C w b))
      (sb_retransmit_limit b - sb_retransmit_bytes b) \<noteq> 0"
    using assms(2,3) by (simp add: min_def)
  show ?thesis
  proof (cases "sb_send_queue b = []")
    case True
    then show ?thesis using assms by (simp add: new_segment_def Let_def)
  next
    case False
    then show ?thesis by (simp add: new_segment_def Let_def pos [OF False] del: min_less_iff_conj)
  qed
qed

lemma NextSegment_open:
  assumes "\<not> sb_closed b" "sb_pending_kind b = PK_None" "w \<noteq> 0" "sb_persist_probe b = None"
  obtains b' r where "NextSegment C w now b = next_open_window C w now r b'" "core b' = core b"
    "sb_controller b' = sb_controller b" "sb_next_send_time_ms b' = sb_next_send_time_ms b"
    "sb_rto_running b' = sb_rto_running b" "sb_rto_deadline_ms b' = sb_rto_deadline_ms b"
    "sb_retransmit_queue b' = sb_retransmit_queue b" "sb_persist_probe b' = None"
    "sb_sacked_sequence b' = sb_sacked_sequence b"
proof -
  define b1 where "b1 = (if \<not> sb_peer_window_valid b
      then b\<lparr>sb_last_peer_window := w, sb_peer_window_valid := True\<rparr> else b)"
  define b2 where "b2 = b1\<lparr>sb_pending_set_cwr := sb_ecn_cwr_queued b1\<rparr>"
  have "NextSegment C w now b = next_open_window C w now (TcpSendNextResult_init\<lparr>sn_set_cwr := sb_pending_set_cwr b2\<rparr>) b2"
    using assms by (simp add: NextSegment_def Let_def b2_def b1_def)
  then show thesis by (rule that) (simp_all add: b2_def b1_def assms(4))
qed

text \<open>
  C9: The sender never stalls: while its window is open, an expired retransmission timer makes the next call send from
  the first unacknowledged byte, and with nothing in flight unsent data (or an unsent FIN) goes out as
  soon as the pacing deadline has passed.\<close>

theorem sender_makes_progress:
  assumes "sends C isn b D n" "\<not> sb_closed b" "sb_pending_kind b = PK_None" "w \<noteq> 0" "sb_persist_probe b = None"
    "sb_retransmit_queue b \<noteq> [] \<and> RetransmitExpired now b \<or>
     sb_retransmit_queue b = [] \<and> (sb_send_queue b \<noteq> [] \<or> sb_fin_requested b \<and> \<not> sb_fin_sent b) \<and>
     sb_retransmit_limit b \<noteq> 0 \<and> cc_cwnd C (sb_controller b) \<noteq> 0 \<and> sb_next_send_time_ms b \<le> now"
  shows "sn_has_segment (fst (NextSegment C w now b)) \<and> sn_sequence (fst (NextSegment C w now b)) = sb_snd_una b"
proof -
  have o: "open_ok (core b)" and mss: "sb_mss b \<noteq> 0"
    using sends_inv [OF assms(1)] assms(2) by (simp_all add: send_inv_def core_inv_def core_fields)
  obtain c r where x: "NextSegment C w now b = next_open_window C w now r c" and c: "core c = core b"
    "sb_controller c = sb_controller b" "sb_next_send_time_ms c = sb_next_send_time_ms b"
    "sb_rto_running c = sb_rto_running b" "sb_rto_deadline_ms c = sb_rto_deadline_ms b"
    "sb_retransmit_queue c = sb_retransmit_queue b" "sb_persist_probe c = None"
    using NextSegment_open [OF assms(2-5)] by metis
  have same: "sb_mss c = sb_mss b" "sb_closed c = sb_closed b" "sb_send_queue c = sb_send_queue b"
    "sb_fin_requested c = sb_fin_requested b" "sb_fin_sent c = sb_fin_sent b" "sb_retransmit_bytes c = sb_retransmit_bytes b"
    "sb_retransmit_limit c = sb_retransmit_limit b" "sb_in_flight_sequence c = sb_in_flight_sequence b"
    "sb_snd_nxt c = sb_snd_nxt b"
    using c(1) by (metis core_fields)+
  show ?thesis
  proof (cases "sb_retransmit_queue b")
    case (Cons rec rest)
    then have e: "RetransmitExpired now b" using assms(6) by simp
    have "RetransmitExpired now (CancelPersist c)" "sb_rto_running (CancelPersist c)"
      using e c same by (simp_all add: RetransmitExpired_def CancelPersist_def)
    then have "\<exists>kind. NextSegment C w now b = prepare_retransmission w rec kind r (CancelPersist c)"
      unfolding x next_open_window_def Let_def using c(6,7) Cons by (auto simp: CancelPersist_def)
    then show ?thesis
      using prepare_retransmission_progress [OF o Cons, of "CancelPersist c" w] mss same assms(4)
      by (auto simp: CancelPersist_def)
  next
    case Nil
    have z: "sb_retransmit_bytes b = 0" "sb_in_flight_sequence b = 0" "sb_snd_nxt b = sb_snd_una b"
      using o Nil assms(5) by (simp_all add: open_ok_def flight_def core_fields)
    let ?d = "CancelPersist c"
    have f: "sb_retransmit_queue ?d = []" "sb_persist_probe ?d = None" "sb_controller ?d = sb_controller b"
      "sb_in_flight_sequence ?d = 0" "sb_retransmit_bytes ?d = 0" "sb_retransmit_limit ?d = sb_retransmit_limit b"
      "sb_send_queue ?d = sb_send_queue b" "sb_fin_requested ?d = sb_fin_requested b" "sb_fin_sent ?d = sb_fin_sent b"
      "sb_mss ?d = sb_mss b" "sb_snd_nxt ?d = sb_snd_una b" "sb_next_send_time_ms ?d = sb_next_send_time_ms b"
      using c Nil same z by (simp_all add: CancelPersist_def)
    have u: "UsableWindow C w ?d \<noteq> 0"
      using assms(4,6) Nil f by (simp add: UsableWindow_def Let_def min_def unat_eq_0 unat_gt_0)
    then have "CanSendNew C w ?d" "\<not> now < sb_next_send_time_ms ?d"
      using assms(4,6) Nil f by (auto simp: CanSendNew_def not_less)
    then have "NextSegment C w now b = new_segment C w r ?d"
      unfolding x next_open_window_def Let_def using f(1,2) by simp
    then show ?thesis using new_segment_progress [of ?d C w r] u assms(6) Nil mss f by simp
  qed
qed

theorem sender_makes_progress_witness:
  "sn_has_segment (fst (NextSegment aimd_ops 10 5000 sample_sent)) \<and>
   sn_sequence (fst (NextSegment aimd_ops 10 5000 sample_sent)) = 1000"
proof -
  have "let b = sample_sent in \<not> sb_closed b \<and> sb_pending_kind b = PK_None \<and> sb_persist_probe b = None \<and>
    sb_retransmit_queue b \<noteq> [] \<and> RetransmitExpired 5000 b \<and> sb_snd_una b = 1000" by code_simp
  then have "\<not> sb_closed sample_sent" "sb_pending_kind sample_sent = PK_None" "sb_persist_probe sample_sent = None"
    "sb_retransmit_queue sample_sent \<noteq> []" "RetransmitExpired 5000 sample_sent" "sb_snd_una sample_sent = 1000"
    unfolding Let_def by blast+
  with sender_makes_progress [OF sample_sends(2), of 10 5000] show ?thesis by simp
qed

end
