(* ===== verification/TcpSendTimers.thy ===== *)
theory TcpSendTimers
  imports TcpSendCorrect
begin

text \<open>
  The timers of the send buffer stay within their configured bounds, and a defect of the SACK accounting:
  an acknowledgment of a part of a SACKed record leaves the rest of it counted as SACKed.
\<close>

section \<open>Bounds of the timers\<close>

definition timers_ok :: "'c TcpSendBuffer \<Rightarrow> bool" where
  "timers_ok b \<longleftrightarrow> sb_min_rto_ms b \<le> sb_rto_ms b \<and> sb_rto_ms b \<le> sb_max_rto_ms b \<and>
     sb_persist_base_ms b \<le> sb_persist_max_ms b \<and> sb_persist_current_ms b \<le> sb_persist_max_ms b"

lemma timers_frame [simp]:
  "timers_ok (b\<lparr>sb_send_queue := q\<rparr>) = timers_ok b" "timers_ok (b\<lparr>sb_retransmit_queue := rq\<rparr>) = timers_ok b"
  "timers_ok (b\<lparr>sb_retransmit_bytes := n\<rparr>) = timers_ok b" "timers_ok (b\<lparr>sb_in_flight_bytes := n\<rparr>) = timers_ok b"
  "timers_ok (b\<lparr>sb_in_flight_sequence := n\<rparr>) = timers_ok b" "timers_ok (b\<lparr>sb_persist_probe := p\<rparr>) = timers_ok b"
  "timers_ok (b\<lparr>sb_sacked_bytes := n\<rparr>) = timers_ok b" "timers_ok (b\<lparr>sb_sacked_sequence := u\<rparr>) = timers_ok b"
  "timers_ok (b\<lparr>sb_snd_una := u\<rparr>) = timers_ok b" "timers_ok (b\<lparr>sb_snd_nxt := u\<rparr>) = timers_ok b"
  "timers_ok (b\<lparr>sb_snd_max := u\<rparr>) = timers_ok b" "timers_ok (b\<lparr>sb_controller := c\<rparr>) = timers_ok b"
  "timers_ok (b\<lparr>sb_sampler := sm\<rparr>) = timers_ok b" "timers_ok (b\<lparr>sb_mss := m\<rparr>) = timers_ok b"
  "timers_ok (b\<lparr>sb_rto_deadline_ms := t\<rparr>) = timers_ok b" "timers_ok (b\<lparr>sb_rto_running := x\<rparr>) = timers_ok b"
  "timers_ok (b\<lparr>sb_srtt_valid := x\<rparr>) = timers_ok b" "timers_ok (b\<lparr>sb_srtt_ms := t\<rparr>) = timers_ok b"
  "timers_ok (b\<lparr>sb_rttvar_ms := t\<rparr>) = timers_ok b" "timers_ok (b\<lparr>sb_dup_ack_count := n\<rparr>) = timers_ok b"
  "timers_ok (b\<lparr>sb_last_peer_window := u\<rparr>) = timers_ok b" "timers_ok (b\<lparr>sb_peer_window_valid := x\<rparr>) = timers_ok b"
  "timers_ok (b\<lparr>sb_fast_retransmit_pending := x\<rparr>) = timers_ok b" "timers_ok (b\<lparr>sb_retransmission_count := n\<rparr>) = timers_ok b"
  "timers_ok (b\<lparr>sb_persist_deadline_ms := t\<rparr>) = timers_ok b" "timers_ok (b\<lparr>sb_persist_probe_count := n\<rparr>) = timers_ok b"
  "timers_ok (b\<lparr>sb_fin_requested := x\<rparr>) = timers_ok b" "timers_ok (b\<lparr>sb_fin_sent := x\<rparr>) = timers_ok b"
  "timers_ok (b\<lparr>sb_fin_acked := x\<rparr>) = timers_ok b" "timers_ok (b\<lparr>sb_closed := x\<rparr>) = timers_ok b"
  "timers_ok (b\<lparr>sb_next_send_time_ms := t\<rparr>) = timers_ok b" "timers_ok (b\<lparr>sb_pending_kind := k\<rparr>) = timers_ok b"
  "timers_ok (b\<lparr>sb_pending_is_fin := x\<rparr>) = timers_ok b" "timers_ok (b\<lparr>sb_pending_set_cwr := x\<rparr>) = timers_ok b"
  "timers_ok (b\<lparr>sb_pending_seq := u\<rparr>) = timers_ok b" "timers_ok (b\<lparr>sb_pending_len := n\<rparr>) = timers_ok b"
  "timers_ok (b\<lparr>sb_ecn_cwr_queued := x\<rparr>) = timers_ok b" "timers_ok (b\<lparr>sb_delivered_ce := t\<rparr>) = timers_ok b"
  by (simp_all add: timers_ok_def)

lemma double_le: "r \<le> m div 2 \<Longrightarrow> r * 2 \<le> (m :: u64) \<and> r \<le> r * 2"
proof -
  assume a: "r \<le> m div 2"
  have m: "unat m < 2 ^ 64" using unsigned_less [where 'a = nat, of m] by simp
  have "unat r \<le> unat m div 2" using a by (simp add: word_le_nat_alt unat_div)
  then have "unat (r * 2) = unat r * 2" using m by (subst unat_mult_lem [THEN iffD1]) auto
  with \<open>unat r \<le> unat m div 2\<close> show ?thesis by (simp add: word_le_nat_alt)
qed

lemma timers_RecomputeRto [simp]: "timers_ok b \<Longrightarrow> timers_ok (RecomputeRto rtt b)"
  by (auto simp: RecomputeRto_def timers_ok_def Let_def)

lemma timers_BackoffRto [simp]: "timers_ok b \<Longrightarrow> timers_ok (BackoffRto b)"
  using double_le [of "sb_rto_ms b" "sb_max_rto_ms b"]
  by (auto simp: BackoffRto_def timers_ok_def not_less intro: order_trans)

lemma timers_ArmRto [simp]: "timers_ok (ArmRto now b) = timers_ok b"
  by (simp add: ArmRto_def)

lemma timers_persist [simp]:
  "timers_ok b \<Longrightarrow> timers_ok (ArmPersistTimer now b)" "timers_ok b \<Longrightarrow> timers_ok (CancelPersist b)"
  "timers_ok b \<Longrightarrow> timers_ok (restart_persist b)"
  by (simp_all add: ArmPersistTimer_def CancelPersist_def restart_persist_def Let_def) (simp_all add: timers_ok_def)

lemma timers_ScheduleNextPersist [simp]: "timers_ok b \<Longrightarrow> timers_ok (ScheduleNextPersist now b)"
  using double_le [of "sb_persist_current_ms b" "sb_persist_max_ms b"]
  by (auto simp: ScheduleNextPersist_def Let_def) (auto simp: timers_ok_def)

lemma timers_Close [simp]: "timers_ok (Send_Close C b) = timers_ok b" "timers_ok (CancelTimers b) = timers_ok b"
  by (simp_all add: Send_Close_def CancelTimers_def Let_def)

lemma timers_next:
  assumes "timers_ok b"
  shows "timers_ok (snd (NextSegment C w now b))"
proof -
  have p: "timers_ok (snd (persist_segment r d)) = timers_ok d"
    "timers_ok (snd (resend_probe z k probe r d)) = timers_ok d"
    "timers_ok (snd (prepare_retransmission w rec k r d)) = timers_ok d"
    "timers_ok (snd (new_segment C w r d)) = timers_ok d" for r z k probe rec and d :: "'a TcpSendBuffer"
    by (simp_all add: persist_segment_def resend_probe_def prepare_retransmission_def new_segment_def Let_def
        split: option.split list.split)
  have z: "timers_ok (snd (next_zero_window C now r d))" if "timers_ok d" for r and d :: "'a TcpSendBuffer"
    using that by (simp add: next_zero_window_def Let_def p)
  have "timers_ok (snd (next_open_window C w now r d))" if "timers_ok d" for r and d :: "'a TcpSendBuffer"
  proof -
    define c where "c = CancelPersist d"
    define e where "e = (if sb_retransmit_queue c \<noteq> [] \<and> \<not> sb_rto_running c then ArmRto now c else c)"
    have "timers_ok c" "timers_ok e" using that by (simp_all add: c_def e_def)
    then show ?thesis unfolding next_open_window_def Let_def c_def [symmetric] e_def [symmetric]
      by (simp add: p split: option.split)
  qed
  with z assms show ?thesis by (simp add: NextSegment_def Let_def)
qed

lemma timers_sent:
  assumes "timers_ok b"
  shows "timers_ok (OnSent C owner off now b)"
proof -
  have a: "timers_ok (advance_sequence d) = timers_ok d" "timers_ok (after_store C now d) = timers_ok d"
    "timers_ok (ResetPending d) = timers_ok d" for d :: "'a TcpSendBuffer"
    by (simp_all add: advance_sequence_def after_store_def ResetPending_def Let_def)
  have s: "timers_ok (snd (StoreNewRecord C owner off now d)) = timers_ok d"
    "timers_ok (snd (store_probe owner off now d)) = timers_ok d"
    "timers_ok (snd (promote_probe now d)) = timers_ok d" "timers_ok (snd (fast_retransmit now d)) = timers_ok d"
    for d :: "'a TcpSendBuffer"
    by (simp_all add: StoreNewRecord_def store_probe_def promote_probe_def fast_retransmit_def Let_def a
        split: option.split list.split)
  have r: "timers_ok (snd (rto_retransmit C now b))"
    using assms by (simp add: rto_retransmit_def Let_def split: list.split)
  show ?thesis using assms s [of b] r
    by (cases "sb_pending_kind b") (simp_all add: OnSent_def Let_def split_beta a split: option.split list.split)
qed

lemma timers_ack:
  assumes "timers_ok b"
  shows "timers_ok (snd (Send_OnAck C ack w now only ece b))"
proof -
  have f: "timers_ok (feed_controller C a now d) = timers_ok d" "timers_ok (scan_store a d) = timers_ok d"
    for a and d :: "'a TcpSendBuffer"
    by (simp_all add: feed_controller_def scan_store_def Let_def split_beta)
  have r: "timers_ok (rearm_timers w now p d)" if "timers_ok d" for p and d :: "'a TcpSendBuffer"
    using that by (simp add: rearm_timers_def Let_def)
  have d: "timers_ok (snd (duplicate_ack C w now only d))" if "timers_ok d" for d :: "'a TcpSendBuffer"
    using that by (simp add: duplicate_ack_def Let_def)
  have "timers_ok (snd (new_ack C ack w now d))" if "timers_ok d" for d :: "'a TcpSendBuffer"
    using that by (simp add: new_ack_def Let_def split_beta r f split: option.split)
  with d assms show ?thesis by (simp add: Send_OnAck_def Let_def)
qed

lemma timers_step: "timers_ok b \<Longrightarrow> timers_ok (send_step C op b)"
  by (cases op)
    (simp_all add: timers_next timers_sent timers_ack Enqueue_def RequestFin_def OnSack_def Send_UpdateMss_def
      ResetPending_def Let_def split_beta split: option.split)

interpretation send_timers: machine "send_step C" timers_ok for C
  by unfold_locales (rule timers_step)

text \<open>
  C22: With a configuration that \<open>Validate\<close> accepts, the retransmission timeout stays between its minimum and its
  maximum and the persist interval below its maximum, through every smoothing of round-trip
  samples and every exponential backoff; no doubling overflows.\<close>

theorem send_timers_bounded:
  assumes "Send_Validate f"
    "b = run (send_step C) ops (TcpSendBuffer_init isn mss (sf_send_queue_limit f) (sf_retransmit_queue_limit f)
       (sf_initial_rto_ms f) (sf_min_rto_ms f) (sf_max_rto_ms f) (sf_persist_timer_base_ms f) (sf_persist_timer_max_ms f)
       (sf_max_retransmissions f) (sf_max_persist_probes f) (sf_cc_algorithm f) c)"
  shows "sb_min_rto_ms b \<le> sb_rto_ms b \<and> sb_rto_ms b \<le> sb_max_rto_ms b \<and> sb_persist_current_ms b \<le> sb_persist_max_ms b"
proof -
  have "timers_ok b" unfolding assms(2)
    by (rule send_timers.run_inv) (use assms(1) in \<open>simp add: timers_ok_def TcpSendBuffer_init_def Send_Validate_def\<close>)
  then show ?thesis by (simp add: timers_ok_def)
qed

definition sample_config :: TcpSendConfig where
  "sample_config = \<lparr>sf_initial_mss = 1460, sf_window_scale = 0, sf_send_queue_limit = 262144,
     sf_retransmit_queue_limit = 262144, sf_min_rto_ms = 200, sf_max_rto_ms = 120000, sf_initial_rto_ms = 1000,
     sf_persist_timer_base_ms = 500, sf_persist_timer_max_ms = 60000, sf_max_retransmissions = 15,
     sf_max_persist_probes = 15, sf_cc_algorithm = CA_Aimd\<rparr>"

theorem send_timers_bounded_witness:
  "sb_min_rto_ms (run (send_step aimd_ops) [SoAck 7 0 3 True False]
     (TcpSendBuffer_init 7 1460 262144 262144 1000 200 120000 500 60000 15 15 CA_Aimd (AimdController_init 1460))) \<le>
   sb_rto_ms (run (send_step aimd_ops) [SoAck 7 0 3 True False]
     (TcpSendBuffer_init 7 1460 262144 262144 1000 200 120000 500 60000 15 15 CA_Aimd (AimdController_init 1460)))"
proof -
  have "Send_Validate sample_config" by (simp add: Send_Validate_def sample_config_def)
  from send_timers_bounded [OF this refl, of aimd_ops "[SoAck 7 0 3 True False]" 7 1460 "AimdController_init 1460"]
  show ?thesis by (simp add: sample_config_def)
qed

section \<open>Partly acknowledged SACKed records\<close>

lemma ack_accepted:
  assumes "k \<le> n" "n < 2 ^ 31"
  shows "\<not> SequenceAfter (s + of_nat k) (s + of_nat n)" "\<not> SequenceBefore (s + of_nat k) s"
proof -
  have u: "unat (of_nat k :: u32) = k" "unat (of_nat n :: u32) = n" using assms by (simp_all add: unat_of_nat_u32)
  have "unat (of_nat k - of_nat n :: u32) = (if k = n then 0 else 2 ^ 32 - (n - k))"
    using assms by (auto simp: unat_sub_if' u)
  then show "\<not> SequenceAfter (s + of_nat k) (s + of_nat n)" using assms by (auto simp: SequenceAfter_def sint_u32 split: if_splits)
  show "\<not> SequenceBefore (s + of_nat k) s" using assms by (simp add: SequenceBefore_def sint_u32 u)
qed

lemma sack_fields_frame:
  "sb_in_flight_sequence (feed_controller C a now b) = sb_in_flight_sequence b"
  "sb_sacked_sequence (feed_controller C a now b) = sb_sacked_sequence b"
  "sb_retransmit_queue (feed_controller C a now b) = sb_retransmit_queue b"
  "sb_in_flight_sequence (rearm_timers w now p b) = sb_in_flight_sequence b"
  "sb_sacked_sequence (rearm_timers w now p b) = sb_sacked_sequence b"
  "sb_retransmit_queue (rearm_timers w now p b) = sb_retransmit_queue b"
  by (simp_all add: feed_controller_def rearm_timers_def restart_persist_def CancelPersist_def ArmPersistTimer_def ArmRto_def
      Let_def split_beta)

text \<open>The sequence space of the records that are marked as SACKed, which \<open>sacked_sequence_\<close> is meant to count.\<close>

definition sacked_units :: "SendRecord list \<Rightarrow> nat" where
  "sacked_units rq = (\<Sum>r\<leftarrow>filter sr_sacked rq. unat (sr_logical_length r))"

lemma new_ack_part:
  fixes C w now
  assumes "sb_retransmit_queue b = rec # rq" "sr_sacked rec" "k \<le> unat (sb_sacked_sequence b)"
    "k = unat (ack - sb_snd_una b)" "0 < k" "k < unat (sr_logical_length rec)"
  defines "b' \<equiv> snd (new_ack C ack w now b)"
  shows "sb_in_flight_sequence b' = sb_in_flight_sequence b - k"
    "sb_sacked_sequence b' = sb_sacked_sequence b - of_nat k"
    "\<exists>rec'. sb_retransmit_queue b' = rec' # rq \<and> \<not> sr_sacked rec' \<and> sr_logical_length rec' = sr_logical_length rec - of_nat k"
proof -
  let ?a = "scan_start k b"
  have loop: "ack_loop now (rec # rq) ?a = (fst (ack_part rec ?a) # rq, snd (ack_part rec ?a))"
    using assms(5,6) by (simp add: scan_start_def split_beta)
  have p: "ak_in_flight_sequence (snd (ack_part rec ?a)) = sb_in_flight_sequence b - k" "ak_remaining (snd (ack_part rec ?a)) = 0"
    using ack_part_fields [of rec ?a] by (simp_all add: scan_start_def)
  have q: "ak_sacked_sequence (snd (ack_part rec ?a)) = sb_sacked_sequence b - of_nat k" "\<not> sr_sacked (fst (ack_part rec ?a))"
    "sr_logical_length (fst (ack_part rec ?a)) = sr_logical_length rec - of_nat k"
    "ak_rtt_sample (snd (ack_part rec ?a)) = None"
    using assms(2,3,6) by (simp_all add: ack_part_def unsack_def ack_take_def scan_start_def Let_def)
  have probe: "ack_probe (sb_persist_probe b) (snd (ack_part rec ?a)) = (sb_persist_probe b, snd (ack_part rec ?a))"
    using p(2) by (simp add: ack_probe_def split: option.split)
  show "sb_in_flight_sequence b' = sb_in_flight_sequence b - k" "sb_sacked_sequence b' = sb_sacked_sequence b - of_nat k"
    "\<exists>rec'. sb_retransmit_queue b' = rec' # rq \<and> \<not> sr_sacked rec' \<and> sr_logical_length rec' = sr_logical_length rec - of_nat k"
    unfolding b'_def using p(1) q
    by (simp_all add: new_ack_def assms(1) assms(4) [symmetric] loop probe Let_def sack_fields_frame scan_store_def
        del: ack_loop.simps)
qed

text \<open>
  C39: When an acknowledgment covers only the first \<open>k\<close> bytes of a SACKed record at the head of the
  retransmission queue, whatever else is in flight, the record is no longer marked as SACKed but its
  remaining length stays in \<open>sacked_sequence_\<close>. If the counter was right before, that is, if it was
  the sequence space of the records marked as SACKed, it is then too large by exactly that remaining
  length, and the usable window is computed as if so many bytes in flight were not there.\<close>

theorem partial_ack_leaks_sack:
  assumes "sends C isn b D n" "\<not> sb_closed b" "sb_retransmit_queue b = rec # rq" "sr_sacked rec"
    "unat (sb_sacked_sequence b) = sacked_units (rec # rq)" "0 < k" "k < unat (sr_logical_length rec)"
    "b' = snd (Send_OnAck C (sb_snd_una b + of_nat k) w now only ece b)"
  shows "sb_in_flight_sequence b' = sb_in_flight_sequence b - k \<and>
    (\<exists>rec'. sb_retransmit_queue b' = rec' # rq \<and> \<not> sr_sacked rec' \<and>
       unat (sr_logical_length rec') = unat (sr_logical_length rec) - k) \<and>
    unat (sb_sacked_sequence b') = sacked_units (sb_retransmit_queue b') + (unat (sr_logical_length rec) - k) \<and>
    UsableWindow C w b' = min (unat w) (unat (cc_cwnd C (sb_controller b'))) -
      (sb_in_flight_sequence b' - (sacked_units (sb_retransmit_queue b') + (unat (sr_logical_length rec) - k)))"
proof -
  let ?ack = "sb_snd_una b + of_nat k" and ?len = "unat (sr_logical_length rec)"
  have o: "open_ok (core b)" "co_limit (core b) < 2 ^ 31"
    using sends_inv [OF assms(1)] assms(2) by (simp_all add: send_inv_def core_inv_def core_fields)
  define m where "m = units (flight (core b))"
  have m: "k \<le> m" "m < 2 ^ 31" "sb_snd_max b = sb_snd_una b + of_nat m"
    using o assms(3,7) chain_end [of "sb_snd_una b" "flight (core b)" "sb_snd_nxt b"]
    by (auto simp: m_def open_ok_def flight_def core_fields)
  have k: "unat (?ack - sb_snd_una b) = k" using m by (simp add: unat_of_nat_u32)
  then have "?ack \<noteq> sb_snd_una b" using assms(6) by auto
  define c where "c = (if ece \<and> \<not> sb_ecn_cwr_queued b then b\<lparr>sb_ecn_cwr_queued := True,
      sb_delivered_ce := sb_delivered_ce b + 1, sb_controller := cc_on_ecn_ce C (sb_controller b)\<rparr> else b)"
  have b': "b' = snd (new_ack C ?ack w now c)"
    using ack_accepted [OF m(1,2), of "sb_snd_una b"] \<open>?ack \<noteq> sb_snd_una b\<close>
    by (simp add: assms(8) Send_OnAck_def m(3) Let_def c_def)
  have all: "unat (sb_sacked_sequence b) = ?len + sacked_units rq" using assms(4,5) by (simp add: sacked_units_def)
  have c: "sb_retransmit_queue c = rec # rq" "k \<le> unat (sb_sacked_sequence c)" "sb_sacked_sequence c = sb_sacked_sequence b"
    "sb_snd_una c = sb_snd_una b" "sb_in_flight_sequence c = sb_in_flight_sequence b"
    using assms(3,7) all by (simp_all add: c_def)
  note part = new_ack_part [OF c(1) assms(4) c(2) _ assms(6,7), of ?ack C w now, folded b', unfolded c(3,4,5) k, OF refl]
  obtain rec' where rec': "sb_retransmit_queue b' = rec' # rq" "\<not> sr_sacked rec'" "unat (sr_logical_length rec') = ?len - k"
    using part(3) unat_part [OF assms(7)] by auto
  have "k < unat (sb_sacked_sequence b)" using all assms(7) by simp
  then have u: "unat (sb_sacked_sequence b') = sacked_units (sb_retransmit_queue b') + (?len - k)"
    using part(2) all rec' assms(7) by (simp add: unat_part sacked_units_def)
  define a where "a = min (unat w) (unat (cc_cwnd C (sb_controller b')))"
  have "UsableWindow C w b' = a - (sb_in_flight_sequence b' - unat (sb_sacked_sequence b'))"
    unfolding UsableWindow_def Let_def a_def [symmetric] by simp
  then show ?thesis unfolding u a_def using part(1) rec' u by blast
qed

text \<open>The peer SACKs the whole segment of two bytes and then acknowledges one of them.\<close>

theorem partial_ack_leaks_sack_witness:
  "sb_in_flight_sequence (snd (Send_OnAck aimd_ops 1001 50 9 True False
     (snd (OnSack aimd_ops [\<lparr>sb_left_edge = 1000, sb_right_edge = 1002\<rparr>] sample_sent)))) = 1 \<and>
   UsableWindow aimd_ops 50 (snd (Send_OnAck aimd_ops 1001 50 9 True False
     (snd (OnSack aimd_ops [\<lparr>sb_left_edge = 1000, sb_right_edge = 1002\<rparr>] sample_sent)))) = 50"
proof -
  define b where "b = snd (OnSack aimd_ops [\<lparr>sb_left_edge = 1000, sb_right_edge = 1002\<rparr>] sample_sent)"
  define c where "c = snd (Send_OnAck aimd_ops 1001 50 9 True False b)"
  define rec where "rec = hd (sb_retransmit_queue b)"
  have sends: "sends aimd_ops 1000 b [1, 2, 3] 0" unfolding b_def using sample_sends(2) by (rule sends.sack)
  have "let b = snd (OnSack aimd_ops [\<lparr>sb_left_edge = 1000, sb_right_edge = 1002\<rparr>] sample_sent);
      c = snd (Send_OnAck aimd_ops 1001 50 9 True False b) in \<not> sb_closed b \<and>
    sr_sacked (hd (sb_retransmit_queue b)) \<and> sb_snd_una b = 1000 \<and> sb_sacked_sequence b = 2 \<and>
    sr_logical_length (hd (sb_retransmit_queue b)) = 2 \<and> length (sb_retransmit_queue b) = 1 \<and>
    sb_in_flight_sequence b = 2 \<and> unat (cc_cwnd aimd_ops (sb_controller c)) \<ge> 50" by code_simp
  then have ev: "\<not> sb_closed b" "sr_sacked rec" "sb_snd_una b = 1000" "sb_sacked_sequence b = 2" "sr_logical_length rec = 2"
    "length (sb_retransmit_queue b) = 1" "sb_in_flight_sequence b = 2" "unat (cc_cwnd aimd_ops (sb_controller c)) \<ge> 50"
    unfolding Let_def b_def [symmetric] c_def [symmetric] rec_def by blast+
  have q: "sb_retransmit_queue b = [rec]" using ev(6) by (cases "sb_retransmit_queue b") (auto simp: rec_def)
  have "unat (sb_sacked_sequence b) = sacked_units [rec]" "1 < unat (sr_logical_length rec)"
    "c = snd (Send_OnAck aimd_ops (sb_snd_una b + of_nat 1) 50 9 True False b)"
    using ev by (simp_all add: sacked_units_def c_def)
  from partial_ack_leaks_sack [OF sends ev(1) q ev(2) this(1) _ this(2,3)] ev(5,7,8) show ?thesis
    unfolding b_def [symmetric] c_def [symmetric] by (auto simp: sacked_units_def)
qed

end
