(* ===== verification/TcpConnection.thy ===== *)
theory TcpConnection
  imports TcpSendCorrect
begin

text \<open>
  One direction of a TCP connection: the send buffer of \<open>src/tcp/send.cpp\<close> and the receive ring of
  \<open>src/tcp/receive.cpp\<close> with a network between them that loses, duplicates, delays and reorders segments and
  acknowledgments. A packet that the network delivers is less than half the sequence space old.
\<close>

section \<open>The system\<close>

record 'c connection =
  cn_sender :: "'c TcpSendBuffer"
  cn_written :: bytes
  cn_acked :: nat
  cn_segments :: "(nat \<times> u32 \<times> bytes) set"
  cn_receiver :: TcpReceiveBuffer
  cn_read :: bytes
  cn_acks :: "(nat \<times> u32) set"

text \<open>The position of the next byte the receiver is missing.\<close>

definition received :: "'c connection \<Rightarrow> nat" where
  "received s = length (cn_read s) + rb_ready_bytes (cn_receiver s)"

text \<open>
  The steps. Segments and acknowledgments travel with their position in the stream, which no component
  reads; it only says which packets are too old to be delivered. The operations of the sender that neither
  write, send nor process an acknowledgment are one rule.
\<close>

inductive conn_step :: "'c controller \<Rightarrow> u32 \<Rightarrow> 'c connection \<Rightarrow> 'c connection \<Rightarrow> bool" for C isn where
  app_write: "Enqueue (Some d) (cn_sender s) = (k, b) \<Longrightarrow>
    conn_step C isn s (s\<lparr>cn_sender := b, cn_written := cn_written s @ take k d\<rparr>)"
| transmit: "NextSegment C w now (cn_sender s) = (r, b) \<Longrightarrow> sn_has_segment r \<Longrightarrow>
    p = cn_acked s + unat (sn_sequence r - sb_snd_una (cn_sender s)) \<Longrightarrow>
    conn_step C isn s (s\<lparr>cn_sender := b, cn_segments := insert (p, sn_sequence r, sn_payload r) (cn_segments s)\<rparr>)"
| quiet: "NextSegment C w now (cn_sender s) = (r, b) \<Longrightarrow> \<not> sn_has_segment r \<Longrightarrow>
    conn_step C isn s (s\<lparr>cn_sender := b\<rparr>)"
| sent: "(\<And>data. sb_pending_kind (cn_sender s) \<in> {PK_NewData, PK_PersistNew} \<Longrightarrow>
      backing owner off (pending_payload_length (cn_sender s)) = Some data \<Longrightarrow>
      data = take (pending_payload_length (cn_sender s)) (sb_send_queue (cn_sender s))) \<Longrightarrow>
    conn_step C isn s (s\<lparr>cn_sender := OnSent C owner off now (cn_sender s)\<rparr>)"
| sender: "op \<in> {SoFin, SoSack blocks, SoMss m, SoReset, SoPersist now, SoCancel} \<Longrightarrow>
    conn_step C isn s (s\<lparr>cn_sender := send_step C op (cn_sender s)\<rparr>)"
| arrive: "(p, sequence, d) \<in> cn_segments s \<Longrightarrow> \<bar>int p - int (received s)\<bar> < 2 ^ 31 \<Longrightarrow>
    conn_step C isn s (s\<lparr>cn_receiver := snd (OnSegment sequence (Some d) psh (cn_receiver s))\<rparr>)"
| app_read: "k \<le> length (ReadyView (cn_receiver s)) \<Longrightarrow>
    conn_step C isn s (s\<lparr>cn_receiver := snd (ConsumeReady k (cn_receiver s)),
      cn_read := cn_read s @ take k (ReadyView (cn_receiver s))\<rparr>)"
| acknowledge: "conn_step C isn s (s\<lparr>cn_receiver := RecordAdvertisedWindow n (AckSent (cn_receiver s)),
      cn_acks := insert (received s, rb_rcv_nxt (cn_receiver s)) (cn_acks s)\<rparr>)"
| ack_arrives: "(q, acknowledgment) \<in> cn_acks s \<Longrightarrow> int (cn_acked s) - int q < 2 ^ 31 \<Longrightarrow>
    Send_OnAck C acknowledgment w now ack_only ece (cn_sender s) = (r, b) \<Longrightarrow>
    conn_step C isn s (s\<lparr>cn_sender := b, cn_acked := cn_acked s + sa_newly_acked r\<rparr>)"

definition connected :: "'c controller \<Rightarrow> u32 \<Rightarrow> 'c connection \<Rightarrow> bool" where
  "connected C isn s \<longleftrightarrow> sends C isn (cn_sender s) [] 0 \<and> \<not> sb_fin_acked (cn_sender s) \<and>
     (\<exists>cap win. TcpReceiveBuffer_init cap isn win = Some (cn_receiver s)) \<and>
     cn_written s = [] \<and> cn_acked s = 0 \<and> cn_segments s = {} \<and> cn_read s = [] \<and> cn_acks s = {}"

section \<open>The invariant\<close>

definition extends :: "(nat \<Rightarrow> u8) \<Rightarrow> bytes \<Rightarrow> bool" where
  "extends F D \<longleftrightarrow> (\<forall>i<length D. F i = D ! i)"

definition segment_ok :: "u32 \<Rightarrow> bytes \<Rightarrow> nat \<times> u32 \<times> bytes \<Rightarrow> bool" where
  "segment_ok isn D = (\<lambda>(p, sequence, d). sequence = isn + of_nat p \<and> p + length d \<le> length D \<and>
     d = take (length d) (drop p D))"

definition conn_inv :: "'c controller \<Rightarrow> u32 \<Rightarrow> 'c connection \<Rightarrow> bool" where
  "conn_inv C isn s \<longleftrightarrow> sends C isn (cn_sender s) (cn_written s) (cn_acked s) \<and> \<not> sb_fin_acked (cn_sender s) \<and>
     (\<forall>F. extends F (cn_written s) \<longrightarrow> receives F isn (cn_receiver s) (cn_read s)) \<and>
     (\<forall>x\<in>cn_segments s. segment_ok isn (cn_written s) x) \<and>
     (\<forall>(q, a)\<in>cn_acks s. a = isn + of_nat q \<and> q \<le> received s) \<and> cn_acked s \<le> received s"

lemma extends_append: "extends F (D @ e) \<Longrightarrow> extends F D"
  by (auto simp: extends_def nth_append split: if_splits)

lemma segment_ok_append: "segment_ok isn D x \<Longrightarrow> segment_ok isn (D @ e) x"
  by (auto simp: segment_ok_def)

text \<open>The receiver cannot have anything beyond what was written, for that could be anything.\<close>

lemma extension_prefix:
  assumes "\<And>F. extends F D \<Longrightarrow> \<forall>i<n. g i = Some (F i)"
  shows "n \<le> length D"
proof (rule ccontr)
  assume n: "\<not> n \<le> length D"
  let ?F = "\<lambda>x i. if i < length D then D ! i else x"
  have "g (length D) = Some (?F x (length D))" for x using assms [of "?F x"] n by (simp add: extends_def)
  from this [of 0] this [of 1] show False by simp
qed

lemma receives_prefix:
  assumes "\<And>F. extends F D \<Longrightarrow> receives F isn b out"
  shows "out = take (length out) D" "length out + rb_ready_bytes b \<le> length D"
    "rb_rcv_nxt b = isn + of_nat (length out + rb_ready_bytes b)"
proof -
  let ?F = "\<lambda>i. if i < length D then D ! i else 0"
  have f: "extends ?F D" by (simp add: extends_def)
  note inv = receives_inv [OF assms]
  have r: "recv_inv b" using inv [OF f] by (simp add: stream_inv_def)
  let ?g = "\<lambda>i. if i < length out then Some (out ! i) else content b (i - length out)"
  show len: "length out + rb_ready_bytes b \<le> length D"
  proof (rule extension_prefix [where g = ?g])
    fix F assume F: "extends F D"
    have i: "stream_inv F isn (length out) b" "out = map F [0..<length out]" using inv [OF F] by simp_all
    have "content b l = Some (F (length out + l))" if "l < rb_ready_bytes b" for l
    proof -
      have "l \<in> held b" using r that by (auto simp: recv_inv_def ring_ok_def)
      then obtain x where "content b l = Some x" by (auto simp: content_def held_def)
      then show ?thesis using i(1) by (simp add: stream_inv_def)
    qed
    moreover have "out ! j = F j" if "j < length out" for j using that arg_cong [OF i(2), of "\<lambda>x. x ! j"] by simp
    ultimately show "\<forall>i<length out + rb_ready_bytes b. ?g i = Some (F i)"
      by (auto simp: less_diff_conv2 not_less)
  qed
  have "out ! j = D ! j" if "j < length out" for j
    using that arg_cong [OF conjunct2 [OF inv [OF f]], of "\<lambda>x. x ! j"] len by simp
  then show "out = take (length out) D" using len by (intro nth_equalityI) auto
  show "rb_rcv_nxt b = isn + of_nat (length out + rb_ready_bytes b)" using inv [OF f] by (simp add: stream_inv_def)
qed

text \<open>The sender's side: no operation but an acknowledgment touches the flag of the acknowledged FIN.\<close>

lemma fin_acked_frame:
  "sb_fin_acked (snd (Enqueue d b)) = sb_fin_acked b"
  "send_inv b \<Longrightarrow> sb_fin_acked (snd (NextSegment C w now b)) = sb_fin_acked b"
  "send_inv b \<Longrightarrow> sb_fin_acked (OnSent C owner off now b) = sb_fin_acked b"
  "op \<in> {SoFin, SoSack blocks, SoMss m, SoReset, SoPersist now, SoCancel} \<Longrightarrow> sb_fin_acked (send_step C op b) = sb_fin_acked b"
proof -
  have c: "sb_fin_acked b = co_facked (core b)" for b :: "'a TcpSendBuffer" by (simp add: core_fields)
  show "sb_fin_acked (snd (Enqueue d b)) = sb_fin_acked b" by (simp add: c Enqueue_effect(1))
  show "sb_fin_acked (snd (NextSegment C w now b)) = sb_fin_acked b" if "send_inv b"
    using NextSegment_effect [OF that, of C w now] by (auto simp: c close_core_def)
  show "sb_fin_acked (OnSent C owner off now b) = sb_fin_acked b" if "send_inv b"
    using OnSent_effect [OF that, of owner off C now]
    by (auto simp: c sent_core_def close_core_def promote_core_def store_core_def probe_core_def push_core_def)
  show "sb_fin_acked (send_step C op b) = sb_fin_acked b"
    if "op \<in> {SoFin, SoSack blocks, SoMss m, SoReset, SoPersist now, SoCancel}"
    using that by (auto simp: c RequestFin_effect OnSack_effect UpdateMss_effect split: if_splits)
qed

lemma sends_quiet:
  assumes "sends C isn b D n" "op \<in> {SoFin, SoSack blocks, SoMss m, SoReset, SoPersist now, SoCancel}"
  shows "sends C isn (send_step C op b) D n"
  using assms by (auto intro: sends.intros)

lemma transmitted_ok:
  assumes "sends C isn b D n" "\<not> sb_fin_acked b" "NextSegment C w now b = (r, b')" "sn_has_segment r"
  shows "segment_ok isn D (n + unat (sn_sequence r - sb_snd_una b), sn_sequence r, sn_payload r)"
proof -
  have inv: "send_inv b" "stream_ok isn (core b) D n" using sends_inv [OF assms(1)] by simp_all
  from NextSegment_effect [OF inv(1), of C w now] assms(3,4)
  have open_: "\<not> co_closed (core b)" "seg_ok (core b) r" by (simp_all add: core_fields)
  then have o: "open_ok (core b)" "co_limit (core b) < 2 ^ 31" using inv(1) by (simp_all add: send_inv_def core_inv_def)
  have st: "outstanding (core b) = drop n D" "sb_snd_una b = isn + of_nat n" "n \<le> length D"
    using inv(2) open_(1) assms(2) by (simp_all add: stream_ok_def core_fields)
  obtain k where k: "sn_sequence r = sb_snd_una b + of_nat k" "k \<le> units (flight (core b))"
    "k + length (sn_payload r) \<le> length (drop n D)" "sn_payload r = take (length (sn_payload r)) (drop k (drop n D))"
    using open_(2) st(1) by (auto simp: seg_ok_def core_fields)
  have "k < 2 ^ 32" using k(2) o by (simp add: open_ok_def)
  then have "unat (sn_sequence r - sb_snd_una b) = k" by (simp add: k(1) unat_of_nat_u32)
  moreover have "sn_sequence r = isn + of_nat (n + k)" using k(1) st(2) by (simp add: add.assoc)
  moreover have "sn_payload r = take (length (sn_payload r)) (drop (n + k) D)" using k(4) by (simp add: add.commute)
  ultimately show ?thesis unfolding segment_ok_def using k(3) st(3) by simp
qed

text \<open>An acknowledgment of position \<open>q\<close> never takes the sender beyond \<open>q\<close>, and never acknowledges the FIN.\<close>

lemma ack_of_received:
  assumes "sends C isn b D n" "\<not> sb_fin_acked b" "q \<le> length D" "int n - int q < 2 ^ 31"
    "Send_OnAck C (isn + of_nat q) w now only ece b = (r, b')"
  shows "sa_newly_acked r \<le> q - n \<and> \<not> sb_fin_acked b'"
proof -
  let ?c = "core b" and ?ack = "isn + of_nat q :: u32"
  have inv: "send_inv b" "stream_ok isn ?c D n" using sends_inv [OF assms(1)] by simp_all
  have "acked_core ?ack ?c (sa_newly_acked r) (core b')"
    using Send_OnAck_effect(1) [OF inv(1), of ?ack C w now only ece] assms(5) by simp
  then consider "core b' = ?c" "sa_newly_acked r = 0" | "core b' = ?c\<lparr>co_una := ?ack\<rparr>" "sa_newly_acked r = 0"
    | "\<not> co_closed ?c" "unat (?ack - co_una ?c) \<le> units (flight ?c)" "core b' = ack_core (unat (?ack - co_una ?c)) ?ack ?c"
      "sa_newly_acked r = min (unat (?ack - co_una ?c)) (length (bytes_of (flight ?c)))"
    by (auto simp: acked_core_def)
  then show ?thesis
  proof cases
    case 1
    then have "co_facked (core b') = co_facked ?c" by simp
    then show ?thesis using 1(2) assms(2) by (simp add: core_fields)
  next
    case 2
    then have "co_facked (core b') = co_facked ?c" by simp
    then show ?thesis using 2(2) assms(2) by (simp add: core_fields)
  next
    case 3
    have o: "open_ok ?c" "co_limit ?c < 2 ^ 31" using inv(1) 3(1) by (simp_all add: send_inv_def core_inv_def)
    have st: "outstanding ?c = drop n D" "co_una ?c = isn + of_nat n" "n \<le> length D"
      using inv(2) 3(1) assms(2) by (simp_all add: stream_ok_def core_fields)
    have small: "units (flight ?c) < 2 ^ 31" using o by (simp add: open_ok_def)
    have "n \<le> q"
    proof (rule ccontr)
      assume "\<not> n \<le> q"
      then obtain j where j: "n = q + j" "0 < j" by (metis less_imp_add_positive not_le)
      then have "j < 2 ^ 31" using assms(4) by simp
      then have "unat (0 - (of_nat j :: u32)) = 2 ^ 32 - j" using j(2) unfolding unat_sub_if' by (simp add: unat_of_nat_u32)
      then have "unat (- (of_nat j :: u32)) = 2 ^ 32 - j" by simp
      moreover have "?ack - co_una ?c = - of_nat j" by (simp add: st(2) j(1))
      ultimately show False using 3(2) small \<open>j < 2 ^ 31\<close> by simp
    qed
    then have "?ack - co_una ?c = of_nat (q - n)" by (simp add: st(2) of_nat_diff)
    then have k: "unat (?ack - co_una ?c) \<le> q - n" by (simp add: unsigned_of_nat take_bit_nat_less_eq_self)
    have "\<not> co_facked (core b')"
    proof
      assume "co_facked (core b')"
      then have f: "co_fsent ?c" "\<not> co_facked ?c" "unat (?ack - co_una ?c) \<ge> units (flight ?c)"
        using assms(2) by (auto simp: 3(3) ack_core_def core_fields)
      then have "units (flight ?c) = length (bytes_of (flight ?c)) + 1" "co_queue ?c = []"
        using o(1) pieces_total [of True "flight ?c"] by (simp_all add: open_ok_def)
      moreover have "length (bytes_of (flight ?c)) + length (co_queue ?c) = length D - n"
        using arg_cong [OF st(1), of length] by (simp add: outstanding_def)
      ultimately show False using f(3) k assms(3) by simp
    qed
    then show ?thesis using 3(4) k by (simp add: core_fields)
  qed
qed

section \<open>The receiver's side\<close>

lemma in_stream_segment:
  assumes "segment_ok isn D (p, sequence, d)" "extends F D" "\<bar>int p - int q\<bar> < 2 ^ 31"
  shows "in_stream F isn q sequence d"
proof -
  have s: "sequence = isn + of_nat p" "p + length d \<le> length D" "d = take (length d) (drop p D)"
    using assms(1) by (simp_all add: segment_ok_def)
  have "take (length d) (drop p D) = map F [p..<p + length d]"
    using s(2) assms(2) by (intro nth_equalityI) (auto simp: extends_def)
  then show ?thesis using s(1,3) assms(3) by (auto simp: in_stream_def)
qed

lemma received_OnSegment:
  assumes "recv_inv b"
  shows "rb_ready_bytes b \<le> rb_ready_bytes (snd (OnSegment sequence data psh b))"
  using OnSegment_effect [OF assms, of sequence data psh] by (auto simp: seg_effect_def)

lemma received_ConsumeReady:
  assumes "recv_inv b" "k \<le> length (ReadyView b)"
  shows "k + rb_ready_bytes (snd (ConsumeReady k b)) = rb_ready_bytes b"
  using ConsumeReady_fields(2) [of k b] ReadyView_content(1) [OF assms(1)] assms(2) by simp

lemma conn_receiver:
  assumes "conn_inv C isn s"
  shows "recv_inv (cn_receiver s)" "received s \<le> length (cn_written s)"
    "rb_rcv_nxt (cn_receiver s) = isn + of_nat (received s)" "cn_read s = take (length (cn_read s)) (cn_written s)"
proof -
  have r: "receives F isn (cn_receiver s) (cn_read s)" if "extends F (cn_written s)" for F
    using assms that by (simp add: conn_inv_def)
  let ?F = "\<lambda>i. if i < length (cn_written s) then cn_written s ! i else 0"
  have "extends ?F (cn_written s)" by (simp add: extends_def)
  then show "recv_inv (cn_receiver s)" using receives_inv [OF r] by (auto simp: stream_inv_def)
  show "received s \<le> length (cn_written s)" "rb_rcv_nxt (cn_receiver s) = isn + of_nat (received s)"
    "cn_read s = take (length (cn_read s)) (cn_written s)"
    unfolding received_def by (rule receives_prefix [OF r]; assumption)+
qed

lemma conn_sender: "conn_inv C isn s \<Longrightarrow> send_inv (cn_sender s)"
  using sends_inv [of C isn "cn_sender s" "cn_written s" "cn_acked s"] by (simp add: conn_inv_def)

lemma conn_step_inv:
  assumes "conn_step C isn s s'" "conn_inv C isn s"
  shows "conn_inv C isn s'"
  using assms
proof (induction rule: conn_step.induct)
  case (app_write d s k b)
  then have "sends C isn b (cn_written s @ take k d) (cn_acked s)" "sb_fin_acked b = sb_fin_acked (cn_sender s)"
    using sends.enqueue [of C isn "cn_sender s" "cn_written s" "cn_acked s" d] fin_acked_frame(1) [of "Some d" "cn_sender s"]
    by (auto simp: conn_inv_def)
  then show ?case using app_write(2)
    by (auto simp: conn_inv_def received_def segment_ok_append dest: extends_append)
next
  case (transmit w now s r b p)
  then have "sends C isn b (cn_written s) (cn_acked s)" "sb_fin_acked b = sb_fin_acked (cn_sender s)"
    "segment_ok isn (cn_written s) (p, sn_sequence r, sn_payload r)"
    using sends.next_segment [of C isn "cn_sender s" "cn_written s" "cn_acked s" w now]
      fin_acked_frame(2) [OF conn_sender [OF transmit(4)], of C w now] transmitted_ok [of C isn "cn_sender s" "cn_written s" "cn_acked s" w now r b]
    by (auto simp: conn_inv_def)
  then show ?case using transmit(4) by (auto simp: conn_inv_def received_def)
next
  case (quiet w now s r b)
  then have "sends C isn b (cn_written s) (cn_acked s)" "sb_fin_acked b = sb_fin_acked (cn_sender s)"
    using sends.next_segment [of C isn "cn_sender s" "cn_written s" "cn_acked s" w now]
      fin_acked_frame(2) [OF conn_sender [OF quiet(3)], of C w now]
    by (auto simp: conn_inv_def)
  then show ?case using quiet(3) by (auto simp: conn_inv_def received_def)
next
  case (sent s owner off now)
  then have "sends C isn (OnSent C owner off now (cn_sender s)) (cn_written s) (cn_acked s)"
    "sb_fin_acked (OnSent C owner off now (cn_sender s)) = sb_fin_acked (cn_sender s)"
    using sends.sent [of C isn "cn_sender s" "cn_written s" "cn_acked s" owner off now]
      fin_acked_frame(3) [OF conn_sender [OF sent(2)], of C owner off now]
    by (auto simp: conn_inv_def)
  then show ?case using sent(2) by (auto simp: conn_inv_def received_def)
next
  case (sender op blocks m now s)
  have i: "sends C isn (cn_sender s) (cn_written s) (cn_acked s)" using sender(2) by (simp add: conn_inv_def)
  have "sends C isn (send_step C op (cn_sender s)) (cn_written s) (cn_acked s)"
    "sb_fin_acked (send_step C op (cn_sender s)) = sb_fin_acked (cn_sender s)"
    by (rule sends_quiet [OF i sender(1)], rule fin_acked_frame(4) [OF sender(1)])
  then show ?case using sender(2) by (auto simp: conn_inv_def received_def)
next
  case (arrive p sequence d s psh)
  have r: "recv_inv (cn_receiver s)" using conn_receiver [OF arrive(3)] by simp
  have "segment_ok isn (cn_written s) (p, sequence, d)" using arrive(1,3) by (auto simp: conn_inv_def)
  then have "receives F isn (snd (OnSegment sequence (Some d) psh (cn_receiver s))) (cn_read s)"
    if "extends F (cn_written s)" for F
    using that arrive(2,3) in_stream_segment by (intro receives.segment) (auto simp: conn_inv_def received_def)
  then show ?case using arrive(3) received_OnSegment [OF r, of sequence "Some d" psh]
    by (fastforce simp: conn_inv_def received_def)
next
  case (app_read k s)
  have r: "recv_inv (cn_receiver s)" using conn_receiver [OF app_read(2)] by simp
  have "length (cn_read s) + (k + rb_ready_bytes (snd (ConsumeReady k (cn_receiver s)))) = received s"
    using received_ConsumeReady [OF r app_read(1)] by (simp add: received_def)
  then show ?case using app_read by (auto simp: conn_inv_def received_def intro: receives.consume)
next
  case (acknowledge s n)
  have e: "rb_ready_bytes (RecordAdvertisedWindow n (AckSent (cn_receiver s))) = rb_ready_bytes (cn_receiver s)"
    using RecordAdvertisedWindow_eq [of n "AckSent (cn_receiver s)"] by (auto simp: AckSent_def)
  show ?case using acknowledge conn_receiver(3) [OF acknowledge] e
    by (auto simp: conn_inv_def received_def intro: receives.advertise receives.ack_sent)
next
  case (ack_arrives q acknowledgment s w now ack_only ece r b)
  have i: "sends C isn (cn_sender s) (cn_written s) (cn_acked s)" "\<not> sb_fin_acked (cn_sender s)"
    "acknowledgment = isn + of_nat q" "q \<le> received s"
    using ack_arrives(1,4) by (auto simp: conn_inv_def)
  have "q \<le> length (cn_written s)" using i(4) conn_receiver(2) [OF ack_arrives(4)] by simp
  from ack_of_received [OF i(1,2) this ack_arrives(2) ack_arrives(3) [unfolded i(3)]]
  have "sa_newly_acked r \<le> q - cn_acked s" "\<not> sb_fin_acked b" by simp_all
  moreover have "sends C isn b (cn_written s) (cn_acked s + sa_newly_acked r)"
    using sends.ack [OF i(1), of acknowledgment w now ack_only ece] ack_arrives(3) by simp
  moreover have "cn_acked s \<le> received s" using ack_arrives(4) by (simp add: conn_inv_def)
  ultimately show ?case using ack_arrives(4) i(4) by (auto simp: conn_inv_def received_def)
qed

interpretation conn: reachable "conn_step C isn" "conn_inv C isn" for C isn
  by unfold_locales (rule conn_step_inv)

lemma connected_inv: "connected C isn s \<Longrightarrow> conn_inv C isn s"
  by (auto simp: connected_def conn_inv_def received_def intro: receives.start)

end
