(* ===== verification/Isn.thy ===== *)
theory Isn
  imports Flow
begin

text \<open>
  Initial sequence numbers (\<open>src/tcp/isn.h\<close>, \<open>isn.cpp\<close>): SipHash-2-4 of the directional flow under a secret,
  plus a clock that ticks every 4 microseconds and never stands still between two calls. The secret comes from the
  operating system and is a parameter.
\<close>

section \<open>SipHash\<close>

definition RotateLeft :: "u64 \<Rightarrow> nat \<Rightarrow> u64" where
  "RotateLeft val bits = push_bit bits val OR drop_bit (64 - bits) val"

definition ReadLittle64 :: "bytes \<Rightarrow> u64" where
  "ReadLittle64 data = fold (\<lambda>i val. val OR push_bit (i * 8) (ucast (data ! i))) [0..<8] 0"

type_synonym sip_state = "u64 \<times> u64 \<times> u64 \<times> u64"

definition SipRound :: "sip_state \<Rightarrow> sip_state" where
  "SipRound = (\<lambda>(v0, v1, v2, v3).
     let v0 = v0 + v1;
         v1 = RotateLeft v1 13;
         v1 = v1 XOR v0;
         v0 = RotateLeft v0 32;
         v2 = v2 + v3;
         v3 = RotateLeft v3 16;
         v3 = v3 XOR v2;
         v0 = v0 + v3;
         v3 = RotateLeft v3 21;
         v3 = v3 XOR v0;
         v2 = v2 + v1;
         v1 = RotateLeft v1 17;
         v1 = v1 XOR v2;
         v2 = RotateLeft v2 32 in
     (v0, v1, v2, v3))"

definition sip_absorb :: "u64 \<Rightarrow> sip_state \<Rightarrow> sip_state" where
  "sip_absorb message = (\<lambda>(v0, v1, v2, v3).
     let (v0, v1, v2, v3) = SipRound (SipRound (v0, v1, v2, v3 XOR message)) in
     (v0 XOR message, v1, v2, v3))"

definition SipHash24 :: "bytes \<Rightarrow> u64 \<Rightarrow> u64 \<Rightarrow> u64" where
  "SipHash24 data key0 key1 =
     (let s = (0x736f6d6570736575 XOR key0, 0x646f72616e646f6d XOR key1,
               0x6c7967656e657261 XOR key0, 0x7465646279746573 XOR key1);
          blocks = length data div 8;
          s = fold (\<lambda>i. sip_absorb (ReadLittle64 (drop (i * 8) data))) [0..<blocks] s;
          last = push_bit 56 (of_nat (length data));
          remaining_offset = blocks * 8;
          last = fold (\<lambda>i last. last OR push_bit (i * 8) (ucast (data ! (remaining_offset + i))))
                   [0..<length data - remaining_offset] last;
          (v0, v1, v2, v3) = sip_absorb last s;
          (v0, v1, v2, v3) = (SipRound ^^ 4) (v0, v1, v2 XOR 0xff, v3) in
      v0 XOR v1 XOR v2 XOR v3)"

section \<open>The generator\<close>

record TcpIsnGenerator =
  ig_secret0 :: u64
  ig_secret1 :: u64
  ig_last_clock_tick :: u64

definition TcpIsnGenerator_init :: "u64 \<Rightarrow> u64 \<Rightarrow> TcpIsnGenerator" where
  "TcpIsnGenerator_init secret0 secret1 =
     \<lparr>ig_secret0 = secret0, ig_secret1 = secret1, ig_last_clock_tick = 0\<rparr>"

definition isn_input :: "FlowKey \<Rightarrow> bytes" where
  "isn_input flow =
     family_byte (ia_family (fl_source flow)) # padded_bytes (fl_source flow) @ padded_bytes (fl_destination flow) @
     [ucast (drop_bit 8 (fl_source_port flow)), ucast (fl_source_port flow AND 0xFF),
      ucast (drop_bit 8 (fl_destination_port flow)), ucast (fl_destination_port flow AND 0xFF), fl_protocol flow]"

definition next_clock_tick :: "u64 \<Rightarrow> u64 \<Rightarrow> u64" where
  "next_clock_tick now_ms last_clock_tick =
     (let clock_tick = (if now_ms > u64_max div 250 then u64_max else now_ms * 250) in
      if clock_tick \<le> last_clock_tick \<and> last_clock_tick \<noteq> u64_max then last_clock_tick + 1 else clock_tick)"

definition Generate :: "FlowKey \<Rightarrow> u64 \<Rightarrow> TcpIsnGenerator \<Rightarrow> u32 \<times> TcpIsnGenerator" where
  "Generate flow now_ms g =
     (let keyed = ucast (SipHash24 (isn_input flow) (ig_secret0 g) (ig_secret1 g));
          clock_tick = next_clock_tick now_ms (ig_last_clock_tick g) in
      (keyed + ucast clock_tick, g\<lparr>ig_last_clock_tick := clock_tick\<rparr>))"

section \<open>Rotation and input\<close>

lemma RotateLeft_rotl: "bits < 64 \<Longrightarrow> RotateLeft val bits = word_rotl bits val"
proof (rule bit_word_eqI)
  fix n assume "bits < 64" "n < LENGTH(64)"
  then have "n < 64" by simp
  moreover have "\<not> bit val (64 + n - bits)" if "bits \<le> n" using that by (auto dest: bit_imp_le_length)
  moreover have "(n + 64 - bits) mod 64 = (if bits \<le> n then n - bits else 64 + n - bits)"
    using \<open>bits < 64\<close> \<open>n < 64\<close> by (auto simp: mod_if)
  ultimately show "bit (RotateLeft val bits) n = bit (word_rotl bits val) n"
    using \<open>bits < 64\<close> by (cases "bits \<le> n") (simp_all add: RotateLeft_def bit_simps bit_word_rotl_iff)
qed

lemma isn_input_flow_bytes: "isn_input k = flow_bytes k"
  by (simp add: isn_input_def flow_bytes_def u16_low_byte)

lemma length_isn_input: "flow_ok k \<Longrightarrow> length (isn_input k) = 38"
  by (simp add: isn_input_def flow_ok_def length_padded_bytes)

section \<open>The clock of the generator\<close>

lemma next_clock_tick_advances:
  assumes "tick \<noteq> u64_max"
  shows "tick < next_clock_tick now_ms tick"
proof -
  have "unat tick \<noteq> unat u64_max" using assms by (simp only: word_unat_eq_iff not_False_eq_True)
  then have "unat (tick + 1) = unat tick + 1"
    using unsigned_less [where 'a = nat, of tick] by (simp add: unat_word_ariths)
  then have "tick < tick + 1" by (simp add: word_less_nat_alt)
  then show ?thesis by (auto simp: next_clock_tick_def Let_def not_le)
qed

lemma diff_mod_mod: "(a mod 18446744073709551616 - b mod 18446744073709551616) mod 4294967296 = (a - b :: int) mod 4294967296"
  by (subst mod_diff_eq [symmetric]) (simp add: mod_mod_cancel mod_diff_eq)

lemma ucast_minus: "(ucast (a - b :: u64) :: u32) = ucast a - ucast b"
  by transfer (simp add: take_bit_eq_mod mod_mod_cancel mod_simps diff_mod_mod)

text \<open>The numbers handed out for a sequence of requests, each with the tick it was made at.\<close>

fun isn_run :: "(FlowKey \<times> u64) list \<Rightarrow> TcpIsnGenerator \<Rightarrow> (u32 \<times> u64) list" where
  "isn_run [] g = []"
| "isn_run ((flow, now_ms) # rs) g =
     (let (isn, g) = Generate flow now_ms g in (isn, ig_last_clock_tick g) # isn_run rs g)"

lemma length_isn_run [simp]: "length (isn_run rs g) = length rs"
  by (induction rs arbitrary: g) (auto simp: case_prod_unfold Let_def)

lemma isn_run_keyed:
  "i < length rs \<Longrightarrow> fst (isn_run rs g ! i) =
     ucast (SipHash24 (isn_input (fst (rs ! i))) (ig_secret0 g) (ig_secret1 g)) + ucast (snd (isn_run rs g ! i))"
  by (induction rs arbitrary: g i) (auto simp: Generate_def Let_def nth_Cons split: nat.splits)

lemma isn_run_ticks:
  "u64_max \<notin> snd ` set (isn_run rs g) \<Longrightarrow> ig_last_clock_tick g \<noteq> u64_max \<Longrightarrow>
     sorted_wrt (<) (ig_last_clock_tick g # map snd (isn_run rs g))"
proof (induction rs arbitrary: g)
  case (Cons r rs)
  let ?g = "snd (Generate (fst r) (snd r) g)"
  have run: "isn_run (r # rs) g = (fst (Generate (fst r) (snd r) g), ig_last_clock_tick ?g) # isn_run rs ?g"
    by (cases r) (simp add: case_prod_unfold Let_def)
  have t: "ig_last_clock_tick g < ig_last_clock_tick ?g"
    using next_clock_tick_advances [OF Cons.prems(2)] by (simp add: Generate_def Let_def)
  have "sorted_wrt (<) (ig_last_clock_tick ?g # map snd (isn_run rs ?g))"
    using Cons.prems(1) by (intro Cons.IH) (auto simp: run)
  with t show ?case by (auto simp: run intro: less_trans)
qed simp

text \<open>
  C40: The initial sequence numbers of one flow are driven by the clock: between two connections of the same flow, whatever
  requests of other flows lie in between, the number advances by exactly the ticks in
  between, at least one, so it is never reused within \<open>2 ^ 32\<close> ticks of 4 microseconds.\<close>

theorem isn_never_reused:
  assumes "i < j" "j < length rs" "FlowKey_eq (fst (rs ! i)) (fst (rs ! j))"
    "u64_max \<notin> snd ` set (isn_run rs (TcpIsnGenerator_init k0 k1))"
    "isn_run rs (TcpIsnGenerator_init k0 k1) ! i = (isn, tick)"
    "isn_run rs (TcpIsnGenerator_init k0 k1) ! j = (isn', tick')"
  shows "tick < tick' \<and> isn' - isn = ucast (tick' - tick) \<and> (unat tick' - unat tick < 2 ^ 32 \<longrightarrow> isn' \<noteq> isn)"
proof -
  let ?out = "isn_run rs (TcpIsnGenerator_init k0 k1)"
  have "sorted_wrt (<) (map snd ?out)"
    using isn_run_ticks [OF assms(4)] by (simp add: TcpIsnGenerator_init_def)
  from sorted_wrt_nth_less [OF this assms(1)] have t: "tick < tick'" using assms(1,2,5,6) by simp
  have "isn_input (fst (rs ! i)) = isn_input (fst (rs ! j))"
    using flow_bytes_cong [OF assms(3)] by (simp add: isn_input_flow_bytes)
  then have d: "isn' - isn = ucast tick' - ucast tick"
    using isn_run_keyed [of i rs "TcpIsnGenerator_init k0 k1"] isn_run_keyed [of j rs "TcpIsnGenerator_init k0 k1"] assms(1,2,5,6)
    by simp
  moreover have u: "(ucast tick' :: u32) - ucast tick = ucast (tick' - tick)"
    by (rule ucast_minus [symmetric])
  moreover have "unat tick' - unat tick = unat (tick' - tick)" "0 < unat (tick' - tick)"
    using t by (simp_all add: unat_sub_if' word_less_nat_alt)
  moreover have "unat (ucast x :: u32) = unat x" if "unat x < 2 ^ 32" for x :: u64
    using that by (simp add: unsigned_ucast_eq take_bit_nat_eq_self)
  ultimately show ?thesis using t by (metis diff_self unsigned_0 less_irrefl)
qed

theorem isn_never_reused_witness:
  "snd (isn_run [(sample_flow, 7), (reverse_flow sample_flow, 7), (sample_flow, 7)] (TcpIsnGenerator_init 0 0) ! 2) = 1752 \<and>
   fst (isn_run [(sample_flow, 7), (reverse_flow sample_flow, 7), (sample_flow, 7)] (TcpIsnGenerator_init 0 0) ! 2) -
   fst (isn_run [(sample_flow, 7), (reverse_flow sample_flow, 7), (sample_flow, 7)] (TcpIsnGenerator_init 0 0) ! 0) = 2"
proof -
  let ?rs = "[(sample_flow, 7), (reverse_flow sample_flow, 7), (sample_flow, 7)]"
  let ?out = "isn_run ?rs (TcpIsnGenerator_init 0 0)"
  have t: "map snd ?out = [1750, 1751, 1752]"
    by (simp add: Generate_def next_clock_tick_def TcpIsnGenerator_init_def Let_def)
  have n: "snd (?out ! 0) = 1750" "snd (?out ! 2) = 1752"
    using arg_cong [OF t, of "\<lambda>x. x ! 0"] arg_cong [OF t, of "\<lambda>x. x ! 2"] by (simp_all del: isn_run.simps)
  have "u64_max \<notin> snd ` set ?out" unfolding set_map [symmetric] t by simp
  moreover have "FlowKey_eq (fst (?rs ! 0)) (fst (?rs ! 2))" by (simp add: FlowKey_eq_def IpAddress_eq_def)
  moreover have "?out ! 0 = (fst (?out ! 0), 1750)" "?out ! 2 = (fst (?out ! 2), 1752)"
    by (simp_all only: n [symmetric] prod.collapse)
  ultimately have "(1750 :: u64) < 1752 \<and> fst (?out ! 2) - fst (?out ! 0) = ucast (1752 - 1750 :: u64)"
    using isn_never_reused [of 0 2 ?rs 0 0] by (simp del: isn_run.simps)
  with n show ?thesis by (simp del: isn_run.simps)
qed

end
