(* ===== verification/Spec2Isabelle.thy ===== *)
theory Spec2Isabelle
  imports Icmp Pmtu FragmentTable FragmentLive TcpOutput SpscRing TimerWheel UdpFlow Udp TcpSendTimers TcpConnection Isn
begin

text \<open>
  A verification of the Netstack2 user-space TCP/IP stack.

  \<^bold>\<open>The program.\<close> Packets arrive from a packet device and are dispatched by a flow hash to shards. A shard parses
  the IP header, reassembles fragments, and hands TCP segments and UDP datagrams to its flow tables; a TCP
  connection has a receive ring, from which a delivery loop feeds the session of the application, and a send buffer
  with retransmission, congestion control and timers on a timer wheel. Shards exchange messages with other threads
  through bounded inboxes. Source paths below are relative to \<open>src/src/\<close> unless they start with \<open>include/\<close>.

  \<^bold>\<open>Conventions.\<close> \<open>NetPrelude\<close> fixes the types: fixed-width integers are words of that width, so that
  arithmetic wraps as in the code; \<open>size_t\<close> is a natural number, checked against \<open>size_max\<close> where
  the code checks; a pointer with a length is a list of bytes, a nullable pointer an option. A struct is a record, an
  enum a datatype, a member function a function that takes and returns the record; exceptions, failed allocations and
  error codes are values. \<open>Machine\<close> holds the shared interfaces: \<open>machine\<close> and \<open>guarded_machine\<close>, a component driven by a
  sequence of operations with an invariant, \<open>simulation\<close>, a machine with an abstract counterpart, and \<open>reachable\<close>, a step relation
  with an invariant. They are interpreted for the stateful components; \<open>field_checksum\<close>, \<open>pair_order\<close>, \<open>flag_array\<close> and
  \<open>open_window\<close> are the interfaces of single components. Code of other
  parties, that is sessions, factories, callbacks, clocks, emitters and the random secret, is a parameter.

  \<^bold>\<open>Headers and checksums.\<close>
  \<^item> \<open>Checksum\<close>: \<open>ip/checksum.cpp\<close>. The accumulation loops compute the one's complement sum; inserted checksums verify;
    a change of one word is detected; the pseudo-header seed equals a prefix of bytes.
  \<^item> \<open>Checked\<close>: \<open>ip/checked.h\<close>, overflow-checked arithmetic and the read cursor.
  \<^item> \<open>Ipv4\<close>, \<open>ExtHeaders\<close>, \<open>Ipv6\<close>: \<open>ip/ipv4.cpp\<close>, \<open>ip/extension_headers.cpp\<close>, \<open>ip/ipv6.cpp\<close>. The IPv4 parser accepts exactly
    the well-formed packets; the option parser accepts exactly the TLV grammar; the extension header walk
    terminates with a bounded chain of distinct headers; a Jumbo option behind the first header is not checked.
  \<^item> \<open>Icmp\<close>: \<open>ip/icmpv4.cpp\<close>, \<open>ip/icmpv6.cpp\<close>, \<open>ip/icmp_unreachable.cpp\<close>. Built messages parse back with right checksums.
  \<^item> \<open>Flow\<close>: \<open>include/tcpip2/address.h\<close>, \<open>flow.h\<close>, \<open>core/flow_hash.cpp\<close>. Both directions of a flow meet in one shard.
  \<^item> \<open>TcpSegment\<close>, \<open>TcpOutput\<close>: \<open>tcp/segment.cpp\<close>, \<open>tcp/options.cpp\<close>, \<open>tcp/input.cpp\<close>, \<open>tcp/output.cpp\<close>. Whatever is built
    for a response is read back with its fields, options and payload.
  \<^item> \<open>Udp\<close>: \<open>udp/udp.cpp\<close>, \<open>udp/input.cpp\<close>, \<open>udp/output.cpp\<close>. The round trip, and a wrapped IPv4 total length.

  \<^bold>\<open>Tables.\<close>
  \<^item> \<open>Fragment\<close>, \<open>FragmentCorrect\<close>, \<open>FragmentTable\<close>, \<open>FragmentLive\<close>: \<open>ip/fragment.cpp\<close>. The table is bounded and accounts for its
    bytes; a completed datagram is the one that was sent; all fragments in any order complete it.
  \<^item> \<open>Pmtu\<close>: \<open>ip/pmtu.cpp\<close>. Bounds, unique keys, and what a lookup returns after an update.
  \<^item> \<open>UdpFlow\<close>: \<open>udp/flow_table.cpp\<close>. Bounds, distinct keys, and no session callback without a bound flow.
  \<^item> \<open>TimerWheel\<close>: \<open>core/timer_wheel.cpp\<close>. The wheel implements a map from ids to timers: the search for an id ends, advancing
    the clock calls the callback of every due timer once, re-entrant callbacks keep the wheel consistent.
  \<^item> \<open>SpscRing\<close>: \<open>core/inbox_spsc.h\<close>, \<open>core/inbox_mpsc.h\<close>, \<open>core/shard_message.h\<close>. The ring refines a bounded queue, and as a
    step relation over the atomic actions of its producer and consumer it is a FIFO under every interleaving. The
    release and acquire accesses of the code are taken to order the accesses to the slots.

  \<^bold>\<open>TCP.\<close>
  \<^item> \<open>TcpReceive\<close>, \<open>TcpReceiveCorrect\<close>, \<open>TcpStream\<close>: \<open>tcp/receive.cpp\<close>, \<open>tcp/delivery.cpp\<close>. The receive ring delivers a prefix of the
    peer's stream, reports only what it holds, and the delivery loop offers the session exactly the bytes that follow
    what it has accepted.
  \<^item> \<open>Congestion\<close>: \<open>tcp/rate_sampler.cpp\<close> and the AIMD, BBR and hybrid controllers of \<open>tcp/congestion.cpp\<close>. No window becomes
    zero; BBR cannot leave its drain state on short paths.
  \<^item> \<open>TcpSend\<close>, \<open>TcpSendCorrect\<close>, \<open>TcpSendTimers\<close>: \<open>tcp/send.cpp\<close>, for an arbitrary controller given as a record of its operations. The
    queues are consistent, every segment carries the bytes of the written stream that its sequence number names,
    an expired timer leads to a retransmission, the timers stay in their bounds; a SACK counter leaks.
  \<^item> \<open>Isn\<close>: \<open>tcp/isn.cpp\<close>. SipHash and the clock; numbers of one flow advance by the elapsed ticks.
  \<^item> \<open>TcpConnection\<close> and this theory join a send buffer and a receive ring by a network that loses, duplicates and reorders.

  \<^bold>\<open>Termination.\<close> Loops are structural or come with a measure. The id search of the wheel is a \<open>partial_function\<close>, which is
  proved to return while an id is free. No definition uses fuel; the delivery loop's budget is the code's own.

  \<^bold>\<open>Not modelled.\<close> The connection engine \<open>tcp/handshake.cpp\<close>, the KCC controller, the shard's event loop, the runtime with its threads and
  dispatcher, buffer pools, the session adapter, FQ-CoDel and the packet devices. The queue of a full \<open>size_t\<close>
  of bytes cannot exist, so sums of two buffer lengths are not wrapped.
\<close>

section \<open>From the sending to the receiving application\<close>

text \<open>
  C1: End-to-end delivery. The send buffer and the receive ring, connected by a network that
  loses, duplicates, delays and reorders segments and acknowledgments, deliver exactly the stream that was
  written: what the receiving application has read is a prefix of it, the sender only releases bytes the receiver
  holds, and once the sender reports that everything is acknowledged the receiver has every byte. The theorem holds
  for every congestion controller.\<close>

theorem tcp_end_to_end:
  assumes "connected C isn s0" "(conn_step C isn)\<^sup>*\<^sup>* s0 s"
  shows "cn_read s = take (length (cn_read s)) (cn_written s) \<and> cn_acked s \<le> received s \<and>
    received s \<le> length (cn_written s) \<and>
    (AllAcked (cn_sender s) \<and> \<not> sb_closed (cn_sender s) \<longrightarrow> received s = length (cn_written s))"
proof -
  have inv: "conn_inv C isn s" using conn.reaches_inv [OF assms(2) connected_inv [OF assms(1)]] .
  note r = conn_receiver [OF inv]
  have acked: "cn_acked s \<le> received s" "sends C isn (cn_sender s) (cn_written s) (cn_acked s)"
    using inv by (simp_all add: conn_inv_def)
  have "outstanding (core (cn_sender s)) = []" if "AllAcked (cn_sender s)"
    using that by (simp add: AllAcked_def outstanding_def flight_def core_fields)
  moreover have "outstanding (core (cn_sender s)) = drop (cn_acked s) (cn_written s)" if "\<not> sb_closed (cn_sender s)"
    using sends_inv [OF acked(2)] that by (simp add: stream_ok_def core_fields)
  ultimately have "length (cn_written s) \<le> cn_acked s" if "AllAcked (cn_sender s)" "\<not> sb_closed (cn_sender s)"
    using that by simp
  with r acked show ?thesis by auto
qed

text \<open>Three bytes are written, two of them travel in the first segment and are read.\<close>

definition sample_receiver :: TcpReceiveBuffer where
  "sample_receiver = the (TcpReceiveBuffer_init 8 1000 0)"

definition sample_start :: "AimdController connection" where
  "sample_start = \<lparr>cn_sender = TcpSendBuffer_init 1000 1460 100 100 1000 200 60000 500 60000 15 15 CA_Aimd
     (AimdController_init 1460), cn_written = [], cn_acked = 0, cn_segments = {}, cn_receiver = sample_receiver,
     cn_read = [], cn_acks = {}\<rparr>"

theorem tcp_end_to_end_witness:
  "take 2 (ReadyView (snd (OnSegment 1000 (Some [1, 2]) False sample_receiver))) = [1, 2]"
proof -
  let ?C = "conn_step aimd_ops 1000"
  define s1 where "s1 = sample_start\<lparr>cn_sender := sample_sender, cn_written := [1, 2, 3]\<rparr>"
  define s2 where "s2 = s1\<lparr>cn_sender := snd (NextSegment aimd_ops 2 0 sample_sender), cn_segments := {(0, 1000, [1, 2])}\<rparr>"
  define s3 where "s3 = s2\<lparr>cn_receiver := snd (OnSegment 1000 (Some [1, 2]) False sample_receiver)\<rparr>"
  define s4 where "s4 = s3\<lparr>cn_receiver := snd (ConsumeReady 2 (cn_receiver s3)), cn_read := take 2 (ReadyView (cn_receiver s3))\<rparr>"
  have "let b = sample_sender; r = fst (NextSegment aimd_ops 2 0 b) in
    sn_has_segment r \<and> sn_sequence r = 1000 \<and> sn_payload r = [1, 2] \<and> sb_snd_una b = 1000" by code_simp
  moreover have "fst (Enqueue (Some [1, 2, 3]) (cn_sender sample_start)) = 3" "rb_ready_bytes sample_receiver = 0"
    "length (ReadyView (snd (OnSegment 1000 (Some [1, 2]) False sample_receiver))) = 2"
    by code_simp+
  ultimately have ev: "fst (Enqueue (Some [1, 2, 3]) (cn_sender sample_start)) = 3"
    "sn_has_segment (fst (NextSegment aimd_ops 2 0 sample_sender))"
    "sn_sequence (fst (NextSegment aimd_ops 2 0 sample_sender)) = 1000"
    "sn_payload (fst (NextSegment aimd_ops 2 0 sample_sender)) = [1, 2]" "sb_snd_una sample_sender = 1000"
    "rb_ready_bytes sample_receiver = 0"
    "length (ReadyView (snd (OnSegment 1000 (Some [1, 2]) False sample_receiver))) = 2"
    unfolding Let_def by blast+
  have init: "TcpReceiveBuffer_init 8 1000 0 = Some sample_receiver"
    by (simp add: sample_receiver_def TcpReceiveBuffer_init_def ValidateCapacity_def kMaximumCapacity_def)
  have start: "connected aimd_ops 1000 sample_start"
    using init by (auto simp: connected_def sample_start_def TcpSendBuffer_init_def [of 1000]
        intro!: sends.start [unfolded TcpSendBuffer_init_def])
  have "?C sample_start s1" unfolding s1_def
    using conn_step.app_write [of "[1, 2, 3]" sample_start 3 sample_sender] ev(1)
    by (simp add: sample_sender_def sample_start_def prod_eq_iff)
  moreover have "?C s1 s2" unfolding s2_def
    using conn_step.transmit [OF prod.collapse [symmetric], of aimd_ops 2 0 s1 0 1000] ev(2-5)
    by (simp add: s1_def sample_start_def)
  moreover have "?C s2 s3" unfolding s3_def
    using conn_step.arrive [of 0 1000 "[1, 2]" s2 aimd_ops 1000 False] ev(6)
    by (simp add: s2_def s1_def sample_start_def received_def)
  moreover have "?C s3 s4" unfolding s4_def
    using conn_step.app_read [of 2 s3 aimd_ops 1000] ev(7) by (simp add: s3_def s2_def s1_def sample_start_def)
  ultimately have "?C\<^sup>*\<^sup>* sample_start s4" by (meson converse_rtranclp_into_rtranclp rtranclp.rtrancl_refl)
  from tcp_end_to_end [OF start this] ev(7) show ?thesis
    by (simp add: s4_def s3_def s2_def s1_def sample_start_def)
qed

end
